(* ===== verification/Prelude.thy ===== *)
theory Prelude imports Main begin

text \<open>
  What every component shares: the JavaScript string operations the code uses, the
  insertion-ordered \<open>Map\<close> with its interface, and the interfaces of components that keep
  one small state machine per key.

  Strings are lists of \<^typ>\<open>char\<close>, read as UTF-16 code units below 256; the case mapping
  is that of the ASCII letters. Numbers (times, counters, ids of processes) are
  \<^typ>\<open>int\<close>: the code only adds, subtracts and compares them. \<open>undefined\<close> and \<open>null\<close>
  are \<^term>\<open>None\<close>.
\<close>

named_theorems js_simps \<open>evaluation rules of the JavaScript operations\<close>
named_theorems frame_simps \<open>what an operation on one key leaves alone\<close>

section \<open>Absent values\<close>

text \<open>\<open>Boolean(s)\<close> of an optional string, and \<open>x ?? y\<close>.\<close>

definition truthy :: "string option \<Rightarrow> bool" where
  "truthy s = (case s of Some x \<Rightarrow> x \<noteq> [] | None \<Rightarrow> False)"

fun nullish :: "'a option \<Rightarrow> 'a option \<Rightarrow> 'a option" where
  "nullish (Some x) y = Some x"
| "nullish None y = y"

text \<open>A computation that may throw, then another.\<close>

fun andThen :: "'e + 'a \<Rightarrow> ('a \<Rightarrow> 'e + 'b) \<Rightarrow> 'e + 'b" where
  "andThen (Inl e) f = Inl e"
| "andThen (Inr x) f = f x"

lemma andThen_Inr_iff: "andThen r f = Inr y \<longleftrightarrow> (\<exists>x. r = Inr x \<and> f x = Inr y)"
  by (cases r) auto

section \<open>Strings\<close>

abbreviation char_code :: "char \<Rightarrow> nat" where
  "char_code c \<equiv> of_char c"

definition lower_char :: "char \<Rightarrow> char" where
  "lower_char c = (if 65 \<le> char_code c \<and> char_code c \<le> 90 then char_of (char_code c + 32) else c)"

definition upper_char :: "char \<Rightarrow> char" where
  "upper_char c = (if 97 \<le> char_code c \<and> char_code c \<le> 122 then char_of (char_code c - 32) else c)"

definition to_lower :: "string \<Rightarrow> string" where
  "to_lower s = map lower_char s"

definition to_upper :: "string \<Rightarrow> string" where
  "to_upper s = map upper_char s"

definition is_space :: "char \<Rightarrow> bool" where
  "is_space c \<longleftrightarrow> char_code c \<in> {9, 10, 11, 12, 13, 32, 160}"

definition is_digit :: "char \<Rightarrow> bool" where
  "is_digit c \<longleftrightarrow> 48 \<le> char_code c \<and> char_code c \<le> 57"

definition is_lower_letter :: "char \<Rightarrow> bool" where
  "is_lower_letter c \<longleftrightarrow> 97 \<le> char_code c \<and> char_code c \<le> 122"

definition is_upper_letter :: "char \<Rightarrow> bool" where
  "is_upper_letter c \<longleftrightarrow> 65 \<le> char_code c \<and> char_code c \<le> 90"

definition is_word_char :: "char \<Rightarrow> bool" where
  "is_word_char c \<longleftrightarrow> is_digit c \<or> is_lower_letter c \<or> is_upper_letter c \<or> char_code c = 95"

definition trim_start :: "string \<Rightarrow> string" where
  "trim_start s = dropWhile is_space s"

definition trim :: "string \<Rightarrow> string" where
  "trim s = rev (dropWhile is_space (rev (dropWhile is_space s)))"

fun starts_with :: "string \<Rightarrow> string \<Rightarrow> bool" where
  "starts_with [] s = True"
| "starts_with (p # ps) [] = False"
| "starts_with (p # ps) (c # cs) = (p = c \<and> starts_with ps cs)"

definition ends_with :: "string \<Rightarrow> string \<Rightarrow> bool" where
  "ends_with p s = starts_with (rev p) (rev s)"

fun str_includes :: "string \<Rightarrow> string \<Rightarrow> bool" where
  "str_includes p [] = (p = [])"
| "str_includes p (c # cs) = (starts_with p (c # cs) \<or> str_includes p cs)"

text \<open>\<open>s.indexOf(p)\<close>, \<^term>\<open>None\<close> for -1.\<close>

fun index_of :: "string \<Rightarrow> string \<Rightarrow> nat option" where
  "index_of p [] = (if p = [] then Some 0 else None)"
| "index_of p (c # cs) =
     (if starts_with p (c # cs) then Some 0 else map_option Suc (index_of p cs))"

fun join :: "string \<Rightarrow> string list \<Rightarrow> string" where
  "join sep [] = []"
| "join sep [x] = x"
| "join sep (x # y # ys) = x @ sep @ join sep (y # ys)"

text \<open>\<open>s.split(c)\<close> for a separator of one character: never empty.\<close>

fun split_on :: "char \<Rightarrow> string \<Rightarrow> string list" where
  "split_on c [] = [[]]"
| "split_on c (x # xs) =
     (if x = c then [] # split_on c xs
      else (case split_on c xs of [] \<Rightarrow> [[x]] | l # ls \<Rightarrow> (x # l) # ls))"

definition newline :: char where
  "newline = char_of (10 :: nat)"

text \<open>\<open>String(n)\<close> for an integer.\<close>

function show_nat :: "nat \<Rightarrow> string" where
  "show_nat n = (if n < 10 then [char_of (48 + n)] else show_nat (n div 10) @ [char_of (48 + n mod 10)])"
  by pat_completeness auto
termination
  by (relation "measure (\<lambda>n. n)") auto

declare show_nat.simps [simp del]

definition show_int :: "int \<Rightarrow> string" where
  "show_int i = (if i < 0 then CHR ''-'' # show_nat (nat (- i)) else show_nat (nat i))"

text \<open>\<open>Number\<close> of digits.\<close>

definition digits_number :: "string \<Rightarrow> int" where
  "digits_number s = foldl (\<lambda>n c. n * 10 + (int (char_code c) - 48)) 0 s"

text \<open>A text between single quotes.\<close>

definition quoted :: "string \<Rightarrow> string" where
  "quoted s = CHR 0x27 # s @ [CHR 0x27]"

text \<open>\<open>s.replace\<close> of each run of the characters \<open>P\<close> by \<open>by\<close>.\<close>

fun squeeze :: "(char \<Rightarrow> bool) \<Rightarrow> string \<Rightarrow> bool \<Rightarrow> string \<Rightarrow> string" where
  "squeeze P by inside [] = []"
| "squeeze P by inside (c # cs) =
     (if P c then (if inside then [] else by) @ squeeze P by True cs else c # squeeze P by False cs)"

lemma split_on_nonempty [simp]: "split_on c s \<noteq> []"
  by (induction s) (auto split: list.splits)

lemma split_on_no_sep: "c \<notin> set l \<Longrightarrow> split_on c l = [l]"
  by (induction l) auto

lemma split_on_sep: "c \<notin> set l \<Longrightarrow> split_on c (l @ c # s) = l # split_on c s"
  by (induction l) auto

lemma split_on_append:
  "split_on c (s @ t) = butlast (split_on c s) @ (last (split_on c s) @ hd (split_on c t)) # tl (split_on c t)"
proof (induction s)
  case Nil
  then show ?case by simp
next
  case (Cons x s)
  obtain l ls where "split_on c s = l # ls" by (cases "split_on c s") auto
  then show ?case using Cons.IH by (auto split: list.splits)
qed

lemma starts_with_append [simp]: "starts_with p (p @ s)"
  by (induction p) auto

lemma starts_with_iff: "starts_with p s \<longleftrightarrow> (\<exists>r. s = p @ r)"
  by (induction p s rule: starts_with.induct) auto

lemma includes_iff: "str_includes p s \<longleftrightarrow> (\<exists>a b. s = a @ p @ b)"
proof (induction s)
  case Nil
  then show ?case by auto
next
  case (Cons c cs)
  note IH = Cons.IH
  show ?case
  proof
    assume "str_includes p (c # cs)"
    then consider "starts_with p (c # cs)" | "str_includes p cs" by auto
    then show "\<exists>a b. c # cs = a @ p @ b"
    proof cases
      case 1
      then obtain r where "c # cs = p @ r" by (auto simp: starts_with_iff)
      then have "c # cs = [] @ p @ r" by simp
      then show ?thesis by blast
    next
      case 2
      with Cons.IH obtain a b where "cs = a @ p @ b" by blast
      then have "c # cs = (c # a) @ p @ b" by simp
      then show ?thesis by blast
    qed
  next
    assume "\<exists>a b. c # cs = a @ p @ b"
    then obtain a b where eq: "c # cs = a @ p @ b" by blast
    show "str_includes p (c # cs)"
    proof (cases a)
      case Nil
      then have "starts_with p (c # cs)" using eq by (auto simp: starts_with_iff)
      then show ?thesis by simp
    next
      case (Cons d ds)
      then have "cs = ds @ p @ b" using eq by simp
      then show ?thesis using IH by auto
    qed
  qed
qed

lemma join_split_on [simp]: "join [c] (split_on c s) = s"
proof (induction s)
  case Nil
  then show ?case by simp
next
  case (Cons x xs)
  obtain l ls where sp: "split_on c xs = l # ls"
    by (cases "split_on c xs") auto
  show ?case
    using Cons.IH by (cases ls) (auto simp: sp)
qed

lemma show_nat_nonempty [simp]: "show_nat n \<noteq> []"
  by (subst show_nat.simps) simp

section \<open>Times that do not go back\<close>

lemma sorted_from_hd: "sorted (ts @ [n]) \<Longrightarrow> sorted (hd (ts @ [n]) # ts)"
  by (cases ts) (simp_all add: sorted_append)

lemma last_from_hd: "sorted (ts @ [n]) \<Longrightarrow> last (hd (ts @ [n]) # ts) \<le> n"
  using last_in_set [of ts] by (cases "ts = []") (auto simp: sorted_append)

section \<open>Insertion-ordered maps\<close>

text \<open>
  A JavaScript \<open>Map\<close> iterates in insertion order; setting a present key keeps its place.
\<close>

type_synonym ('k, 'v) js_map = "('k \<times> 'v) list"

fun map_get :: "('k, 'v) js_map \<Rightarrow> 'k \<Rightarrow> 'v option" where
  "map_get [] k = None"
| "map_get ((k', v) # m) k = (if k' = k then Some v else map_get m k)"

fun map_set :: "('k, 'v) js_map \<Rightarrow> 'k \<Rightarrow> 'v \<Rightarrow> ('k, 'v) js_map" where
  "map_set [] k v = [(k, v)]"
| "map_set ((k', v') # m) k v = (if k' = k then (k, v) # m else (k', v') # map_set m k v)"

definition map_delete :: "('k, 'v) js_map \<Rightarrow> 'k \<Rightarrow> ('k, 'v) js_map" where
  "map_delete m k = filter (\<lambda>kv. fst kv \<noteq> k) m"

definition map_has :: "('k, 'v) js_map \<Rightarrow> 'k \<Rightarrow> bool" where
  "map_has m k = (map_get m k \<noteq> None)"

definition map_values :: "('k, 'v) js_map \<Rightarrow> 'v list" where
  "map_values m = map snd m"

definition map_ok :: "('k, 'v) js_map \<Rightarrow> bool" where
  "map_ok m = distinct (map fst m)"

lemma map_get_set: "map_get (map_set m k v) k' = (if k = k' then Some v else map_get m k')"
  by (induction m k v rule: map_set.induct) auto

lemma map_get_delete: "map_get (map_delete m k) k' = (if k = k' then None else map_get m k')"
  by (induction m) (auto simp: map_delete_def)

lemma map_get_None_iff: "map_get m k = None \<longleftrightarrow> k \<notin> fst ` set m"
  by (induction m k rule: map_get.induct) auto

lemma map_get_SomeD: "map_get m k = Some v \<Longrightarrow> (k, v) \<in> set m"
  by (induction m) (auto split: if_splits)

lemma map_get_iff: "map_ok m \<Longrightarrow> map_get m k = Some v \<longleftrightarrow> (k, v) \<in> set m"
  by (induction m) (force simp: map_ok_def)+

lemma fst_set_map_set: "fst ` set (map_set m k v) = insert k (fst ` set m)"
  by (induction m k v rule: map_set.induct) auto

lemma map_ok_empty [simp]: "map_ok []"
  by (simp add: map_ok_def)

lemma map_ok_set [simp]: "map_ok m \<Longrightarrow> map_ok (map_set m k v)"
proof (induction m k v rule: map_set.induct)
  case (1 k v)
  then show ?case by (simp add: map_ok_def)
next
  case (2 k' v' m k v)
  then show ?case
    using fst_set_map_set [of m k v] by (auto simp: map_ok_def)
qed

lemma map_ok_delete [simp]: "map_ok m \<Longrightarrow> map_ok (map_delete m k)"
  by (simp add: map_ok_def map_delete_def distinct_map_filter)

section \<open>Interfaces\<close>

text \<open>A store that is read, written and erased by key: what every client of a \<open>Map\<close> or of
  a directory of files relies on.\<close>

locale keyed_store =
  fixes get :: "'m \<Rightarrow> 'k \<Rightarrow> 'v option"
    and put :: "'m \<Rightarrow> 'k \<Rightarrow> 'v \<Rightarrow> 'm"
    and del :: "'m \<Rightarrow> 'k \<Rightarrow> 'm"
  assumes get_put: "get (put m k v) k' = (if k = k' then Some v else get m k')"
    and get_del: "get (del m k) k' = (if k = k' then None else get m k')"
begin

lemma get_put_same [simp]: "get (put m k v) k = Some v"
  by (simp add: get_put)

lemma get_put_other [simp]: "k \<noteq> k' \<Longrightarrow> get (put m k v) k' = get m k'"
  by (simp add: get_put)

lemma get_del_same [simp]: "get (del m k) k = None"
  by (simp add: get_del)

lemma get_del_other [simp]: "k \<noteq> k' \<Longrightarrow> get (del m k) k' = get m k'"
  by (simp add: get_del)

lemma put_put_get: "get (put (put m k v) k w) = get (put m k w)"
  by (auto simp: get_put)

lemma del_put_get: "get (del (put m k v) k) = get (del m k)"
  by (auto simp: get_put get_del)

end

interpretation jm: keyed_store map_get map_set map_delete
  by unfold_locales (simp_all add: map_get_set map_get_delete)

text \<open>A directory of files, each read, replaced and removed as a whole.\<close>

interpretation files: keyed_store
  "\<lambda>(s :: 'k \<Rightarrow> 'v option) k. s k" "\<lambda>s k v. s(k \<mapsto> v)" "\<lambda>s k. s(k := None)"
  by unfold_locales auto

text \<open>
  A component that keeps one machine per key: an operation at a key moves that key's
  machine by \<open>step\<close> and no other. Whatever a run of operations does, each key sees exactly
  the run of its own operations, so what one machine keeps, every key keeps.
\<close>

locale keyed_machine =
  fixes get :: "'m \<Rightarrow> 'k \<Rightarrow> 'v option"
    and op :: "'k \<Rightarrow> 'e \<Rightarrow> 'm \<Rightarrow> 'm"
    and step :: "'k \<Rightarrow> 'e \<Rightarrow> 'v option \<Rightarrow> 'v option"
  assumes op_here: "get (op k e m) k = step k e (get m k)"
    and op_frame: "k \<noteq> k' \<Longrightarrow> get (op k e m) k' = get m k'"
begin

lemma run_project:
  "get (fold (\<lambda>(k, e). op k e) evs m) k' = fold (step k') (map snd (filter (\<lambda>(k, e). k = k') evs)) (get m k')"
proof (induction evs arbitrary: m)
  case Nil
  then show ?case by simp
next
  case (Cons ke evs)
  obtain k e where ke: "ke = (k, e)" by (cases ke)
  show ?case
    using Cons.IH [of "op k e m"] by (cases "k = k'") (simp_all add: ke op_here op_frame)
qed

lemma run_invariant:
  assumes "\<And>e v. P v \<Longrightarrow> P (step k' e v)" and "P (get m k')"
  shows "P (get (fold (\<lambda>(k, e). op k e) evs m) k')"
proof -
  have "P (fold (step k') es v)" if "P v" for es v
    using that by (induction es arbitrary: v) (auto intro: assms(1))
  then show ?thesis by (simp add: run_project assms(2))
qed

lemma run_other_keys:
  assumes "k' \<notin> fst ` set evs"
  shows "get (fold (\<lambda>(k, e). op k e) evs m) k' = get m k'"
proof -
  have "filter (\<lambda>(k, e). k = k') evs = []"
    using assms by (force simp: filter_empty_conv)
  then show ?thesis by (simp add: run_project)
qed

end

end
