(* ===== verification/Js_Regex.thy ===== *)
theory Js_Regex imports Prelude begin

text \<open>
  The fragment of JavaScript regular expressions the code tests with: character classes,
  sequences, alternatives, an optional part, a repeated class, the word boundary \<open>\b\<close>. A state is the character before
  the position and the rest of the input; \<open>rx_run\<close> lists the states after a match, in
  the order backtracking tries them, and \<open>rx_test\<close> is \<open>pattern.test(s)\<close>, a match that starts anywhere.
\<close>

datatype rx =
    Cls "char \<Rightarrow> bool"
  | Sq rx rx
  | Alt rx rx
  | Opt rx
  | Star "char \<Rightarrow> bool"
  | WordB
  | Eps

type_synonym rx_state = "char option \<times> string"

fun word_at :: "char option \<Rightarrow> bool" where
  "word_at None = False"
| "word_at (Some c) = is_word_char c"

fun first_char :: "string \<Rightarrow> char option" where
  "first_char [] = None"
| "first_char (c # cs) = Some c"

text \<open>The greedy repetition of a class: the longest first.\<close>

fun star_states :: "(char \<Rightarrow> bool) \<Rightarrow> rx_state \<Rightarrow> rx_state list" where
  "star_states P (p, []) = [(p, [])]"
| "star_states P (p, c # cs) = (if P c then star_states P (Some c, cs) else []) @ [(p, c # cs)]"

fun rx_run :: "rx \<Rightarrow> rx_state \<Rightarrow> rx_state list" where
  "rx_run Eps st = [st]"
| "rx_run (Cls P) (p, []) = []"
| "rx_run (Cls P) (p, c # cs) = (if P c then [(Some c, cs)] else [])"
| "rx_run (Sq a b) st = concat (map (rx_run b) (rx_run a st))"
| "rx_run (Alt a b) st = rx_run a st @ rx_run b st"
| "rx_run (Star P) st = star_states P st"
| "rx_run (Opt a) st = rx_run a st @ [st]"
| "rx_run WordB (p, s) = (if word_at p \<noteq> word_at (first_char s) then [(p, s)] else [])"

fun rx_find :: "rx \<Rightarrow> char option \<Rightarrow> string \<Rightarrow> bool" where
  "rx_find r p [] = (rx_run r (p, []) \<noteq> [])"
| "rx_find r p (c # cs) = (rx_run r (p, c # cs) \<noteq> [] \<or> rx_find r (Some c) cs)"

definition rx_test :: "rx \<Rightarrow> string \<Rightarrow> bool" where
  "rx_test r s = rx_find r None s"

text \<open>A literal under the \<open>i\<close> flag, and a literal as it is.\<close>

definition chr_ci :: "char \<Rightarrow> rx" where
  "chr_ci c = Cls (\<lambda>d. lower_char d = lower_char c)"

fun lit_ci :: "string \<Rightarrow> rx" where
  "lit_ci [] = Eps"
| "lit_ci (c # cs) = Sq (chr_ci c) (lit_ci cs)"

fun lit :: "string \<Rightarrow> rx" where
  "lit [] = Eps"
| "lit (c # cs) = Sq (Cls (\<lambda>d. d = c)) (lit cs)"

definition digit_rx :: rx where
  "digit_rx = Cls is_digit"

text \<open>\<open>.\<close>: any character but the line terminators.\<close>

definition dot_rx :: rx where
  "dot_rx = Cls (\<lambda>c. char_code c \<notin> {10, 13})"

lemma rx_run_lit_ci:
  "rx_run (lit_ci w) (p, s) =
     (if starts_with (to_lower w) (to_lower s)
      then [(if w = [] then p else Some (s ! (length w - 1)), drop (length w) s)] else [])"
proof (induction w arbitrary: p s)
  case Nil
  then show ?case by (simp add: to_lower_def)
next
  case (Cons c w)
  show ?case
  proof (cases s)
    case Nil
    then show ?thesis by (simp add: chr_ci_def to_lower_def)
  next
    case (Cons d ds)
    then show ?thesis
      using Cons.IH [of "Some d" ds] by (cases w) (auto simp: chr_ci_def to_lower_def)
  qed
qed

lemma rx_find_lit_ci: "w \<noteq> [] \<Longrightarrow> rx_find (lit_ci w) p s = str_includes (to_lower w) (to_lower s)"
proof (induction s arbitrary: p)
  case Nil
  then show ?case by (cases w) (simp_all add: rx_run_lit_ci to_lower_def del: lit_ci.simps)
next
  case (Cons c s)
  then show ?case by (simp add: rx_run_lit_ci) (simp add: to_lower_def)
qed

text \<open>Testing a literal under \<open>i\<close> is looking for it with the case folded.\<close>

lemma rx_test_lit_ci: "w \<noteq> [] \<Longrightarrow> rx_test (lit_ci w) s = str_includes (to_lower w) (to_lower s)"
  by (simp add: rx_test_def rx_find_lit_ci)

end
