(* ===== verification/Circuit_Breaker.thy ===== *)
theory Circuit_Breaker imports Js_Regex begin

text \<open>
  \<open>src/utils/circuitBreaker.ts\<close>: the classification of backend errors and the circuit
  breaker that takes a failing backend out of service for a while.
\<close>

section \<open>Error classification\<close>

text \<open>
  What is thrown: \<open>Falsy\<close> is a value \<open>!error\<close> holds of, \<open>ThrownString\<close> a non-empty string,
  \<open>ThrownError\<close> an \<open>Error\<close> with its name and message, \<open>ThrownOther\<close> any other object with
  the text \<open>JSON.stringify\<close> gives of it. Objects carry \<open>status\<close> and \<open>statusCode\<close>,
  \<^term>\<open>None\<close> when absent, and \<open>OtherCode\<close> for one that is not a number.
\<close>

datatype status_code = NumCode int | OtherCode

datatype thrown =
    Falsy
  | ThrownString string
  | ThrownError string string "status_code option" "status_code option"
  | ThrownOther string "status_code option" "status_code option"

fun error_status :: "thrown \<Rightarrow> status_code option" where
  "error_status Falsy = None"
| "error_status (ThrownString s) = None"
| "error_status (ThrownError n m st sc) = nullish st sc"
| "error_status (ThrownOther t st sc) = nullish st sc"

fun errorMessage :: "thrown \<Rightarrow> string" where
  "errorMessage Falsy = []"
| "errorMessage (ThrownError name message st sc) =
     (if name \<noteq> [] then name @ '': '' @ message else message)"
| "errorMessage (ThrownString s) = s"
| "errorMessage (ThrownOther text st sc) = text"

definition TRANSIENT_ERROR_PATTERNS :: "rx list" where
  "TRANSIENT_ERROR_PATTERNS =
    [Sq WordB (Sq (lit ''5'') (Sq digit_rx (Sq digit_rx WordB))),
     lit_ci ''timeout'',
     lit_ci ''timed out'',
     lit_ci ''econnreset'',
     lit_ci ''econnrefused'',
     lit_ci ''eai_again'',
     lit_ci ''etimedout'',
     lit_ci ''network error'',
     lit_ci ''service unavailable'',
     lit_ci ''bad gateway'',
     lit_ci ''gateway timeout'']"

definition RATE_LIMIT_ERROR_PATTERNS :: "rx list" where
  "RATE_LIMIT_ERROR_PATTERNS =
    [Sq WordB (Sq (lit ''429'') WordB),
     Sq (lit_ci ''rate'') (Sq (Opt dot_rx) (lit_ci ''limit'')),
     lit_ci ''too many requests'',
     lit_ci ''resourceexhausted'',
     lit_ci ''request limit reached'',
     lit_ci ''quota exceeded'',
     lit_ci ''quota exhausted'',
     Sq (lit_ci ''usage'') (Sq (Opt dot_rx) (lit_ci ''limit'')),
     Sq (lit_ci ''free'') (Sq (Opt dot_rx) (lit_ci ''usage''))]"

definition AUTH_ERROR_PATTERNS :: "rx list" where
  "AUTH_ERROR_PATTERNS =
    [Sq WordB (Sq (lit ''401'') WordB),
     Sq WordB (Sq (lit ''403'') WordB),
     lit_ci ''unauthorized'',
     lit_ci ''forbidden'',
     lit_ci ''authentication'',
     Sq WordB (Sq (lit_ci ''auth'') WordB),
     lit_ci ''invalid api key'',
     lit_ci ''api key'']"

definition some_match :: "rx list \<Rightarrow> string \<Rightarrow> bool" where
  "some_match ps message = list_ex (\<lambda>pattern. rx_test pattern message) ps"

fun is_5xx :: "status_code option \<Rightarrow> bool" where
  "is_5xx (Some (NumCode status)) = (500 \<le> status \<and> status < 600)"
| "is_5xx _ = False"

definition isTransientError :: "thrown \<Rightarrow> bool" where
  "isTransientError e =
     (if e = Falsy then False
      else if is_5xx (error_status e) then True
      else if error_status e = Some (NumCode 429) then True
      else some_match TRANSIENT_ERROR_PATTERNS (errorMessage e)
        \<or> some_match RATE_LIMIT_ERROR_PATTERNS (errorMessage e))"

definition isRateLimitError :: "thrown \<Rightarrow> bool" where
  "isRateLimitError e =
     (if e = Falsy then False
      else error_status e = Some (NumCode 429)
        \<or> some_match RATE_LIMIT_ERROR_PATTERNS (errorMessage e))"

definition isAuthError :: "thrown \<Rightarrow> bool" where
  "isAuthError e =
     (if e = Falsy then False
      else error_status e \<in> {Some (NumCode 401), Some (NumCode 403)}
        \<or> some_match AUTH_ERROR_PATTERNS (errorMessage e))"

text \<open>The name of an error counts: a quota error whose message is generic is still one.\<close>

lemma quota_name_matches:
  "some_match RATE_LIMIT_ERROR_PATTERNS (errorMessage (ThrownError ''FreeUsageLimitError'' [] None None))"
  by code_simp

section \<open>The breaker\<close>

datatype breaker_state = CLOSED | HALF_OPEN | OPEN

record entry =
  state :: breaker_state
  failures :: int
  openedAt :: int

text \<open>\<open>openedAt\<close> is only read when the state is \<open>OPEN\<close>, which sets it; 0 stands for unset.\<close>

record breaker =
  states :: "(string, entry) js_map"
  threshold :: int
  cooldownMs :: int

definition new_breaker :: "int option \<Rightarrow> int option \<Rightarrow> breaker" where
  "new_breaker failureThreshold cooldown =
     \<lparr>states = [],
      threshold = (case failureThreshold of Some t \<Rightarrow> t | None \<Rightarrow> 3),
      cooldownMs = (case cooldown of Some c \<Rightarrow> c | None \<Rightarrow> 60000)\<rparr>"

definition getState :: "int \<Rightarrow> string \<Rightarrow> breaker \<Rightarrow> breaker_state \<times> breaker" where
  "getState now backend b =
     (case map_get (states b) backend of
        None \<Rightarrow> (CLOSED, b)
      | Some entry \<Rightarrow>
          if state entry = OPEN \<and> now - openedAt entry > cooldownMs b
          then (HALF_OPEN, b\<lparr>states := map_set (states b) backend (entry\<lparr>state := HALF_OPEN\<rparr>)\<rparr>)
          else (state entry, b))"

definition isAvailable :: "int \<Rightarrow> string \<Rightarrow> breaker \<Rightarrow> bool \<times> breaker" where
  "isAvailable now backend b =
     (case getState now backend b of (s, b') \<Rightarrow> (s \<noteq> OPEN, b'))"

definition recordSuccess :: "string \<Rightarrow> breaker \<Rightarrow> breaker" where
  "recordSuccess backend b =
     b\<lparr>states := map_set (states b) backend \<lparr>state = CLOSED, failures = 0, openedAt = 0\<rparr>\<rparr>"

definition recordFailure :: "int \<Rightarrow> string \<Rightarrow> breaker \<Rightarrow> breaker" where
  "recordFailure now backend b =
     (let entry = (case map_get (states b) backend of
                     Some e \<Rightarrow> e | None \<Rightarrow> \<lparr>state = CLOSED, failures = 0, openedAt = 0\<rparr>);
          entry = entry\<lparr>failures := failures entry + 1\<rparr>;
          entry = (if failures entry \<ge> threshold b
                   then entry\<lparr>state := OPEN, openedAt := now\<rparr> else entry)
      in b\<lparr>states := map_set (states b) backend entry\<rparr>)"

text \<open>What a caller does to a breaker, with the clock at each call.\<close>

datatype call = Probe int | Success int | Failure int

fun call_time :: "call \<Rightarrow> int" where
  "call_time (Probe t) = t"
| "call_time (Success t) = t"
| "call_time (Failure t) = t"

fun do_call :: "string \<Rightarrow> call \<Rightarrow> breaker \<Rightarrow> breaker" where
  "do_call backend (Probe now) b = snd (isAvailable now backend b)"
| "do_call backend (Success now) b = recordSuccess backend b"
| "do_call backend (Failure now) b = recordFailure now backend b"

definition do_calls :: "(string \<times> call) list \<Rightarrow> breaker \<Rightarrow> breaker" where
  "do_calls = fold (\<lambda>(k, c). do_call k c)"


section \<open>Lemmas\<close>

text \<open>A rate-limit error is a transient one, whatever was thrown.\<close>

lemma rate_limit_imp_transient: "isRateLimitError e \<Longrightarrow> isTransientError e"
  by (simp add: isRateLimitError_def isTransientError_def split: if_splits) blast

text \<open>One backend's machine, and that the breaker is one such machine per backend.\<close>

fun entry_step :: "int \<Rightarrow> int \<Rightarrow> call \<Rightarrow> entry option \<Rightarrow> entry option" where
  "entry_step thr cd (Probe now) None = None"
| "entry_step thr cd (Probe now) (Some e) =
     Some (if state e = OPEN \<and> now - openedAt e > cd then e\<lparr>state := HALF_OPEN\<rparr> else e)"
| "entry_step thr cd (Success now) eo = Some \<lparr>state = CLOSED, failures = 0, openedAt = 0\<rparr>"
| "entry_step thr cd (Failure now) eo =
     (let e = (case eo of Some e \<Rightarrow> e | None \<Rightarrow> \<lparr>state = CLOSED, failures = 0, openedAt = 0\<rparr>)
      in Some (if failures e + 1 \<ge> thr
               then e\<lparr>failures := failures e + 1, state := OPEN, openedAt := now\<rparr>
               else e\<lparr>failures := failures e + 1\<rparr>))"

lemma do_call_settings [simp]:
  "threshold (do_call k c b) = threshold b" "cooldownMs (do_call k c b) = cooldownMs b"
  by (cases c; simp add: isAvailable_def getState_def recordSuccess_def recordFailure_def Let_def
      split: option.splits prod.splits)+

lemma do_call_here:
  "map_get (states (do_call k c b)) k
     = entry_step (threshold b) (cooldownMs b) c (map_get (states b) k)"
  by (cases c) (auto simp: isAvailable_def getState_def recordSuccess_def recordFailure_def
      Let_def split: option.splits)

lemma do_call_frame:
  "k \<noteq> k' \<Longrightarrow> map_get (states (do_call k c b)) k' = map_get (states b) k'"
  by (cases c) (auto simp: isAvailable_def getState_def recordSuccess_def recordFailure_def
      Let_def split: option.splits)

definition call_on :: "int \<Rightarrow> int \<Rightarrow> string \<Rightarrow> call \<Rightarrow> (string, entry) js_map \<Rightarrow> (string, entry) js_map" where
  "call_on thr cd k c m = states (do_call k c \<lparr>states = m, threshold = thr, cooldownMs = cd\<rparr>)"

interpretation backends: keyed_machine map_get "call_on thr cd" "\<lambda>_. entry_step thr cd" for thr cd :: int
  by unfold_locales (simp_all add: call_on_def do_call_here do_call_frame)

lemma states_do_calls:
  "states (do_calls evs b)
     = fold (\<lambda>(k, c). call_on (threshold b) (cooldownMs b) k c) evs (states b)"
  unfolding do_calls_def
proof (induction evs arbitrary: b)
  case Nil
  then show ?case by simp
next
  case (Cons kc evs)
  obtain k c where kc: "kc = (k, c)" by (cases kc)
  have "call_on (threshold b) (cooldownMs b) k c (states b) = states (do_call k c b)"
    by (cases b) (simp add: call_on_def)
  then show ?case
    using Cons.IH [of "do_call k c b"] by (simp add: kc)
qed

lemma do_calls_settings [simp]:
  "threshold (do_calls evs b) = threshold b" "cooldownMs (do_calls evs b) = cooldownMs b"
  unfolding do_calls_def by (induction evs arbitrary: b) auto

definition calls_of :: "string \<Rightarrow> (string \<times> call) list \<Rightarrow> call list" where
  "calls_of k evs = map snd (filter (\<lambda>(k', c). k' = k) evs)"

lemma entry_after_calls:
  "map_get (states (do_calls evs b)) k
     = fold (entry_step (threshold b) (cooldownMs b)) (calls_of k evs) (map_get (states b) k)"
  by (simp add: states_do_calls backends.run_project calls_of_def)

text \<open>
  The specification reads the history only: the times of the failures since the last
  success, newest first. A backend is out of service when there are \<open>threshold\<close> of them
  and the newest is at most \<open>cooldownMs\<close> old.
\<close>

fun remember :: "call \<Rightarrow> int list \<Rightarrow> int list" where
  "remember (Probe t) h = h"
| "remember (Success t) h = []"
| "remember (Failure t) h = t # h"

definition failure_times :: "call list \<Rightarrow> int list" where
  "failure_times cs = fold remember cs []"

definition out_of_service :: "int \<Rightarrow> int \<Rightarrow> int list \<Rightarrow> int \<Rightarrow> bool" where
  "out_of_service thr cd h now \<longleftrightarrow> h \<noteq> [] \<and> thr \<le> int (length h) \<and> now - hd h \<le> cd"

definition entry_inv :: "int \<Rightarrow> int \<Rightarrow> int \<Rightarrow> int list \<Rightarrow> entry option \<Rightarrow> bool" where
  "entry_inv thr cd t h eo = (case eo of
     None \<Rightarrow> h = []
   | Some e \<Rightarrow> failures e = int (length h) \<and>
       (if h \<noteq> [] \<and> thr \<le> int (length h)
        then state e = OPEN \<and> openedAt e = hd h \<or> state e = HALF_OPEN \<and> cd < t - hd h
        else state e = CLOSED))"

lemma entry_inv_step:
  assumes "entry_inv thr cd t h eo" and "t \<le> call_time c"
  shows "entry_inv thr cd (call_time c) (remember c h) (entry_step thr cd c eo)"
  using assms
  by (cases c; cases eo) (auto simp: entry_inv_def Let_def split: if_splits)

lemma entry_inv_run:
  assumes "entry_inv thr cd t h eo" and "sorted (t # map call_time cs)"
  shows "entry_inv thr cd (last (t # map call_time cs)) (fold remember cs h)
           (fold (entry_step thr cd) cs eo)"
  using assms
proof (induction cs arbitrary: t h eo)
  case Nil
  then show ?case by simp
next
  case (Cons c cs)
  from Cons.prems have "entry_inv thr cd (call_time c) (remember c h) (entry_step thr cd c eo)"
    by (intro entry_inv_step) auto
  with Cons.prems(2) show ?case
    using Cons.IH by (simp split: if_splits)
qed

lemma isAvailable_entry:
  "fst (isAvailable now k b) = (case map_get (states b) k of
     None \<Rightarrow> True | Some e \<Rightarrow> \<not> (state e = OPEN \<and> now - openedAt e \<le> cooldownMs b))"
  by (auto simp: isAvailable_def getState_def split: option.splits)

lemma entry_inv_available:
  assumes "entry_inv thr cd t h eo" and "t \<le> now"
  shows "(case eo of None \<Rightarrow> True | Some e \<Rightarrow> \<not> (state e = OPEN \<and> now - openedAt e \<le> cd))
           = (\<not> out_of_service thr cd h now)"
  using assms by (auto simp: entry_inv_def out_of_service_def split: option.splits if_splits)

section \<open>Properties\<close>

text \<open>C6. The breaker answers from the history alone: after any calls on any backends, with
  the clock not going back for the backend asked, a backend is unavailable exactly when its
  failures since the last success reach the threshold and the newest is no older than the
  cooldown. Calls on other backends never change the answer.\<close>

theorem breaker_availability:
  assumes "sorted (map call_time (calls_of k evs) @ [now])"
  shows "fst (isAvailable now k (do_calls evs (new_breaker thr cd)))
    = (\<not> out_of_service (threshold (new_breaker thr cd)) (cooldownMs (new_breaker thr cd))
           (failure_times (calls_of k evs)) now)"
proof -
  let ?b = "new_breaker thr cd"
  let ?cs = "calls_of k evs"
  let ?T = "threshold ?b" and ?C = "cooldownMs ?b"
  let ?t = "hd (map call_time ?cs @ [now])"
  have start: "entry_inv ?T ?C ?t [] (map_get (states ?b) k)"
    by (simp add: entry_inv_def new_breaker_def)
  have ord: "sorted (?t # map call_time ?cs)" and le: "last (?t # map call_time ?cs) \<le> now"
    using sorted_from_hd [OF assms] last_from_hd [OF assms] by simp_all
  have "entry_inv ?T ?C (last (?t # map call_time ?cs)) (failure_times ?cs)
          (map_get (states (do_calls evs ?b)) k)"
    unfolding entry_after_calls failure_times_def by (rule entry_inv_run [OF start ord])
  then show ?thesis
    using entry_inv_available [OF _ le] by (simp add: isAvailable_entry)
qed

theorem breaker_availability_witness:
  "sorted (map call_time (calls_of ''pi'' [(''pi'', Failure 10), (''x'', Success 5), (''pi'', Failure 20)]) @ [79])
   \<and> \<not> fst (isAvailable 79 ''pi'' (do_calls [(''pi'', Failure 10), (''x'', Success 5), (''pi'', Failure 20)]
              (new_breaker (Some 2) None)))"
proof -
  have h: "sorted (map call_time (calls_of ''pi'' [(''pi'', Failure 10), (''x'', Success 5), (''pi'', Failure 20)]) @ [79])"
    by (simp add: calls_of_def)
  show ?thesis
    using h breaker_availability [OF h, of "Some 2" None]
    by (simp add: out_of_service_def new_breaker_def failure_times_def calls_of_def)
qed

text \<open>Every error the code takes for a rate limit it also takes for a transient failure,
  so the fallback that retries transient errors engages on every rate limit; and a status
  of 401 or 403 is an authentication error whatever the message says.\<close>

theorem error_classes:
  shows "(isRateLimitError e \<longrightarrow> isTransientError e)
    \<and> (error_status e \<in> {Some (NumCode 401), Some (NumCode 403)} \<longrightarrow> isAuthError e)
    \<and> (error_status e = Some (NumCode n) \<and> 500 \<le> n \<and> n < 600 \<longrightarrow> isTransientError e)"
proof -
  have "is_5xx (error_status e)" "e \<noteq> Falsy" if "error_status e = Some (NumCode n) \<and> 500 \<le> n \<and> n < 600"
    using that by auto
  then have 5: "isTransientError e" if "error_status e = Some (NumCode n) \<and> 500 \<le> n \<and> n < 600"
    using that by (simp add: isTransientError_def)
  have "e \<noteq> Falsy" if "error_status e \<in> {Some (NumCode 401), Some (NumCode 403)}"
    using that by auto
  then have "isAuthError e" if "error_status e \<in> {Some (NumCode 401), Some (NumCode 403)}"
    using that by (simp add: isAuthError_def)
  with 5 show ?thesis by (blast intro: rate_limit_imp_transient)
qed

theorem error_classes_witness:
  "isRateLimitError (ThrownError ''FreeUsageLimitError'' [] None None)
   \<and> isTransientError (ThrownError ''FreeUsageLimitError'' [] None None)"
proof -
  have r: "isRateLimitError (ThrownError ''FreeUsageLimitError'' [] None None)"
    using quota_name_matches by (simp add: isRateLimitError_def)
  show ?thesis using r error_classes [of "ThrownError ''FreeUsageLimitError'' [] None None" 0] by blast
qed

end
