(* ===== verification/Workspace_Lease.thy ===== *)
theory Workspace_Lease imports Prelude begin

text \<open>
  \<open>src/activation/workspace-lease.ts\<close>: the writer lease of a workspace. A lease is one
  file, named by a digest of the worktree path; its contents never decide who holds the
  workspace, a probe of the holder's process does.

  What the code takes from the host is a parameter: \<open>realpath\<close> (\<^term>\<open>None\<close> when it
  throws), the hexadecimal SHA-256 digest, this process's id, and the probe. The store maps
  the path of a lease file to its contents: \<open>Record\<close> for a document with a numeric
  \<open>holder.pid\<close> (everything \<open>acquire\<close> and \<open>rewrite\<close> write), \<open>Garbage\<close> for any other.
  Paths are joined with one \<open>/\<close>.
\<close>

section \<open>Data\<close>

record workspace_identity =
  repositoryRoot :: string
  gitCommonDir :: "string option"
  worktreePath :: string
  branch :: "string option"

record holder_process =
  pid :: int
  startTicks :: int

record workspace_lease =
  lease_key :: string
  lease_worktree :: string
  activationId :: string
  attemptId :: string
  specialist :: "string option"
  holder :: holder_process
  acquiredAtMs :: int

datatype lease_state = Free | Held | Uncertain

datatype uncertain_reason =
    Holder_process_gone
  | Holder_start_mismatch
  | Liveness_unverifiable
  | Unreadable_record

record lease_status =
  lstate :: lease_state
  lease :: "workspace_lease option"
  uncertainReason :: "uncertain_reason option"

record probe =
  canVerify :: bool
  ticksOf :: "int \<Rightarrow> int option"

record host =
  realpath :: "string \<Rightarrow> string option"
  sha256_hex :: "string \<Rightarrow> string"
  self_pid :: int

datatype lease_file = Garbage | Record workspace_lease

type_synonym lease_store = "string \<Rightarrow> lease_file option"

record rejection =
  rej_reason :: string
  rej_activationId :: string
  rej_specialist :: "string option"
  rej_workspace :: string
  rej_holder :: string
  rej_note :: "string option"

datatype lease_error = DispatchRejected rejection | NoStartTime

fun reason_text :: "uncertain_reason \<Rightarrow> string" where
  "reason_text Holder_process_gone = ''holder_process_gone''"
| "reason_text Holder_start_mismatch = ''holder_start_mismatch''"
| "reason_text Liveness_unverifiable = ''liveness_unverifiable''"
| "reason_text Unreadable_record = ''unreadable_record''"

section \<open>Where a lease lives\<close>

definition selfHolder :: "host \<Rightarrow> probe \<Rightarrow> lease_error + holder_process" where
  "selfHolder h p = (case ticksOf p (self_pid h) of
     None \<Rightarrow> Inl NoStartTime
   | Some t \<Rightarrow> Inr \<lparr>pid = self_pid h, startTicks = t\<rparr>)"

definition workspaceKey :: "host \<Rightarrow> workspace_identity \<Rightarrow> string" where
  "workspaceKey h w =
     (let resolved = (case realpath h (worktreePath w) of
                        Some r \<Rightarrow> r | None \<Rightarrow> worktreePath w)
      in take 16 (sha256_hex h resolved))"

definition leaseDir :: "workspace_identity \<Rightarrow> string" where
  "leaseDir w =
     (case gitCommonDir w of Some d \<Rightarrow> d | None \<Rightarrow> repositoryRoot w) @ ''/.specialists/leases''"

definition leasePath :: "host \<Rightarrow> workspace_identity \<Rightarrow> string" where
  "leasePath h w = leaseDir w @ ''/'' @ workspaceKey h w @ ''.json''"

section \<open>Inspection\<close>

definition inspect_file :: "probe \<Rightarrow> lease_file option \<Rightarrow> lease_status" where
  "inspect_file p f =
     (case f of
        None \<Rightarrow> \<lparr>lstate = Free, lease = None, uncertainReason = None\<rparr>
      | Some Garbage \<Rightarrow> \<lparr>lstate = Uncertain, lease = None, uncertainReason = Some Unreadable_record\<rparr>
      | Some (Record l) \<Rightarrow>
          if \<not> canVerify p
          then \<lparr>lstate = Uncertain, lease = Some l, uncertainReason = Some Liveness_unverifiable\<rparr>
          else (case ticksOf p (pid (holder l)) of
                  None \<Rightarrow> \<lparr>lstate = Uncertain, lease = Some l, uncertainReason = Some Holder_process_gone\<rparr>
                | Some actual \<Rightarrow>
                    if actual \<noteq> startTicks (holder l)
                    then \<lparr>lstate = Uncertain, lease = Some l, uncertainReason = Some Holder_start_mismatch\<rparr>
                    else \<lparr>lstate = Held, lease = Some l, uncertainReason = None\<rparr>))"

definition inspect :: "host \<Rightarrow> probe \<Rightarrow> lease_store \<Rightarrow> workspace_identity \<Rightarrow> lease_status" where
  "inspect h p s w = inspect_file p (s (leasePath h w))"

section \<open>Acquisition\<close>

record acquire_request =
  req_workspace :: workspace_identity
  req_activation :: string
  req_attempt :: string
  req_specialist :: "string option"

definition describeHolder :: "lease_status \<Rightarrow> string" where
  "describeHolder st =
     (case lease st of
        None \<Rightarrow> (case uncertainReason st of Some r \<Rightarrow> reason_text r | None \<Rightarrow> ''unknown'')
      | Some l \<Rightarrow>
          (case specialist l of Some sp \<Rightarrow> if sp = [] then [] else sp @ '' '' | None \<Rightarrow> [])
          @ activationId l @ '' pid '' @ show_int (pid (holder l))
          @ (case uncertainReason st of Some r \<Rightarrow> '' ('' @ reason_text r @ '')'' | None \<Rightarrow> []))"

definition refusal :: "string \<Rightarrow> acquire_request \<Rightarrow> lease_status \<Rightarrow> lease_error" where
  "refusal why r st = DispatchRejected
     \<lparr>rej_reason = why,
      rej_activationId = req_activation r,
      rej_specialist = req_specialist r,
      rej_workspace = worktreePath (req_workspace r),
      rej_holder = describeHolder st,
      rej_note = Some (if lstate st = Uncertain
        then ''the previous holder's liveness could not be established; the lease is uncertain, not free''
        else ''exactly one writer holds a mutable workspace at a time'')\<rparr>"

text \<open>
  Acquisition is two steps for the file system. \<open>acquire_check\<close> inspects and decides;
  \<open>acquire_commit\<close> performs the one atomic call that publishes: \<open>link\<close>, which fails when
  the path exists, or \<open>rename\<close>, which replaces.
\<close>

datatype acquire_plan = Publish workspace_lease | Rewrite workspace_lease

definition acquire_check ::
  "host \<Rightarrow> probe \<Rightarrow> int \<Rightarrow> lease_store \<Rightarrow> acquire_request \<Rightarrow> lease_error + acquire_plan" where
  "acquire_check h p now s r =
     (let st = inspect h p s (req_workspace r) in
      case (lstate st, lease st) of
        (Held, Some l) \<Rightarrow>
          if activationId l = req_activation r
          then Inr (Rewrite (l\<lparr>attemptId := req_attempt r\<rparr>))
          else Inl (refusal ''workspace_held_by_another_writer'' r st)
      | (Uncertain, _) \<Rightarrow> Inl (refusal ''workspace_lease_uncertain'' r st)
      | _ \<Rightarrow>
          (case selfHolder h p of
             Inl e \<Rightarrow> Inl e
           | Inr me \<Rightarrow> Inr (Publish
               \<lparr>lease_key = workspaceKey h (req_workspace r),
                lease_worktree = worktreePath (req_workspace r),
                activationId = req_activation r,
                attemptId = req_attempt r,
                specialist = req_specialist r,
                holder = me,
                acquiredAtMs = now\<rparr>)))"

definition acquire_commit ::
  "host \<Rightarrow> probe \<Rightarrow> acquire_request \<Rightarrow> acquire_plan \<Rightarrow> lease_store
   \<Rightarrow> (lease_error + workspace_lease) \<times> lease_store" where
  "acquire_commit h p r plan s =
     (let path = leasePath h (req_workspace r) in
      case plan of
        Rewrite l \<Rightarrow> (Inr l, s(path \<mapsto> Record l))
      | Publish l \<Rightarrow>
          (case s path of
             None \<Rightarrow> (Inr l, s(path \<mapsto> Record l))
           | Some _ \<Rightarrow>
               (Inl (refusal ''workspace_held_by_another_writer'' r (inspect h p s (req_workspace r))), s)))"

definition acquire ::
  "host \<Rightarrow> probe \<Rightarrow> int \<Rightarrow> acquire_request \<Rightarrow> lease_store
   \<Rightarrow> (lease_error + workspace_lease) \<times> lease_store" where
  "acquire h p now r s =
     (case acquire_check h p now s r of
        Inl e \<Rightarrow> (Inl e, s)
      | Inr plan \<Rightarrow> acquire_commit h p r plan s)"

section \<open>Release\<close>

text \<open>\<open>Inr False\<close>: nothing to remove; \<open>Inr True\<close>: remove the file.\<close>

definition release_check ::
  "host \<Rightarrow> probe \<Rightarrow> lease_store \<Rightarrow> workspace_identity \<Rightarrow> string \<Rightarrow> lease_error + bool" where
  "release_check h p s w act =
     (let st = inspect h p s w in
      if lstate st = Free then Inr False
      else if lstate st = Uncertain
      then Inl (DispatchRejected
        \<lparr>rej_reason = ''workspace_lease_uncertain'', rej_activationId = act, rej_specialist = None,
         rej_workspace = worktreePath w, rej_holder = describeHolder st,
         rej_note = Some ''refusing to release a lease whose holder liveness is unknown; recovery is PRD Phase 9''\<rparr>)
      else if (case lease st of Some l \<Rightarrow> activationId l \<noteq> act | None \<Rightarrow> False)
      then Inl (DispatchRejected
        \<lparr>rej_reason = ''workspace_lease_not_held_by_caller'', rej_activationId = act, rej_specialist = None,
         rej_workspace = worktreePath w, rej_holder = describeHolder st, rej_note = None\<rparr>)
      else Inr True)"

definition release ::
  "host \<Rightarrow> probe \<Rightarrow> workspace_identity \<Rightarrow> string \<Rightarrow> lease_store \<Rightarrow> (lease_error + unit) \<times> lease_store" where
  "release h p w act s =
     (case release_check h p s w act of
        Inl e \<Rightarrow> (Inl e, s)
      | Inr remove \<Rightarrow> (Inr (), if remove then s(leasePath h w := None) else s))"

section \<open>Admission of tool calls\<close>

definition NON_MUTATING_TOOLS :: "string list" where
  "NON_MUTATING_TOOLS =
     [''read'', ''grep'', ''glob'', ''ls'', ''list'', ''search'', ''view'', ''todowrite'', ''websearch'', ''webfetch'']"

definition isMutatingTool :: "string \<Rightarrow> bool" where
  "isMutatingTool toolName \<longleftrightarrow> to_lower (trim toolName) \<notin> set NON_MUTATING_TOOLS"

record admission_verdict =
  allow :: bool
  reason :: "string option"

definition reason_or_undefined :: "lease_status \<Rightarrow> string" where
  "reason_or_undefined st =
     (case uncertainReason st of Some r \<Rightarrow> reason_text r | None \<Rightarrow> ''undefined'')"

definition admitCoordinatorToolCall ::
  "host \<Rightarrow> probe \<Rightarrow> lease_store \<Rightarrow> string \<Rightarrow> workspace_identity \<Rightarrow> admission_verdict" where
  "admitCoordinatorToolCall h p s toolName w =
     (if \<not> isMutatingTool toolName then \<lparr>allow = True, reason = None\<rparr>
      else let st = inspect h p s w in
        if lstate st = Held
        then \<lparr>allow = False, reason = Some (''workspace '' @ worktreePath w @ '' is held by '' @ describeHolder st
               @ ''; '' @ toolName @ '' would mutate a workspace a Specialist is currently writing'')\<rparr>
        else if lstate st = Uncertain
        then \<lparr>allow = False, reason = Some (''workspace '' @ worktreePath w @ '' lease is uncertain ('' @ reason_or_undefined st
               @ ''); mutation is refused until recovery resolves the previous holder'')\<rparr>
        else \<lparr>allow = True, reason = None\<rparr>)"

definition admitToolCall ::
  "host \<Rightarrow> probe \<Rightarrow> lease_store \<Rightarrow> string \<Rightarrow> workspace_identity \<Rightarrow> string \<Rightarrow> admission_verdict" where
  "admitToolCall h p s toolName w act =
     (if \<not> isMutatingTool toolName then \<lparr>allow = True, reason = None\<rparr>
      else let st = inspect h p s w in
        if lstate st = Held \<and> (case lease st of Some l \<Rightarrow> activationId l = act | None \<Rightarrow> False)
        then \<lparr>allow = True, reason = None\<rparr>
        else if lstate st = Held
        then \<lparr>allow = False, reason = Some (''workspace '' @ worktreePath w @ '' is held by '' @ describeHolder st
               @ ''; '' @ toolName @ '' would mutate a workspace this activation does not hold'')\<rparr>
        else if lstate st = Uncertain
        then \<lparr>allow = False, reason = Some (''workspace '' @ worktreePath w @ '' lease is uncertain ('' @ reason_or_undefined st
               @ ''); mutation is refused until recovery resolves the previous holder'')\<rparr>
        else \<lparr>allow = False, reason = Some (''workspace '' @ worktreePath w @ '' is not leased by this activation; ''
               @ toolName @ '' may not mutate it'')\<rparr>)"

section \<open>Lemmas\<close>

lemmas lease_defs = inspect_def inspect_file_def acquire_def acquire_check_def acquire_commit_def
  release_def release_check_def

lemma inspect_Held_iff:
  "lstate (inspect h p s w) = Held \<longleftrightarrow>
     (\<exists>l. s (leasePath h w) = Some (Record l) \<and> canVerify p
        \<and> ticksOf p (pid (holder l)) = Some (startTicks (holder l)))"
  by (auto simp: inspect_def inspect_file_def split: option.splits lease_file.splits)

lemma inspect_Free_iff: "lstate (inspect h p s w) = Free \<longleftrightarrow> s (leasePath h w) = None"
  by (auto simp: inspect_def inspect_file_def split: option.splits lease_file.splits)

lemma inspect_Uncertain_iff:
  "lstate (inspect h p s w) = Uncertain \<longleftrightarrow> uncertainReason (inspect h p s w) \<noteq> None"
  by (auto simp: inspect_def inspect_file_def split: option.splits lease_file.splits)

lemma inspect_lease:
  "s (leasePath h w) = Some (Record l) \<Longrightarrow> lease (inspect h p s w) = Some l"
  by (auto simp: inspect_def inspect_file_def split: option.splits)

lemma inspect_Held_lease:
  "lstate (inspect h p s w) = Held \<Longrightarrow> lease (inspect h p s w) = Some l \<Longrightarrow>
     s (leasePath h w) = Some (Record l) \<and> ticksOf p (pid (holder l)) = Some (startTicks (holder l))"
  by (auto simp: inspect_def inspect_file_def split: option.splits lease_file.splits if_splits)

definition held_by :: "host \<Rightarrow> probe \<Rightarrow> lease_store \<Rightarrow> workspace_identity \<Rightarrow> string \<Rightarrow> bool" where
  "held_by h p s w act \<longleftrightarrow>
     lstate (inspect h p s w) = Held \<and> (\<exists>l. lease (inspect h p s w) = Some l \<and> activationId l = act)"

lemma held_by_unique: "held_by h p s w a \<Longrightarrow> held_by h p s w b \<Longrightarrow> a = b"
  by (auto simp: held_by_def)

lemma admit_iff:
  "allow (admitToolCall h p s t w act) \<longleftrightarrow> \<not> isMutatingTool t \<or> held_by h p s w act"
  by (auto simp: admitToolCall_def held_by_def Let_def split: option.splits)

lemma admit_coordinator_iff:
  "allow (admitCoordinatorToolCall h p s t w) \<longleftrightarrow>
     \<not> isMutatingTool t \<or> lstate (inspect h p s w) = Free"
  by (cases "lstate (inspect h p s w)") (auto simp: admitCoordinatorToolCall_def Let_def)

lemma Held_has_lease: "lstate (inspect h p s w) = Held \<Longrightarrow> \<exists>l. lease (inspect h p s w) = Some l"
  by (auto simp: inspect_Held_iff dest: inspect_lease)

text \<open>What the check decides, one equation for each state of the lease.\<close>

lemma acquire_check_free:
  assumes "lstate (inspect h p s (req_workspace r)) = Free"
  shows "acquire_check h p now s r =
    (case ticksOf p (self_pid h) of
       None \<Rightarrow> Inl NoStartTime
     | Some t \<Rightarrow> Inr (Publish
         \<lparr>lease_key = workspaceKey h (req_workspace r),
          lease_worktree = worktreePath (req_workspace r),
          activationId = req_activation r, attemptId = req_attempt r, specialist = req_specialist r,
          holder = \<lparr>pid = self_pid h, startTicks = t\<rparr>, acquiredAtMs = now\<rparr>))"
  using assms by (simp add: acquire_check_def selfHolder_def split: option.splits)

lemma acquire_check_uncertain:
  assumes "lstate (inspect h p s (req_workspace r)) = Uncertain"
  shows "acquire_check h p now s r
    = Inl (refusal ''workspace_lease_uncertain'' r (inspect h p s (req_workspace r)))"
  using assms by (simp add: acquire_check_def)

lemma acquire_check_held:
  assumes "lstate (inspect h p s (req_workspace r)) = Held"
    and "lease (inspect h p s (req_workspace r)) = Some l"
  shows "acquire_check h p now s r =
    (if activationId l = req_activation r then Inr (Rewrite (l\<lparr>attemptId := req_attempt r\<rparr>))
     else Inl (refusal ''workspace_held_by_another_writer'' r (inspect h p s (req_workspace r))))"
  using assms by (simp add: acquire_check_def)

lemma acquire_free:
  assumes "lstate (inspect h p s (req_workspace r)) = Free"
  shows "acquire h p now r s =
    (case acquire_check h p now s r of
       Inr (Publish l) \<Rightarrow> (Inr l, s(leasePath h (req_workspace r) \<mapsto> Record l))
     | _ \<Rightarrow> (Inl NoStartTime, s))"
  using assms
  by (auto simp: acquire_def acquire_check_free acquire_commit_def inspect_Free_iff split: option.splits)

lemma acquire_held:
  assumes "lstate (inspect h p s (req_workspace r)) = Held"
    and "lease (inspect h p s (req_workspace r)) = Some l"
  shows "acquire h p now r s =
    (if activationId l = req_activation r
     then (Inr (l\<lparr>attemptId := req_attempt r\<rparr>),
           s(leasePath h (req_workspace r) \<mapsto> Record (l\<lparr>attemptId := req_attempt r\<rparr>)))
     else (Inl (refusal ''workspace_held_by_another_writer'' r (inspect h p s (req_workspace r))), s))"
  using assms by (simp add: acquire_def acquire_check_held acquire_commit_def Let_def)

lemma acquire_uncertain:
  assumes "lstate (inspect h p s (req_workspace r)) = Uncertain"
  shows "acquire h p now r s
    = (Inl (refusal ''workspace_lease_uncertain'' r (inspect h p s (req_workspace r))), s)"
  using assms by (simp add: acquire_def acquire_check_uncertain)

lemma acquire_Inr_post:
  assumes "acquire h p now r s = (Inr l, s')"
  shows "s' = s(leasePath h (req_workspace r) \<mapsto> Record l) \<and> activationId l = req_activation r
    \<and> attemptId l = req_attempt r \<and> ticksOf p (pid (holder l)) = Some (startTicks (holder l))"
proof (cases "lstate (inspect h p s (req_workspace r))")
  case Free
  then show ?thesis
    using assms by (auto simp: acquire_free acquire_check_free split: option.splits)
next
  case Held
  then obtain l0 where l0: "lease (inspect h p s (req_workspace r)) = Some l0"
    using Held_has_lease by blast
  show ?thesis
    using assms inspect_Held_lease [OF Held l0]
    by (auto simp: acquire_held [OF Held l0] split: if_splits)
next
  case Uncertain
  then show ?thesis using assms by (simp add: acquire_uncertain)
qed

lemma acquire_granted:
  "(\<exists>l s'. acquire h p now r s = (Inr l, s')) =
     (lstate (inspect h p s (req_workspace r)) = Free \<and> ticksOf p (self_pid h) \<noteq> None
      \<or> held_by h p s (req_workspace r) (req_activation r))"
proof (cases "lstate (inspect h p s (req_workspace r))")
  case Free
  then show ?thesis
    by (auto simp: acquire_free acquire_check_free held_by_def split: option.splits)
next
  case Held
  then obtain l where l: "lease (inspect h p s (req_workspace r)) = Some l"
    using Held_has_lease by blast
  show ?thesis by (simp add: acquire_held [OF Held l] held_by_def Held l)
next
  case Uncertain
  then show ?thesis by (simp add: acquire_uncertain held_by_def)
qed

lemma acquire_Inl_store: "acquire h p now r s = (Inl e, s') \<Longrightarrow> s' = s"
proof (cases "lstate (inspect h p s (req_workspace r))")
  case Held
  then obtain l0 where "lease (inspect h p s (req_workspace r)) = Some l0"
    using Held_has_lease by blast
  with Held show "acquire h p now r s = (Inl e, s') \<Longrightarrow> s' = s"
    by (auto simp: acquire_held split: if_splits)
qed (auto simp: acquire_free acquire_check_free acquire_uncertain split: option.splits)

lemma release_held_by: "held_by h p s w act \<Longrightarrow>
    release h p w act s = (Inr (), s(leasePath h w := None))"
  by (auto simp: release_def release_check_def held_by_def)

section \<open>Properties\<close>

text \<open>Inspection trusts the probe and nothing else: a workspace is held exactly when its
  record names a process the probe sees running with the recorded start time, it is free
  exactly when there is no lease file, and every other case (no liveness evidence, process
  gone, pid reused, unreadable file) is uncertain with its reason: a crashed holder never
  makes a workspace free.\<close>

theorem inspect_verdict:
  shows "(lstate (inspect h p s w) = Held) =
      (\<exists>l. s (leasePath h w) = Some (Record l) \<and> canVerify p
         \<and> ticksOf p (pid (holder l)) = Some (startTicks (holder l)))
    \<and> (lstate (inspect h p s w) = Free) = (s (leasePath h w) = None)
    \<and> (lstate (inspect h p s w) = Uncertain) = (uncertainReason (inspect h p s w) \<noteq> None)"
  by (simp only: inspect_Held_iff inspect_Free_iff inspect_Uncertain_iff simp_thms)

text \<open>C2. Acquisition succeeds exactly when the workspace is free and this process can read
  its own start time, or the same activation already holds it; it never steals an uncertain
  lease.\<close>

theorem acquire_succeeds_iff:
  "(\<exists>l s'. acquire h p now r s = (Inr l, s')) =
     (lstate (inspect h p s (req_workspace r)) = Free \<and> ticksOf p (self_pid h) \<noteq> None
      \<or> held_by h p s (req_workspace r) (req_activation r))"
  by (rule acquire_granted)

text \<open>After a successful acquisition the requester holds the workspace under the new
  attempt, every other activation and the coordinator are refused mutating tools there, and
  no other lease file changed; a refused acquisition changes nothing.\<close>

theorem acquire_excludes:
  assumes "acquire h p now r s = (res, s')" and "canVerify p"
  shows "(\<forall>l. res = Inr l \<longrightarrow>
        attemptId l = req_attempt r
      \<and> held_by h p s' (req_workspace r) (req_activation r)
      \<and> (\<forall>t act. isMutatingTool t \<longrightarrow>
           allow (admitToolCall h p s' t (req_workspace r) act) = (act = req_activation r)
         \<and> \<not> allow (admitCoordinatorToolCall h p s' t (req_workspace r)))
      \<and> (\<forall>path. path \<noteq> leasePath h (req_workspace r) \<longrightarrow> s' path = s path))
    \<and> (\<forall>e. res = Inl e \<longrightarrow> s' = s)"
proof (cases res)
  case (Inl e)
  with assms show ?thesis by (auto dest: acquire_Inl_store)
next
  case (Inr l)
  let ?w = "req_workspace r"
  from acquire_Inr_post [of h p now r s l s'] assms(1) Inr
  have post: "s' = s(leasePath h ?w \<mapsto> Record l)" "activationId l = req_activation r"
    "attemptId l = req_attempt r" "ticksOf p (pid (holder l)) = Some (startTicks (holder l))"
    by auto
  then have on_disk: "s' (leasePath h ?w) = Some (Record l)" by simp
  then have st: "lstate (inspect h p s' ?w) = Held" "lease (inspect h p s' ?w) = Some l"
    using assms(2) post(4) by (auto simp: inspect_Held_iff inspect_lease)
  then have held: "held_by h p s' ?w (req_activation r)"
    using post(2) by (simp add: held_by_def)
  have only: "held_by h p s' ?w act = (act = req_activation r)" for act
    using held held_by_unique by blast
  have others: "s' path = s path" if "path \<noteq> leasePath h ?w" for path
    using that post(1) by simp
  show ?thesis
    by (simp add: Inr admit_iff admit_coordinator_iff only st others post(3))
qed

definition demo_host :: host where
  "demo_host = \<lparr>realpath = (\<lambda>_. None), sha256_hex = (\<lambda>s. s), self_pid = 7\<rparr>"

definition demo_probe :: probe where
  "demo_probe = \<lparr>canVerify = True, ticksOf = (\<lambda>q. if q = 7 then Some 100 else None)\<rparr>"

definition demo_ws :: workspace_identity where
  "demo_ws = \<lparr>repositoryRoot = ''/r'', gitCommonDir = None, worktreePath = ''/r/w'', branch = None\<rparr>"

definition demo_req :: "string \<Rightarrow> acquire_request" where
  "demo_req act = \<lparr>req_workspace = demo_ws, req_activation = act, req_attempt = ''att:1'', req_specialist = None\<rparr>"

lemma demo_acquire:
  "acquire demo_host demo_probe 5 (demo_req ''a'') Map.empty
    = (Inr \<lparr>lease_key = ''/r/w'', lease_worktree = ''/r/w'', activationId = ''a'', attemptId = ''att:1'',
            specialist = None, holder = \<lparr>pid = 7, startTicks = 100\<rparr>, acquiredAtMs = 5\<rparr>,
       Map.empty(leasePath demo_host demo_ws \<mapsto>
         Record \<lparr>lease_key = ''/r/w'', lease_worktree = ''/r/w'', activationId = ''a'', attemptId = ''att:1'',
            specialist = None, holder = \<lparr>pid = 7, startTicks = 100\<rparr>, acquiredAtMs = 5\<rparr>))"
  by (simp add: acquire_def acquire_check_def acquire_commit_def inspect_def inspect_file_def
      selfHolder_def workspaceKey_def demo_host_def demo_probe_def demo_ws_def demo_req_def)

theorem acquire_excludes_witness:
  "\<exists>l s'. acquire demo_host demo_probe 5 (demo_req ''a'') Map.empty = (Inr l, s')
     \<and> held_by demo_host demo_probe s' demo_ws ''a''"
proof -
  have v: "canVerify demo_probe" by (simp add: demo_probe_def)
  have d: "req_workspace (demo_req ''a'') = demo_ws" "req_activation (demo_req ''a'') = ''a''"
    by (simp_all add: demo_req_def)
  show ?thesis
    using acquire_excludes [OF demo_acquire v] demo_acquire by (auto simp: d)
qed

text \<open>C3. At most one writer: whatever the store, two activations are never both admitted to
  mutate one workspace, and when the coordinator is admitted no activation is.\<close>

theorem one_writer:
  assumes "isMutatingTool t" and "isMutatingTool u"
  shows "(allow (admitToolCall h p s t w a) \<and> allow (admitToolCall h p s u w b) \<longrightarrow> a = b)
    \<and> (allow (admitCoordinatorToolCall h p s t w) \<longrightarrow> \<not> allow (admitToolCall h p s u w b))"
  using assms by (auto simp: admit_iff admit_coordinator_iff held_by_unique) (simp add: held_by_def)

theorem one_writer_witness:
  "let s = snd (acquire demo_host demo_probe 5 (demo_req ''a'') Map.empty) in
     allow (admitToolCall demo_host demo_probe s ''Edit'' demo_ws ''a'')
   \<and> \<not> allow (admitToolCall demo_host demo_probe s ''bash'' demo_ws ''b'')
   \<and> \<not> allow (admitCoordinatorToolCall demo_host demo_probe s ''bash'' demo_ws)"
proof -
  let ?s = "snd (acquire demo_host demo_probe 5 (demo_req ''a'') Map.empty)"
  have t: "isMutatingTool ''Edit''" "isMutatingTool ''bash''" by code_simp+
  have "held_by demo_host demo_probe ?s demo_ws ''a''"
    unfolding demo_acquire
    by (simp add: held_by_def inspect_def inspect_file_def demo_probe_def)
  then have a: "allow (admitToolCall demo_host demo_probe ?s ''Edit'' demo_ws ''a'')"
    by (simp add: admit_iff)
  have "\<not> allow (admitToolCall demo_host demo_probe ?s ''bash'' demo_ws ''b'')"
    using one_writer [OF t, of demo_host demo_probe ?s demo_ws "''a''" "''b''"] a by auto
  moreover have "\<not> allow (admitCoordinatorToolCall demo_host demo_probe ?s ''bash'' demo_ws)"
    using one_writer [OF t(2) t(1), of demo_host demo_probe ?s demo_ws _ "''a''"] a by auto
  ultimately show ?thesis using a by (simp add: Let_def)
qed

text \<open>Releasing is the holder's alone and is idempotent: the holder's release removes the
  lease it acquired (acquire then release restores the store), a second release does
  nothing, and an uncertain lease or another activation's is refused with the store as it
  was.\<close>

theorem release_correct:
  shows "(held_by h p s w act \<longrightarrow> release h p w act s = (Inr (), s(leasePath h w := None)))
    \<and> (lstate (inspect h p s w) = Free \<longrightarrow> release h p w act s = (Inr (), s))
    \<and> (lstate (inspect h p s w) = Uncertain \<or> lstate (inspect h p s w) = Held \<and> \<not> held_by h p s w act
        \<longrightarrow> (\<exists>e. release h p w act s = (Inl (DispatchRejected e), s)))
    \<and> (lstate (inspect h p s (req_workspace r)) = Free \<and> acquire h p now r s = (Inr l, s') \<and> canVerify p
        \<longrightarrow> release h p (req_workspace r) (req_activation r) s' = (Inr (), s))"
proof -
  have 1: "\<exists>e. release h p w act s = (Inl (DispatchRejected e), s)"
    if "lstate (inspect h p s w) = Uncertain \<or> lstate (inspect h p s w) = Held \<and> \<not> held_by h p s w act"
    using that Held_has_lease [of h p s w]
    by (auto simp: release_def release_check_def held_by_def Let_def)
  have 2: "release h p w act s = (Inr (), s)" if "lstate (inspect h p s w) = Free"
    using that by (simp add: release_def release_check_def)
  have 3: "release h p (req_workspace r) (req_activation r) s' = (Inr (), s)"
    if a: "lstate (inspect h p s (req_workspace r)) = Free" "acquire h p now r s = (Inr l, s')" "canVerify p"
  proof -
    note post = acquire_Inr_post [OF a(2)]
    have "held_by h p s' (req_workspace r) (req_activation r)"
      using post a(3) by (auto simp: held_by_def inspect_Held_iff inspect_lease)
    moreover have "s'(leasePath h (req_workspace r) := None) = s"
      using post a(1) by (auto simp: inspect_Free_iff)
    ultimately show ?thesis by (simp add: release_held_by)
  qed
  show ?thesis by (intro conjI impI) (auto intro: release_held_by 1 2 3)
qed

theorem release_correct_witness:
  "held_by demo_host demo_probe (snd (acquire demo_host demo_probe 5 (demo_req ''a'') Map.empty)) demo_ws ''a''
   \<and> release demo_host demo_probe demo_ws ''a'' (snd (acquire demo_host demo_probe 5 (demo_req ''a'') Map.empty))
     = (Inr (), Map.empty)"
proof -
  let ?s = "snd (acquire demo_host demo_probe 5 (demo_req ''a'') Map.empty)"
  have h: "held_by demo_host demo_probe ?s demo_ws ''a''"
    unfolding demo_acquire
    by (simp add: held_by_def inspect_def inspect_file_def demo_probe_def)
  have "release demo_host demo_probe demo_ws ''a'' ?s = (Inr (), ?s(leasePath demo_host demo_ws := None))"
    using release_correct [of demo_host demo_probe ?s demo_ws "''a''"] h by blast
  then show ?thesis using h by (auto simp: demo_acquire)
qed

end
