(* ===== verification/Workspace_Reconcile.thy ===== *)
theory Workspace_Reconcile imports Workspace_Lease begin

text \<open>
  \<open>src/activation/workspace-reconcile.ts\<close>: the recorded decision that resolves an uncertain
  workspace. The state is the lease files, the append-only logs beside them (a line that
  does not parse is \<open>Corrupt\<close>) and what was emitted to the forensic sink.
\<close>

section \<open>Data\<close>

datatype outcome = Safe_free | Recovered_holder | Superseded | Manual_attention_required

datatype proposed = P_safe_free | P_superseded | P_manual_attention_required

fun outcome_of :: "proposed \<Rightarrow> outcome" where
  "outcome_of P_safe_free = Safe_free"
| "outcome_of P_superseded = Superseded"
| "outcome_of P_manual_attention_required = Manual_attention_required"

datatype refusal_reason =
    Workspace_not_uncertain
  | Holder_is_live
  | Insufficient_evidence
  | Reason_forbids_outcome
  | Successor_not_named

record reconcile_request =
  rq_outcome :: proposed
  rq_decidedBy :: string
  rq_basis :: "string list"
  rq_supersededBy :: "string option"
  rq_note :: "string option"

record departed =
  dep_pid :: int
  dep_activationId :: string
  dep_specialist :: "string option"

record reconcile_record =
  rc_key :: string
  rc_worktree :: string
  applied :: bool
  rc_outcome :: outcome
  proposedOutcome :: "proposed option"
  refusalReason :: "refusal_reason option"
  observedState :: lease_state
  observedReason :: "uncertain_reason option"
  rc_holder :: "departed option"
  rc_decidedBy :: string
  rc_basis :: "string list"
  rc_supersededBy :: "string option"
  rc_note :: "string option"
  decidedAtMs :: int

datatype log_line = Line reconcile_record | Corrupt

datatype event_name = Lease_reconciled | Lease_uncertain

record forensic_event =
  ev_activationId :: string
  ev_attemptId :: string
  ev_participantId :: string
  ev_specialist :: string
  ev_name :: event_name
  ev_record :: reconcile_record
  ev_attributed_to_workspace :: bool

record reconcile_state =
  leases :: lease_store
  logs :: "string \<Rightarrow> log_line list option"
  events :: "forensic_event list"

definition PERMITTED :: "uncertain_reason \<Rightarrow> proposed list" where
  "PERMITTED r = (case r of
     Holder_process_gone \<Rightarrow> [P_safe_free, P_superseded, P_manual_attention_required]
   | Holder_start_mismatch \<Rightarrow> [P_safe_free, P_superseded, P_manual_attention_required]
   | Unreadable_record \<Rightarrow> [P_superseded, P_manual_attention_required]
   | Liveness_unverifiable \<Rightarrow> [P_manual_attention_required])"

section \<open>The decision\<close>

definition basenameKey :: "string \<Rightarrow> string" where
  "basenameKey path =
     (let file_name = rev (takeWhile (\<lambda>c. c \<noteq> CHR ''/'') (rev path))
      in if ends_with ''.json'' file_name then take (length file_name - 5) file_name else file_name)"

definition keyFor :: "host \<Rightarrow> workspace_identity \<Rightarrow> workspace_lease option \<Rightarrow> string" where
  "keyFor h w l = (case l of Some x \<Rightarrow> lease_key x | None \<Rightarrow> basenameKey (leasePath h w))"

definition base_record ::
  "host \<Rightarrow> workspace_identity \<Rightarrow> reconcile_request \<Rightarrow> lease_status \<Rightarrow> int \<Rightarrow> reconcile_record" where
  "base_record h w rq st now =
     \<lparr>rc_key = keyFor h w (lease st),
      rc_worktree = worktreePath w,
      applied = True,
      rc_outcome = outcome_of (rq_outcome rq),
      proposedOutcome = None,
      refusalReason = None,
      observedState = lstate st,
      observedReason = uncertainReason st,
      rc_holder = map_option (\<lambda>l. \<lparr>dep_pid = pid (holder l), dep_activationId = activationId l,
                                   dep_specialist = specialist l\<rparr>) (lease st),
      rc_decidedBy = rq_decidedBy rq,
      rc_basis = rq_basis rq,
      rc_supersededBy = rq_supersededBy rq,
      rc_note = rq_note rq,
      decidedAtMs = now\<rparr>"

definition refuse_record :: "reconcile_record \<Rightarrow> proposed \<Rightarrow> refusal_reason \<Rightarrow> outcome \<Rightarrow> reconcile_record" where
  "refuse_record base prop why out =
     base\<lparr>applied := False, rc_outcome := out, proposedOutcome := Some prop, refusalReason := Some why\<rparr>"

text \<open>The record, and whether the lease file is to be removed.\<close>

definition decide ::
  "host \<Rightarrow> workspace_identity \<Rightarrow> reconcile_request \<Rightarrow> lease_status \<Rightarrow> int \<Rightarrow> reconcile_record \<times> bool" where
  "decide h w rq st now =
     (let base = base_record h w rq st now;
          refuse = (\<lambda>why out. (refuse_record base (rq_outcome rq) why out, False)) in
      if lstate st = Held then refuse Holder_is_live Recovered_holder
      else if lstate st = Free then refuse Workspace_not_uncertain Manual_attention_required
      else if rq_basis rq = [] then refuse Insufficient_evidence Manual_attention_required
      else if (case uncertainReason st of None \<Rightarrow> True | Some r \<Rightarrow> rq_outcome rq \<notin> set (PERMITTED r))
      then refuse Reason_forbids_outcome Manual_attention_required
      else if rq_outcome rq = P_superseded \<and> \<not> truthy (rq_supersededBy rq)
      then refuse Successor_not_named Manual_attention_required
      else if rq_outcome rq = P_manual_attention_required
      then (base\<lparr>applied := True, rc_outcome := Manual_attention_required\<rparr>, False)
      else (base\<lparr>applied := True, rc_outcome := outcome_of (rq_outcome rq)\<rparr>, True))"

section \<open>The durable log and the event\<close>

definition reconciliationLogPath :: "host \<Rightarrow> workspace_identity \<Rightarrow> string" where
  "reconciliationLogPath h w =
     take (length (leasePath h w) - 5) (leasePath h w) @ ''.reconcile.jsonl''"

definition append_line :: "(string \<Rightarrow> log_line list option) \<Rightarrow> string \<Rightarrow> log_line \<Rightarrow> (string \<Rightarrow> log_line list option)" where
  "append_line lg path ln = lg(path \<mapsto> (case lg path of Some ls \<Rightarrow> ls | None \<Rightarrow> []) @ [ln])"

fun parsed_lines :: "log_line list \<Rightarrow> reconcile_record list" where
  "parsed_lines [] = []"
| "parsed_lines (Line r # ls) = r # parsed_lines ls"
| "parsed_lines (Corrupt # ls) = parsed_lines ls"

definition readLogAt :: "(string \<Rightarrow> log_line list option) \<Rightarrow> string \<Rightarrow> reconcile_record list" where
  "readLogAt lg path = (case lg path of None \<Rightarrow> [] | Some ls \<Rightarrow> parsed_lines ls)"

definition readReconciliationLog :: "host \<Rightarrow> reconcile_state \<Rightarrow> workspace_identity \<Rightarrow> reconcile_record list" where
  "readReconciliationLog h s w = readLogAt (logs s) (reconciliationLogPath h w)"

definition emit_event :: "reconcile_record \<Rightarrow> workspace_lease option \<Rightarrow> forensic_event" where
  "emit_event r l =
     \<lparr>ev_activationId = (case l of Some x \<Rightarrow> activationId x | None \<Rightarrow> ''workspace:'' @ rc_key r),
      ev_attemptId = (case l of Some x \<Rightarrow> attemptId x | None \<Rightarrow> ''reconciliation''),
      ev_participantId = (case Option.bind l specialist of
          Some sp \<Rightarrow> if sp \<noteq> [] then ''specialist::'' @ sp else ''specialist::unknown''
        | None \<Rightarrow> ''specialist::unknown''),
      ev_specialist = (case Option.bind l specialist of Some sp \<Rightarrow> sp | None \<Rightarrow> ''unknown''),
      ev_name = (if applied r then Lease_reconciled else Lease_uncertain),
      ev_record = r,
      ev_attributed_to_workspace = (l = None)\<rparr>"

definition reconcile ::
  "host \<Rightarrow> probe \<Rightarrow> bool \<Rightarrow> int \<Rightarrow> workspace_identity \<Rightarrow> reconcile_request \<Rightarrow> reconcile_state
   \<Rightarrow> reconcile_record \<times> reconcile_state" where
  "reconcile h p sink now w rq s =
     (let st = inspect h p (leases s) w;
          d = decide h w rq st now;
          s1 = (if snd d then s\<lparr>leases := (leases s)(leasePath h w := None)\<rparr> else s);
          s2 = s1\<lparr>logs := append_line (logs s1) (reconciliationLogPath h w) (Line (fst d))\<rparr>;
          s3 = (if sink then s2\<lparr>events := events s2 @ [emit_event (fst d) (lease st)]\<rparr> else s2)
      in (fst d, s3))"

section \<open>The status surface\<close>

record last_reconciliation =
  last_outcome :: outcome
  last_applied :: bool
  last_refusal :: "refusal_reason option"
  last_decided_by :: string
  last_decided_at :: int
  last_basis :: "string list"

record uncertain_projection =
  workspace_key :: string
  worktree_path :: "string option"
  uncertain_reason_p :: "uncertain_reason option"
  holder_pid :: "int option"
  holder_activation_id :: "string option"
  holder_specialist :: "string option"
  acquired_at_ms :: "int option"
  permitted_outcomes :: "proposed list"
  reconciliation_attempts :: nat
  last_reconciliation_p :: "last_reconciliation option"

definition readLeaseFile :: "lease_store \<Rightarrow> string \<Rightarrow> workspace_lease option" where
  "readLeaseFile s path = (case s path of Some (Record l) \<Rightarrow> Some l | _ \<Rightarrow> None)"

definition leaseScopeFor :: "(string \<Rightarrow> string option) \<Rightarrow> string \<Rightarrow> workspace_identity" where
  "leaseScopeFor resolveCommonGitRoot cwd =
     (let commonRoot = resolveCommonGitRoot cwd in
      \<lparr>repositoryRoot = (case commonRoot of Some r \<Rightarrow> r | None \<Rightarrow> cwd),
       gitCommonDir = (case commonRoot of Some r \<Rightarrow> if r = [] then None else Some (r @ ''/.git'') | None \<Rightarrow> None),
       worktreePath = cwd,
       branch = None\<rparr>)"

definition project_entry ::
  "host \<Rightarrow> probe \<Rightarrow> reconcile_state \<Rightarrow> workspace_identity \<Rightarrow> string \<Rightarrow> uncertain_projection option" where
  "project_entry h p s scope entry_name =
     (if \<not> ends_with ''.json'' entry_name then None
      else
        let key = take (length entry_name - 5) entry_name;
            l = readLeaseFile (leases s) (leaseDir scope @ ''/'' @ entry_name);
            st = (case l of
                    Some x \<Rightarrow> inspect h p (leases s) (scope\<lparr>worktreePath := lease_worktree x\<rparr>)
                  | None \<Rightarrow> \<lparr>lstate = Uncertain, lease = None, uncertainReason = Some Unreadable_record\<rparr>);
            lg = readLogAt (logs s) (leaseDir scope @ ''/'' @ key @ ''.reconcile.jsonl'')
        in if lstate st \<noteq> Uncertain then None
           else Some
             \<lparr>workspace_key = key,
              worktree_path = map_option lease_worktree l,
              uncertain_reason_p = uncertainReason st,
              holder_pid = map_option (\<lambda>x. pid (holder x)) l,
              holder_activation_id = map_option activationId l,
              holder_specialist = Option.bind l specialist,
              acquired_at_ms = map_option acquiredAtMs l,
              permitted_outcomes = (case uncertainReason st of
                 Some r \<Rightarrow> PERMITTED r | None \<Rightarrow> [P_manual_attention_required]),
              reconciliation_attempts = length lg,
              last_reconciliation_p = (if lg = [] then None else Some
                 \<lparr>last_outcome = rc_outcome (last lg), last_applied = applied (last lg),
                  last_refusal = refusalReason (last lg), last_decided_by = rc_decidedBy (last lg),
                  last_decided_at = decidedAtMs (last lg), last_basis = rc_basis (last lg)\<rparr>)\<rparr>)"

text \<open>\<open>entries\<close> is the listing of the lease directory, in the order the host gives it.\<close>

definition projectUncertainWorkspaces ::
  "host \<Rightarrow> probe \<Rightarrow> reconcile_state \<Rightarrow> workspace_identity \<Rightarrow> string list option \<Rightarrow> uncertain_projection list" where
  "projectUncertainWorkspaces h p s scope entries =
     (case entries of None \<Rightarrow> [] | Some es \<Rightarrow> List.map_filter (project_entry h p s scope) es)"

section \<open>Lemmas\<close>

definition approves :: "lease_status \<Rightarrow> reconcile_request \<Rightarrow> bool" where
  "approves st rq \<longleftrightarrow> lstate st = Uncertain \<and> rq_basis rq \<noteq> []
     \<and> (\<exists>r. uncertainReason st = Some r \<and> rq_outcome rq \<in> set (PERMITTED r))
     \<and> (rq_outcome rq = P_superseded \<longrightarrow> truthy (rq_supersededBy rq))"

lemma decide_applied [simp]: "applied (fst (decide h w rq st now)) = approves st rq"
  by (cases "lstate st")
     (auto simp: decide_def approves_def refuse_record_def base_record_def Let_def split: option.splits)

lemma decide_removes [simp]:
  "snd (decide h w rq st now) = (approves st rq \<and> rq_outcome rq \<noteq> P_manual_attention_required)"
  by (cases "lstate st") (auto simp: decide_def approves_def Let_def split: option.splits)

lemma leases_reconcile:
  "leases (snd (reconcile h p sink now w rq s)) =
     (if approves (inspect h p (leases s) w) rq \<and> rq_outcome rq \<noteq> P_manual_attention_required
      then (leases s)(leasePath h w := None) else leases s)"
  by (simp add: reconcile_def Let_def)

lemma fst_reconcile:
  "fst (reconcile h p sink now w rq s) = fst (decide h w rq (inspect h p (leases s) w) now)"
  by (simp add: reconcile_def Let_def)

lemma parsed_lines_append: "parsed_lines (xs @ ys) = parsed_lines xs @ parsed_lines ys"
  by (induction xs rule: parsed_lines.induct) auto

lemma readLogAt_append_line:
  "readLogAt (append_line lg path (Line r)) path' =
     (if path = path' then readLogAt lg path @ [r] else readLogAt lg path')"
  by (auto simp: readLogAt_def append_line_def parsed_lines_append split: option.splits)

lemma logs_reconcile:
  "logs (snd (reconcile h p sink now w rq s)) =
     append_line (logs s) (reconciliationLogPath h w) (Line (fst (reconcile h p sink now w rq s)))"
  by (simp add: reconcile_def Let_def)

text \<open>A run of reconciliation attempts on one workspace.\<close>

fun reconcile_all ::
  "host \<Rightarrow> probe \<Rightarrow> bool \<Rightarrow> int \<Rightarrow> workspace_identity \<Rightarrow> reconcile_request list \<Rightarrow> reconcile_state
   \<Rightarrow> reconcile_state" where
  "reconcile_all h p sink now w [] s = s"
| "reconcile_all h p sink now w (rq # rqs) s =
     reconcile_all h p sink now w rqs (snd (reconcile h p sink now w rq s))"

lemma approves_not_unverifiable:
  assumes "s (leasePath h w) = Some (Record l)" and "\<not> canVerify p"
    and "approves (inspect h p s w) rq"
  shows "rq_outcome rq = P_manual_attention_required"
  using assms by (auto simp: approves_def inspect_def inspect_file_def PERMITTED_def)

lemma reconcile_all_keeps_record:
  assumes "leases s (leasePath h w) = Some (Record l)" and "\<not> canVerify p"
  shows "leases (reconcile_all h p sink now w rqs s) = leases s"
  using assms(1)
proof (induction rqs arbitrary: s)
  case Nil
  then show ?case by simp
next
  case (Cons rq rqs)
  have same: "leases (snd (reconcile h p sink now w rq s)) = leases s"
    using approves_not_unverifiable [of "leases s", OF Cons.prems assms(2)]
    by (auto simp: leases_reconcile)
  then have "leases (snd (reconcile h p sink now w rq s)) (leasePath h w) = Some (Record l)"
    using Cons.prems by simp
  from Cons.IH [OF this] show ?case by (simp add: same)
qed

lemma log_grows:
  "readReconciliationLog h (snd (reconcile h p sink now w rq s)) w
     = readReconciliationLog h s w @ [fst (reconcile h p sink now w rq s)]"
  by (simp add: readReconciliationLog_def logs_reconcile readLogAt_append_line)

lemma ends_with_iff: "ends_with p s \<longleftrightarrow> (\<exists>r. s = r @ p)"
  by (auto simp: ends_with_def starts_with_iff)
     (metis rev_append rev_rev_ident)

section \<open>Properties\<close>

text \<open>C4. The whole decision: a proposal is applied exactly when the workspace is uncertain
  at decision time, a basis is given, the reason permits the outcome and a supersession
  names its successor; the lease file is removed exactly for an applied resolving outcome,
  and no other lease file changes.\<close>

theorem reconcile_decision:
  shows "let st = inspect h p (leases s) w in applied (fst (reconcile h p sink now w rq s)) =
      (lstate st = Uncertain \<and> rq_basis rq \<noteq> []
       \<and> (\<exists>r. uncertainReason st = Some r \<and> rq_outcome rq \<in> set (PERMITTED r))
       \<and> (if rq_outcome rq = P_superseded then truthy (rq_supersededBy rq) else True))
    \<and> leases (snd (reconcile h p sink now w rq s)) =
      (if applied (fst (reconcile h p sink now w rq s)) \<and> rq_outcome rq \<noteq> P_manual_attention_required
       then (leases s)(leasePath h w := None) else leases s)"
  by (simp add: leases_reconcile fst_reconcile Let_def) (auto simp: approves_def)

text \<open>A live holder is never reconciled away: the attempt is recorded as
  \<open>recovered_holder\<close>, not applied, and every lease file stays as it was.\<close>

theorem reconcile_live_holder:
  assumes "lstate (inspect h p (leases s) w) = Held"
  shows "rc_outcome (fst (reconcile h p sink now w rq s)) = Recovered_holder
    \<and> refusalReason (fst (reconcile h p sink now w rq s)) = Some Holder_is_live
    \<and> leases (snd (reconcile h p sink now w rq s)) = leases s"
  using assms
  by (simp add: leases_reconcile fst_reconcile approves_def decide_def refuse_record_def Let_def)

definition demo_rq :: "proposed \<Rightarrow> reconcile_request" where
  "demo_rq prop = \<lparr>rq_outcome = prop, rq_decidedBy = ''op'', rq_basis = [''dmesg''],
     rq_supersededBy = None, rq_note = None\<rparr>"

definition demo_lease :: workspace_lease where
  "demo_lease = \<lparr>lease_key = ''/r/w'', lease_worktree = ''/r/w'', activationId = ''a'', attemptId = ''att:1'',
     specialist = None, holder = \<lparr>pid = 7, startTicks = 100\<rparr>, acquiredAtMs = 5\<rparr>"

definition demo_rs :: reconcile_state where
  "demo_rs = \<lparr>leases = Map.empty(leasePath demo_host demo_ws \<mapsto> Record demo_lease), logs = Map.empty, events = []\<rparr>"

theorem reconcile_live_holder_witness:
  "lstate (inspect demo_host demo_probe (leases demo_rs) demo_ws) = Held
   \<and> leases (snd (reconcile demo_host demo_probe True 9 demo_ws (demo_rq P_safe_free) demo_rs)) = leases demo_rs"
proof -
  have h: "lstate (inspect demo_host demo_probe (leases demo_rs) demo_ws) = Held"
    by (simp add: inspect_def inspect_file_def demo_rs_def demo_lease_def demo_probe_def)
  show ?thesis using h reconcile_live_holder [OF h, of True 9 "demo_rq P_safe_free"] by simp
qed

text \<open>C5. The bright line: on a host that cannot see processes no sequence of proposals,
  whatever they assert, ever frees a workspace with a readable record.\<close>

theorem unverifiable_never_freed:
  assumes "leases s (leasePath h w) = Some (Record l)" and "\<not> canVerify p"
  shows "leases (reconcile_all h p sink now w rqs s) = leases s
    \<and> lstate (inspect h p (leases (reconcile_all h p sink now w rqs s)) w) = Uncertain"
  using assms by (simp add: reconcile_all_keeps_record) (simp add: inspect_def inspect_file_def)

definition blind_probe :: probe where
  "blind_probe = \<lparr>canVerify = False, ticksOf = (\<lambda>_. None)\<rparr>"

theorem unverifiable_never_freed_witness:
  "leases demo_rs (leasePath demo_host demo_ws) = Some (Record demo_lease) \<and> \<not> canVerify blind_probe
   \<and> leases (reconcile_all demo_host blind_probe True 9 demo_ws
        [demo_rq P_safe_free, demo_rq P_manual_attention_required] demo_rs) = leases demo_rs"
proof -
  have h: "leases demo_rs (leasePath demo_host demo_ws) = Some (Record demo_lease)" "\<not> canVerify blind_probe"
    by (simp_all add: demo_rs_def blind_probe_def)
  show ?thesis using h unverifiable_never_freed [OF h] by blast
qed

text \<open>Every attempt is kept: accepted or refused, it is the next line of the workspace's
  log, nothing recorded before is lost, and an event naming the verdict is emitted when
  there is a sink.\<close>

theorem reconcile_recorded:
  "readReconciliationLog h (snd (reconcile h p sink now w rq s)) w
      = readReconciliationLog h s w @ [fst (reconcile h p sink now w rq s)]
   \<and> map ev_name (events (snd (reconcile h p sink now w rq s)))
      = map ev_name (events s) @ (if sink then
          [if applied (fst (reconcile h p sink now w rq s)) then Lease_reconciled else Lease_uncertain] else [])"
  by (simp add: log_grows) (simp add: reconcile_def emit_event_def Let_def)

text \<open>Recovery is live: when the holder's process is gone, an evidenced \<open>safe_free\<close> is
  applied and any activation of a process that can read its start time then acquires the
  workspace.\<close>

theorem crashed_workspace_recovers:
  assumes "leases s (leasePath h w) = Some (Record l)"
    and "canVerify p" and "ticksOf p (pid (holder l)) \<noteq> Some (startTicks (holder l))"
    and "ticksOf p (self_pid h) \<noteq> None"
    and "rq_outcome rq = P_safe_free" and "rq_basis rq \<noteq> []" and "req_workspace r = w"
  shows "\<exists>l' s'. acquire h p now r (leases (snd (reconcile h p sink t w rq s))) = (Inr l', s')"
proof -
  have "approves (inspect h p (leases s) w) rq"
    using assms by (auto simp: approves_def inspect_def inspect_file_def PERMITTED_def split: option.splits)
  then have "leases (snd (reconcile h p sink t w rq s)) (leasePath h w) = None"
    using assms(5) by (simp add: leases_reconcile)
  then have "lstate (inspect h p (leases (snd (reconcile h p sink t w rq s))) (req_workspace r)) = Free"
    using assms(7) by (simp add: inspect_Free_iff)
  with assms(4) show ?thesis
    by (auto simp: acquire_free acquire_check_free split: option.splits)
qed

definition later_probe :: probe where
  "later_probe = \<lparr>canVerify = True, ticksOf = (\<lambda>q. if q = 7 then Some 500 else None)\<rparr>"

theorem crashed_workspace_recovers_witness:
  "leases demo_rs (leasePath demo_host demo_ws) = Some (Record demo_lease)
   \<and> (\<exists>l' s'. acquire demo_host later_probe 20 (demo_req ''b'')
        (leases (snd (reconcile demo_host later_probe True 9 demo_ws (demo_rq P_safe_free) demo_rs))) = (Inr l', s'))"
proof -
  have h: "leases demo_rs (leasePath demo_host demo_ws) = Some (Record demo_lease)"
    by (simp add: demo_rs_def)
  have "\<exists>l' s'. acquire demo_host later_probe 20 (demo_req ''b'')
        (leases (snd (reconcile demo_host later_probe True 9 demo_ws (demo_rq P_safe_free) demo_rs))) = (Inr l', s')"
    by (rule crashed_workspace_recovers [OF h])
       (simp_all add: later_probe_def demo_lease_def demo_host_def demo_rq_def demo_req_def)
  with h show ?thesis by blast
qed

text \<open>The status surface tells a decider the truth: for the entry of an uncertain
  workspace's own lease file, the outcomes listed are exactly those a proposal with a basis
  (and a named successor) would be applied with, and \<open>manual_attention_required\<close> is always
  among them.\<close>

theorem projection_permits:
  assumes "project_entry h p s scope (workspaceKey h w @ ''.json'') = Some u"
    and "leases s (leasePath h w) \<noteq> None"
    and "leaseDir scope = leaseDir w"
    and "\<And>l. leases s (leasePath h w) = Some (Record l)
           \<Longrightarrow> leasePath h (scope\<lparr>worktreePath := lease_worktree l\<rparr>) = leasePath h w"
    and "rq_basis rq \<noteq> []" and "truthy (rq_supersededBy rq)"
  shows "(rq_outcome rq \<in> set (permitted_outcomes u)) = applied (fst (reconcile h p sink now w rq s))
    \<and> P_manual_attention_required \<in> set (permitted_outcomes u)"
proof -
  have path: "leaseDir scope @ ''/'' @ workspaceKey h w @ ''.json'' = leasePath h w"
    using assms(3) by (simp add: leasePath_def)
  have same: "uncertainReason (inspect h p (leases s) w) = uncertain_reason_p u
      \<and> lstate (inspect h p (leases s) w) = Uncertain
      \<and> permitted_outcomes u = (case uncertain_reason_p u of Some r \<Rightarrow> PERMITTED r | None \<Rightarrow> [P_manual_attention_required])"
  proof (cases "readLeaseFile (leases s) (leasePath h w)")
    case None
    then show ?thesis
      using assms(1,2) unfolding project_entry_def path
      by (auto simp: ends_with_iff Let_def inspect_def inspect_file_def readLeaseFile_def inspect_Free_iff
          split: option.splits lease_file.splits if_splits)
  next
    case (Some l)
    then have "leases s (leasePath h w) = Some (Record l)"
      by (auto simp: readLeaseFile_def split: option.splits lease_file.splits)
    then have "inspect h p (leases s) (scope\<lparr>worktreePath := lease_worktree l\<rparr>) = inspect h p (leases s) w"
      using assms(4) by (simp add: inspect_def)
    then show ?thesis
      using assms(1) unfolding project_entry_def path
      by (auto simp: Some ends_with_iff Let_def split: if_splits)
  qed
  then obtain r where r: "uncertain_reason_p u = Some r"
    using inspect_Uncertain_iff [of h p "leases s" w] by auto
  then show ?thesis
    using same assms(5,6) by (simp add: fst_reconcile approves_def) (simp add: PERMITTED_def split: uncertain_reason.splits)
qed

theorem projection_permits_witness:
  "\<exists>u. project_entry demo_host later_probe demo_rs demo_ws (workspaceKey demo_host demo_ws @ ''.json'') = Some u
     \<and> P_safe_free \<in> set (permitted_outcomes u)
     \<and> P_manual_attention_required \<in> set (permitted_outcomes u)"
proof -
  let ?rq = "(demo_rq P_safe_free)\<lparr>rq_supersededBy := Some ''b''\<rparr>"
  have file_there: "leases demo_rs (leasePath demo_host demo_ws) = Some (Record demo_lease)"
    by (simp add: demo_rs_def)
  have path: "leaseDir demo_ws @ ''/'' @ workspaceKey demo_host demo_ws @ ''.json'' = leasePath demo_host demo_ws"
    by (simp add: leasePath_def)
  have same_path: "leasePath demo_host (demo_ws\<lparr>worktreePath := lease_worktree demo_lease\<rparr>) = leasePath demo_host demo_ws"
    by (simp add: leasePath_def leaseDir_def workspaceKey_def demo_ws_def demo_lease_def)
  have st: "inspect demo_host later_probe (leases demo_rs) (demo_ws\<lparr>worktreePath := lease_worktree demo_lease\<rparr>)
      = \<lparr>lstate = Uncertain, lease = Some demo_lease, uncertainReason = Some Holder_start_mismatch\<rparr>"
    unfolding inspect_def same_path file_there
    by (simp add: inspect_file_def later_probe_def demo_lease_def)
  have "readLeaseFile (leases demo_rs) (leasePath demo_host demo_ws) = Some demo_lease"
    by (simp add: readLeaseFile_def file_there)
  then obtain u where u: "project_entry demo_host later_probe demo_rs demo_ws (workspaceKey demo_host demo_ws @ ''.json'') = Some u"
      and perm: "permitted_outcomes u = PERMITTED Holder_start_mismatch"
    unfolding project_entry_def path by (simp add: ends_with_iff st Let_def)
  have "P_safe_free \<in> set (permitted_outcomes u)" by (simp add: perm PERMITTED_def)
  moreover have "P_manual_attention_required \<in> set (permitted_outcomes u)"
  proof (rule projection_permits [OF u, where rq = ?rq and sink = True and now = 9, THEN conjunct2])
    fix l
    assume "leases demo_rs (leasePath demo_host demo_ws) = Some (Record l)"
    then show "leasePath demo_host (demo_ws\<lparr>worktreePath := lease_worktree l\<rparr>) = leasePath demo_host demo_ws"
      using file_there same_path by simp
  qed (simp_all add: file_there demo_rq_def truthy_def)
  ultimately show ?thesis using u by blast
qed

end
