(* ===== verification/Lease_Race.thy ===== *)
theory Lease_Race imports Workspace_Reconcile begin

text \<open>
  The lease protocol run by several activations at once. Each call of \<open>acquire\<close>,
  \<open>release\<close> and \<open>reconcile\<close> is the code's two file-system steps, what it read and the one
  call that changes the file, and any other step may fall between them. Processes start
  with the clock as start time and exit; an activation lives in one process. The steps are
  built from the sequential definitions: \<open>acquire_check\<close>, \<open>acquire_commit\<close>,
  \<open>release_check\<close>, \<open>decide\<close>.
\<close>

section \<open>The system\<close>

datatype phase =
    Fresh
  | Idle
  | Acquiring acquire_plan
  | Holding
  | Resuming acquire_plan
  | Releasing
  | Gone

record race =
  files_r :: lease_store
  procs :: "int \<Rightarrow> int option"
  clock :: int
  phases :: "nat \<Rightarrow> phase"
  home :: "nat \<Rightarrow> int"
  removals :: nat \<comment> \<open>reconcilers that decided to remove the file and have not yet\<close>

text \<open>The workspace, the host functions and the activation id of each actor are fixed.\<close>

record setting =
  base_host :: host
  ws :: workspace_identity
  act :: "nat \<Rightarrow> string"

definition host_of :: "setting \<Rightarrow> race \<Rightarrow> nat \<Rightarrow> host" where
  "host_of g s i = (base_host g)\<lparr>self_pid := home s i\<rparr>"

definition probe_of :: "race \<Rightarrow> probe" where
  "probe_of s = \<lparr>canVerify = True, ticksOf = procs s\<rparr>"

definition request_of :: "setting \<Rightarrow> nat \<Rightarrow> string \<Rightarrow> acquire_request" where
  "request_of g i att =
     \<lparr>req_workspace = ws g, req_activation = act g i, req_attempt = att, req_specialist = None\<rparr>"

definition path_of :: "setting \<Rightarrow> string" where
  "path_of g = leasePath (base_host g) (ws g)"

definition start_race :: race where
  "start_race = \<lparr>files_r = Map.empty, procs = Map.empty, clock = 1, phases = (\<lambda>_. Fresh),
     home = (\<lambda>_. 0), removals = 0\<rparr>"

text \<open>
  \<open>split\<close> says whether a reconciliation may be interrupted between its inspection and its
  removal of the file; without it a reconciliation is one step.
\<close>

inductive race_step :: "setting \<Rightarrow> bool \<Rightarrow> race \<Rightarrow> race \<Rightarrow> bool" for g split where
  process_start: "procs s q = None \<Longrightarrow>
     race_step g split s (s\<lparr>procs := (procs s)(q \<mapsto> clock s), clock := clock s + 1\<rparr>)"
| process_exit: "procs s q = Some t \<Longrightarrow>
     race_step g split s (s\<lparr>procs := (procs s)(q := None),
        phases := (\<lambda>i. if home s i = q \<and> phases s i \<noteq> Fresh then Gone else phases s i)\<rparr>)"
| activate: "phases s i = Fresh \<Longrightarrow> procs s q \<noteq> None \<Longrightarrow>
     race_step g split s (s\<lparr>phases := (phases s)(i := Idle), home := (home s)(i := q)\<rparr>)"
| check_acquire: "phases s i = Idle \<Longrightarrow>
     acquire_check (host_of g s i) (probe_of s) now (files_r s) (request_of g i att) = Inr plan \<Longrightarrow>
     race_step g split s (s\<lparr>phases := (phases s)(i := Acquiring plan)\<rparr>)"
| commit_acquire: "phases s i = Acquiring plan \<Longrightarrow>
     acquire_commit (host_of g s i) (probe_of s) (request_of g i att) plan (files_r s) = (Inr l, f) \<Longrightarrow>
     race_step g split s (s\<lparr>files_r := f, phases := (phases s)(i := Holding)\<rparr>)"
| lose_acquire: "phases s i = Acquiring plan \<Longrightarrow>
     acquire_commit (host_of g s i) (probe_of s) (request_of g i att) plan (files_r s) = (Inl e, f) \<Longrightarrow>
     race_step g split s (s\<lparr>files_r := f, phases := (phases s)(i := Idle)\<rparr>)"
| check_resume: "phases s i = Holding \<Longrightarrow>
     acquire_check (host_of g s i) (probe_of s) now (files_r s) (request_of g i att) = Inr plan \<Longrightarrow>
     race_step g split s (s\<lparr>phases := (phases s)(i := Resuming plan)\<rparr>)"
| commit_resume: "phases s i = Resuming plan \<Longrightarrow>
     acquire_commit (host_of g s i) (probe_of s) (request_of g i att) plan (files_r s) = (Inr l, f) \<Longrightarrow>
     race_step g split s (s\<lparr>files_r := f, phases := (phases s)(i := Holding)\<rparr>)"
| check_release: "phases s i = Holding \<Longrightarrow>
     release_check (host_of g s i) (probe_of s) (files_r s) (ws g) (act g i) = Inr True \<Longrightarrow>
     race_step g split s (s\<lparr>phases := (phases s)(i := Releasing)\<rparr>)"
| commit_release: "phases s i = Releasing \<Longrightarrow>
     race_step g split s (s\<lparr>files_r := (files_r s)(path_of g := None), phases := (phases s)(i := Idle)\<rparr>)"
| reconcile_at_once:
    "snd (decide (base_host g) (ws g) rq (inspect (base_host g) (probe_of s) (files_r s) (ws g)) now) \<Longrightarrow>
     race_step g split s (s\<lparr>files_r := (files_r s)(path_of g := None)\<rparr>)"
| check_reconcile: "split \<Longrightarrow>
     snd (decide (base_host g) (ws g) rq (inspect (base_host g) (probe_of s) (files_r s) (ws g)) now) \<Longrightarrow>
     race_step g split s (s\<lparr>removals := Suc (removals s)\<rparr>)"
| commit_reconcile: "removals s = Suc n \<Longrightarrow>
     race_step g split s (s\<lparr>files_r := (files_r s)(path_of g := None), removals := n\<rparr>)"

inductive race_reachable :: "setting \<Rightarrow> bool \<Rightarrow> race \<Rightarrow> bool" for g split where
  race_start: "race_reachable g split start_race"
| race_next: "race_reachable g split s \<Longrightarrow> race_step g split s t \<Longrightarrow> race_reachable g split t"

text \<open>An actor is writing from the commit of its acquisition to the commit of its release.\<close>

fun writing :: "phase \<Rightarrow> bool" where
  "writing Holding = True"
| "writing (Resuming plan) = True"
| "writing Releasing = True"
| "writing _ = False"

section \<open>The invariant\<close>

definition alive :: "phase \<Rightarrow> bool" where
  "alive ph \<longleftrightarrow> ph \<noteq> Fresh \<and> ph \<noteq> Gone"

definition own_record :: "setting \<Rightarrow> race \<Rightarrow> nat \<Rightarrow> workspace_lease \<Rightarrow> bool" where
  "own_record g s i l \<longleftrightarrow>
     activationId l = act g i \<and> pid (holder l) = home s i \<and> procs s (home s i) = Some (startTicks (holder l))"

text \<open>A plan names its actor's activation and its actor's running process; only a holder's
  plan replaces.\<close>

fun plan_ok :: "setting \<Rightarrow> race \<Rightarrow> nat \<Rightarrow> phase \<Rightarrow> bool" where
  "plan_ok g s i (Acquiring (Publish l)) = own_record g s i l"
| "plan_ok g s i (Acquiring (Rewrite l)) = False"
| "plan_ok g s i (Resuming (Rewrite l)) = own_record g s i l"
| "plan_ok g s i (Resuming (Publish l)) = False"
| "plan_ok g s i _ = True"

definition race_inv :: "setting \<Rightarrow> race \<Rightarrow> bool" where
  "race_inv g s \<longleftrightarrow>
     removals s = 0
   \<and> (\<forall>q t. procs s q = Some t \<longrightarrow> t < clock s)
   \<and> (\<forall>i. alive (phases s i) \<longrightarrow> procs s (home s i) \<noteq> None)
   \<and> (\<forall>i. plan_ok g s i (phases s i))
   \<and> (\<forall>l. files_r s (path_of g) = Some (Record l) \<longrightarrow> startTicks (holder l) < clock s)
   \<and> files_r s (path_of g) \<noteq> Some Garbage
   \<and> (\<forall>i. writing (phases s i) \<longrightarrow>
        (\<exists>l. files_r s (path_of g) = Some (Record l) \<and> own_record g s i l))
   \<and> (\<forall>l i. files_r s (path_of g) = Some (Record l) \<longrightarrow> activationId l = act g i \<longrightarrow>
        writing (phases s i) \<or> phases s i = Gone)"

section \<open>Each step keeps it\<close>

lemma leasePath_self [simp]: "leasePath (h\<lparr>self_pid := q\<rparr>) w = leasePath h w"
  by (simp add: leasePath_def workspaceKey_def)

lemma inspect_self: "inspect (h\<lparr>self_pid := q\<rparr>) p s w = inspect h p s w"
  by (simp add: inspect_def)

lemma check_free_plan:
  assumes "files_r s (path_of g) = None"
    and "acquire_check (host_of g s i) (probe_of s) now (files_r s) (request_of g i att) = Inr plan"
  shows "\<exists>l. plan = Publish l \<and> own_record g s i l"
proof -
  have "lstate (inspect (host_of g s i) (probe_of s) (files_r s) (req_workspace (request_of g i att))) = Free"
    using assms(1) by (simp add: inspect_Free_iff host_of_def request_of_def path_of_def)
  from acquire_check_free [OF this, of now] assms(2) show ?thesis
    by (auto simp: own_record_def host_of_def probe_of_def request_of_def split: option.splits)
qed

lemma check_record_plan:
  assumes "files_r s (path_of g) = Some (Record l)"
    and "acquire_check (host_of g s i) (probe_of s) now (files_r s) (request_of g i att) = Inr plan"
  shows "activationId l = act g i \<and> procs s (pid (holder l)) = Some (startTicks (holder l))
    \<and> plan = Rewrite (l\<lparr>attemptId := att\<rparr>)"
  using assms
  by (auto simp: acquire_check_def inspect_def inspect_file_def host_of_def probe_of_def request_of_def
      path_of_def Let_def split: option.splits if_splits)

lemma commit_publish_iff:
  "acquire_commit (host_of g s i) p (request_of g i att) (Publish l) f = (Inr l', f') \<longleftrightarrow>
     f (path_of g) = None \<and> l' = l \<and> f' = f(path_of g \<mapsto> Record l)"
  by (auto simp: acquire_commit_def host_of_def request_of_def path_of_def Let_def split: option.splits)

lemma commit_rewrite_iff:
  "acquire_commit (host_of g s i) p (request_of g i att) (Rewrite l) f = (Inr l', f') \<longleftrightarrow>
     l' = l \<and> f' = f(path_of g \<mapsto> Record l)"
  by (auto simp: acquire_commit_def host_of_def request_of_def path_of_def Let_def)

lemma commit_Inl_store: "acquire_commit h p r plan f = (Inl e, f') \<Longrightarrow> f' = f"
  by (auto simp: acquire_commit_def Let_def split: acquire_plan.splits option.splits)

lemma reconcile_needs_uncertain:
  assumes "snd (decide (base_host g) (ws g) rq (inspect (base_host g) (probe_of s) (files_r s) (ws g)) now)"
    and "files_r s (path_of g) = Some (Record l)"
  shows "procs s (pid (holder l)) \<noteq> Some (startTicks (holder l))"
  using assms
  by (auto simp: approves_def inspect_def inspect_file_def probe_of_def path_of_def split: option.splits if_splits)

text \<open>The conjuncts of the invariant, by name.\<close>

lemma race_invD:
  assumes "race_inv g s"
  shows inv_removals: "removals s = 0"
    and inv_ticks: "procs s q = Some t \<Longrightarrow> t < clock s"
    and inv_alive: "alive (phases s i) \<Longrightarrow> procs s (home s i) \<noteq> None"
    and inv_plan: "plan_ok g s i (phases s i)"
    and inv_file_ticks: "files_r s (path_of g) = Some (Record l) \<Longrightarrow> startTicks (holder l) < clock s"
    and inv_no_garbage: "files_r s (path_of g) \<noteq> Some Garbage"
    and inv_writing: "writing (phases s i) \<Longrightarrow>
        \<exists>l. files_r s (path_of g) = Some (Record l) \<and> own_record g s i l"
    and inv_file: "files_r s (path_of g) = Some (Record l) \<Longrightarrow> activationId l = act g i \<Longrightarrow>
        writing (phases s i) \<or> phases s i = Gone"
  using assms unfolding race_inv_def by blast+

lemma writing_alive: "writing ph \<Longrightarrow> alive ph"
  by (cases ph) (auto simp: alive_def)

lemma race_inv_start: "race_inv g start_race"
  by (simp add: race_inv_def start_race_def alive_def)

lemma race_inv_unique:
  assumes "race_inv g s" and "inj (act g)" and "writing (phases s i)" and "writing (phases s j)"
  shows "i = j"
proof -
  obtain l where l: "files_r s (path_of g) = Some (Record l)" "activationId l = act g i"
    using inv_writing [OF assms(1,3)] by (auto simp: own_record_def)
  obtain l' where "files_r s (path_of g) = Some (Record l')" "activationId l' = act g j"
    using inv_writing [OF assms(1,4)] by (auto simp: own_record_def)
  with l assms(2) show ?thesis by (auto simp: inj_eq)
qed

lemma own_record_cong:
  "procs t = procs s \<Longrightarrow> home t = home s \<Longrightarrow> own_record g t = own_record g s"
  by (intro ext) (simp add: own_record_def)

lemma plan_ok_cong:
  assumes "procs t = procs s" and "home t = home s"
  shows "plan_ok g t = plan_ok g s"
proof (intro ext)
  fix i ph
  show "plan_ok g t i ph = plan_ok g s i ph"
    by (cases "(g, s, i, ph)" rule: plan_ok.cases) (simp_all add: own_record_cong [OF assms])
qed

text \<open>An update of one actor's phase that leaves the rest alone.\<close>

lemma race_inv_phase:
  assumes "race_inv g s" and "plan_ok g s i ph" and "alive ph" and "alive (phases s i)"
    and "writing ph = writing (phases s i)"
  shows "race_inv g (s\<lparr>phases := (phases s)(i := ph)\<rparr>)"
proof -
  let ?t = "s\<lparr>phases := (phases s)(i := ph)\<rparr>"
  have same: "own_record g ?t = own_record g s" "plan_ok g ?t = plan_ok g s"
    by (rule own_record_cong plan_ok_cong; simp)+
  have "ph \<noteq> Gone" "phases s i \<noteq> Gone" using assms(3,4) by (auto simp: alive_def)
  with assms show ?thesis
    unfolding race_inv_def same by simp blast
qed

lemma race_inv_published:
  assumes "race_inv g s" and "inj (act g)" and "phases s i = Acquiring (Publish l)"
    and "files_r s (path_of g) = None"
  shows "race_inv g (s\<lparr>files_r := (files_r s)(path_of g \<mapsto> Record l), phases := (phases s)(i := Holding)\<rparr>)"
proof -
  let ?t = "s\<lparr>files_r := (files_r s)(path_of g \<mapsto> Record l), phases := (phases s)(i := Holding)\<rparr>"
  have same: "own_record g ?t = own_record g s" "plan_ok g ?t = plan_ok g s"
    by (rule own_record_cong plan_ok_cong; simp)+
  have own: "own_record g s i l" using inv_plan [OF assms(1), of i] assms(3) by simp
  then have l: "activationId l = act g i" "procs s (home s i) = Some (startTicks (holder l))"
    by (simp_all add: own_record_def)
  have nobody: "\<not> writing (phases s j)" for j
    using inv_writing [OF assms(1), of j] assms(4) by auto
  show ?thesis
    unfolding race_inv_def same
    using inv_removals [OF assms(1)] inv_ticks [OF assms(1)] inv_alive [OF assms(1)]
      inv_plan [OF assms(1)] nobody own l assms(2)
    by (auto simp: inj_eq)
qed

lemma race_inv_resumed:
  assumes "race_inv g s" and "inj (act g)" and "phases s i = Resuming (Rewrite l)"
  shows "race_inv g (s\<lparr>files_r := (files_r s)(path_of g \<mapsto> Record l), phases := (phases s)(i := Holding)\<rparr>)"
proof -
  let ?t = "s\<lparr>files_r := (files_r s)(path_of g \<mapsto> Record l), phases := (phases s)(i := Holding)\<rparr>"
  have same: "own_record g ?t = own_record g s" "plan_ok g ?t = plan_ok g s"
    by (rule own_record_cong plan_ok_cong; simp)+
  have own: "own_record g s i l" using inv_plan [OF assms(1), of i] assms(3) by simp
  then have l: "activationId l = act g i" "procs s (home s i) = Some (startTicks (holder l))"
    by (simp_all add: own_record_def)
  have only: "writing (phases s j) \<Longrightarrow> j = i" for j
    using race_inv_unique [OF assms(1,2), of j i] assms(3) by simp
  show ?thesis
    unfolding race_inv_def same
    using inv_removals [OF assms(1)] inv_ticks [OF assms(1)] inv_alive [OF assms(1)]
      inv_plan [OF assms(1)] only own l assms(2)
    by (auto simp: inj_eq)
qed

lemma race_inv_removed:
  assumes "race_inv g s" and "\<And>i. \<not> writing (phases s i)"
  shows "race_inv g (s\<lparr>files_r := (files_r s)(path_of g := None)\<rparr>)"
proof -
  let ?t = "s\<lparr>files_r := (files_r s)(path_of g := None)\<rparr>"
  have same: "own_record g ?t = own_record g s" "plan_ok g ?t = plan_ok g s"
    by (rule own_record_cong plan_ok_cong; simp)+
  show ?thesis
    unfolding race_inv_def same
    using inv_removals [OF assms(1)] inv_ticks [OF assms(1)] inv_alive [OF assms(1)]
      inv_plan [OF assms(1)] assms(2)
    by auto
qed

lemma race_inv_released:
  assumes "race_inv g s" and "inj (act g)" and "phases s i = Releasing"
  shows "race_inv g (s\<lparr>files_r := (files_r s)(path_of g := None), phases := (phases s)(i := Idle)\<rparr>)"
proof -
  let ?t = "s\<lparr>files_r := (files_r s)(path_of g := None), phases := (phases s)(i := Idle)\<rparr>"
  have same: "own_record g ?t = own_record g s" "plan_ok g ?t = plan_ok g s"
    by (rule own_record_cong plan_ok_cong; simp)+
  have only: "writing (phases s j) \<Longrightarrow> j = i" for j
    using race_inv_unique [OF assms(1,2), of j i] assms(3) by simp
  have "procs s (home s i) \<noteq> None"
    using inv_alive [OF assms(1), of i] assms(3) by (simp add: alive_def)
  then show ?thesis
    unfolding race_inv_def same
    using inv_removals [OF assms(1)] inv_ticks [OF assms(1)] inv_alive [OF assms(1)]
      inv_plan [OF assms(1)] only
    by auto
qed

lemma race_inv_process_start:
  assumes "race_inv g s" and "procs s q = None"
  shows "race_inv g (s\<lparr>procs := (procs s)(q \<mapsto> clock s), clock := clock s + 1\<rparr>)"
proof -
  let ?t = "s\<lparr>procs := (procs s)(q \<mapsto> clock s), clock := clock s + 1\<rparr>"
  have own: "own_record g ?t i l" if "own_record g s i l" for i l
    using that assms(2) by (auto simp: own_record_def)
  have plan: "plan_ok g ?t i ph" if "plan_ok g s i ph" for i ph
    using that by (cases "(g, s, i, ph)" rule: plan_ok.cases) (auto dest: own)
  have ticks: "t < clock s + 1" if "procs s q' = Some t" for q' t
    using inv_ticks [OF assms(1) that] by simp
  have file_ticks: "startTicks (holder l) < clock s + 1" if "files_r s (path_of g) = Some (Record l)" for l
    using inv_file_ticks [OF assms(1) that] by simp
  show ?thesis
    unfolding race_inv_def
  proof (intro conjI allI impI)
    show "removals ?t = 0" using inv_removals [OF assms(1)] by simp
    show "t < clock ?t" if "procs ?t q' = Some t" for q' t
      using that ticks by (auto split: if_splits)
    show "procs ?t (home ?t i) \<noteq> None" if "alive (phases ?t i)" for i
      using that inv_alive [OF assms(1), of i] by simp
    show "plan_ok g ?t i (phases ?t i)" for i
      using plan [OF inv_plan [OF assms(1)], of i] by simp
    show "startTicks (holder l) < clock ?t" if "files_r ?t (path_of g) = Some (Record l)" for l
      using that file_ticks by simp
    show "files_r ?t (path_of g) \<noteq> Some Garbage" using inv_no_garbage [OF assms(1)] by simp
    show "\<exists>l. files_r ?t (path_of g) = Some (Record l) \<and> own_record g ?t i l" if "writing (phases ?t i)" for i
      using that inv_writing [OF assms(1), of i] own [of i] by auto
    show "writing (phases ?t i) \<or> phases ?t i = Gone"
      if "files_r ?t (path_of g) = Some (Record l)" "activationId l = act g i" for l i
      using that inv_file [OF assms(1), of l i] by simp
  qed
qed

lemma race_inv_process_exit:
  assumes "race_inv g s" and "procs s q = Some t"
  shows "race_inv g (s\<lparr>procs := (procs s)(q := None),
      phases := (\<lambda>i. if home s i = q \<and> phases s i \<noteq> Fresh then Gone else phases s i)\<rparr>)"
    (is "race_inv g ?t")
proof -
  have own: "own_record g ?t i l" if "own_record g s i l" "home s i \<noteq> q" for i l
    using that by (auto simp: own_record_def)
  have plan: "plan_ok g ?t i (phases ?t i)" for i
    using inv_plan [OF assms(1), of i]
    by (cases "(g, s, i, phases s i)" rule: plan_ok.cases) (auto dest: own)
  have write_s: "writing (phases s i) \<and> home s i \<noteq> q" if "writing (phases ?t i)" for i
    using that by (auto split: if_splits)
  show ?thesis
    unfolding race_inv_def
  proof (intro conjI allI impI)
    show "removals ?t = 0" using inv_removals [OF assms(1)] by simp
    show "t' < clock ?t" if "procs ?t q' = Some t'" for q' t'
      using that inv_ticks [OF assms(1)] by (auto split: if_splits)
    show "procs ?t (home ?t i) \<noteq> None" if "alive (phases ?t i)" for i
      using that inv_alive [OF assms(1), of i] by (auto simp: alive_def split: if_splits)
    show "plan_ok g ?t i (phases ?t i)" for i by (rule plan)
    show "startTicks (holder l) < clock ?t" if "files_r ?t (path_of g) = Some (Record l)" for l
      using that inv_file_ticks [OF assms(1)] by simp
    show "files_r ?t (path_of g) \<noteq> Some Garbage" using inv_no_garbage [OF assms(1)] by simp
    show "\<exists>l. files_r ?t (path_of g) = Some (Record l) \<and> own_record g ?t i l" if "writing (phases ?t i)" for i
      using inv_writing [OF assms(1), of i] write_s [OF that] own by auto
    show "writing (phases ?t i) \<or> phases ?t i = Gone"
      if "files_r ?t (path_of g) = Some (Record l)" "activationId l = act g i" for l i
      using that inv_file [OF assms(1), of l i] by auto
  qed
qed

lemma race_inv_activate:
  assumes "race_inv g s" and "phases s i = Fresh" and "procs s q \<noteq> None"
  shows "race_inv g (s\<lparr>phases := (phases s)(i := Idle), home := (home s)(i := q)\<rparr>)"
    (is "race_inv g ?t")
proof -
  have own: "own_record g ?t j = own_record g s j" if "j \<noteq> i" for j
    using that by (intro ext) (simp add: own_record_def)
  have plan: "plan_ok g ?t j (phases ?t j)" for j
    using inv_plan [OF assms(1), of j] own
    by (cases "j = i"; cases "(g, s, j, phases s j)" rule: plan_ok.cases) auto
  have no_i: "\<not> (files_r s (path_of g) = Some (Record l) \<and> activationId l = act g i)" for l
    using inv_file [OF assms(1), of l i] assms(2) by auto
  show ?thesis
    unfolding race_inv_def
  proof (intro conjI allI impI)
    show "removals ?t = 0" using inv_removals [OF assms(1)] by simp
    show "t' < clock ?t" if "procs ?t q' = Some t'" for q' t'
      using that inv_ticks [OF assms(1)] by auto
    show "procs ?t (home ?t j) \<noteq> None" if "alive (phases ?t j)" for j
      using that inv_alive [OF assms(1), of j] assms(3) by (auto split: if_splits)
    show "plan_ok g ?t j (phases ?t j)" for j by (rule plan)
    show "startTicks (holder l) < clock ?t" if "files_r ?t (path_of g) = Some (Record l)" for l
      using that inv_file_ticks [OF assms(1)] by simp
    show "files_r ?t (path_of g) \<noteq> Some Garbage" using inv_no_garbage [OF assms(1)] by simp
    show "\<exists>l. files_r ?t (path_of g) = Some (Record l) \<and> own_record g ?t j l" if "writing (phases ?t j)" for j
      using that inv_writing [OF assms(1), of j] own [of j] by (auto split: if_splits)
    show "writing (phases ?t j) \<or> phases ?t j = Gone"
      if "files_r ?t (path_of g) = Some (Record l)" "activationId l = act g j" for l j
      using that inv_file [OF assms(1), of l j] no_i [of l] by auto
  qed
qed


lemma check_acquire_plan:
  assumes "race_inv g s" and "phases s i = Idle"
    and "acquire_check (host_of g s i) (probe_of s) now (files_r s) (request_of g i att) = Inr plan"
  shows "plan_ok g s i (Acquiring plan)"
proof (cases "files_r s (path_of g)")
  case None
  from check_free_plan [OF this assms(3)] show ?thesis by auto
next
  case (Some f)
  then obtain l where l: "files_r s (path_of g) = Some (Record l)"
    using inv_no_garbage [OF assms(1)] by (cases f) auto
  from check_record_plan [OF l assms(3)] inv_file [OF assms(1) l, of i] assms(2)
  show ?thesis by simp
qed

lemma check_resume_plan:
  assumes "race_inv g s" and "phases s i = Holding"
    and "acquire_check (host_of g s i) (probe_of s) now (files_r s) (request_of g i att) = Inr plan"
  shows "plan_ok g s i (Resuming plan)"
proof -
  obtain l where l: "files_r s (path_of g) = Some (Record l)" "own_record g s i l"
    using inv_writing [OF assms(1), of i] assms(2) by auto
  from check_record_plan [OF l(1) assms(3)] l(2) show ?thesis
    by (auto simp: own_record_def)
qed

lemma race_inv_step:
  assumes "race_step g False s t" and "race_inv g s" and "inj (act g)"
  shows "race_inv g t"
  using assms(1)
proof cases
  case (process_start q)
  then show ?thesis using race_inv_process_start [OF assms(2)] by simp
next
  case (process_exit q b)
  then show ?thesis using race_inv_process_exit [OF assms(2)] by simp
next
  case (activate i q)
  then show ?thesis using race_inv_activate [OF assms(2)] by simp
next
  case (check_acquire i now att plan)
  then show ?thesis
    using race_inv_phase [OF assms(2) check_acquire_plan [OF assms(2)]] by (simp add: alive_def)
next
  case (commit_acquire i plan att l f)
  from inv_plan [OF assms(2), of i] commit_acquire(2) obtain l0 where plan: "plan = Publish l0"
    by (cases plan) auto
  with commit_acquire(3) have "files_r s (path_of g) = None" "l = l0" "f = (files_r s)(path_of g \<mapsto> Record l0)"
    by (simp_all add: commit_publish_iff)
  then show ?thesis using race_inv_published [OF assms(2,3)] commit_acquire(1,2) plan by simp
next
  case (lose_acquire i plan att e f)
  then have f: "f = files_r s" by (simp add: commit_Inl_store)
  have "race_inv g (s\<lparr>phases := (phases s)(i := Idle)\<rparr>)"
    by (rule race_inv_phase [OF assms(2)]) (simp_all add: lose_acquire(2) alive_def)
  then show ?thesis using lose_acquire(1) f by simp
next
  case (check_resume i now att plan)
  then show ?thesis
    using race_inv_phase [OF assms(2) check_resume_plan [OF assms(2)]] by (simp add: alive_def)
next
  case (commit_resume i plan att l f)
  from inv_plan [OF assms(2), of i] commit_resume(2) obtain l0 where plan: "plan = Rewrite l0"
    by (cases plan) auto
  with commit_resume(3) have "l = l0" "f = (files_r s)(path_of g \<mapsto> Record l0)"
    by (simp_all add: commit_rewrite_iff)
  then show ?thesis using race_inv_resumed [OF assms(2,3)] commit_resume(1,2) plan by simp
next
  case (check_release i)
  have "race_inv g (s\<lparr>phases := (phases s)(i := Releasing)\<rparr>)"
    by (rule race_inv_phase [OF assms(2)]) (simp_all add: check_release(2) alive_def)
  then show ?thesis using check_release(1) by simp
next
  case (commit_release i)
  then show ?thesis using race_inv_released [OF assms(2,3)] by simp
next
  case (reconcile_at_once rq now)
  have "\<not> writing (phases s i)" for i
    using inv_writing [OF assms(2), of i] reconcile_needs_uncertain [OF reconcile_at_once(2)]
    by (auto simp: own_record_def)
  then show ?thesis using race_inv_removed [OF assms(2)] reconcile_at_once(1) by simp
next
  case (commit_reconcile n)
  then show ?thesis using inv_removals [OF assms(2)] by simp
qed simp

lemma race_inv_reachable:
  "race_reachable g False s \<Longrightarrow> inj (act g) \<Longrightarrow> race_inv g s"
  by (induction rule: race_reachable.induct) (auto intro: race_inv_start race_inv_step)


text \<open>A fresh actor of a running process acquires a free workspace in three steps.\<close>

lemma fresh_acquires:
  assumes "race_reachable g split s" and "phases s i = Fresh" and "procs s q = Some t"
    and "files_r s (path_of g) = None"
  obtains s' l where "race_reachable g split s'"
    and "holder l = \<lparr>pid = q, startTicks = t\<rparr>" and "files_r s' = (files_r s)(path_of g \<mapsto> Record l)"
    and "phases s' = (phases s)(i := Holding)" and "home s' = (home s)(i := q)"
    and "procs s' = procs s" and "clock s' = clock s" and "removals s' = removals s"
proof -
  let ?s1 = "s\<lparr>phases := (phases s)(i := Idle), home := (home s)(i := q)\<rparr>"
  have r1: "race_reachable g split ?s1"
    by (rule race_next [OF assms(1)], rule activate) (simp_all add: assms)
  have "lstate (inspect (host_of g ?s1 i) (probe_of ?s1) (files_r ?s1) (req_workspace (request_of g i ''att:1''))) = Free"
    using assms(4) by (simp add: inspect_Free_iff host_of_def request_of_def path_of_def)
  from acquire_check_free [OF this, of 0]
  obtain l where chk: "acquire_check (host_of g ?s1 i) (probe_of ?s1) 0 (files_r ?s1) (request_of g i ''att:1'') = Inr (Publish l)"
      and l: "holder l = \<lparr>pid = q, startTicks = t\<rparr>"
    using assms(3) by (simp add: host_of_def probe_of_def)
  let ?s2 = "?s1\<lparr>phases := (phases ?s1)(i := Acquiring (Publish l))\<rparr>"
  have r2: "race_reachable g split ?s2"
    by (rule race_next [OF r1], rule check_acquire [OF _ chk]) simp
  have "race_reachable g split (?s2\<lparr>files_r := (files_r ?s2)(path_of g \<mapsto> Record l), phases := (phases ?s2)(i := Holding)\<rparr>)"
    by (rule race_next [OF r2], rule commit_acquire [where att = "''att:1''" and l = l and plan = "Publish l"])
       (simp_all add: commit_publish_iff assms(4))
  from that [OF this l] show thesis by simp
qed

section \<open>Properties\<close>

text \<open>C1. Mutual exclusion under every interleaving of acquisitions, resumptions, releases,
  process exits and one-step reconciliations: activations with different ids are never
  writing at the same time, and the writer's record is the one on disk.\<close>

theorem lease_mutual_exclusion:
  assumes "race_reachable g False s" and "inj (act g)" and "writing (phases s i)"
  shows "(\<exists>l. files_r s (path_of g) = Some (Record l) \<and> activationId l = act g i
      \<and> procs s (pid (holder l)) = Some (startTicks (holder l)))
    \<and> {j. writing (phases s j)} = {i}"
proof
  note inv = race_inv_reachable [OF assms(1,2)]
  obtain l where "files_r s (path_of g) = Some (Record l)" "own_record g s i l"
    using inv_writing [OF inv assms(3)] by blast
  then show "\<exists>l. files_r s (path_of g) = Some (Record l) \<and> activationId l = act g i
      \<and> procs s (pid (holder l)) = Some (startTicks (holder l))"
    by (intro exI [of _ l]) (simp add: own_record_def)
  have "j = i" if "writing (phases s j)" for j
    by (rule race_inv_unique [OF inv assms(2) that assms(3)])
  then show "{j. writing (phases s j)} = {i}" using assms(3) by blast
qed

definition demo_setting :: setting where
  "demo_setting = \<lparr>base_host = demo_host, ws = demo_ws, act = (\<lambda>i. replicate i CHR ''a'')\<rparr>"

lemma inj_demo: "inj (act demo_setting)"
proof (rule injI)
  fix i j
  assume "act demo_setting i = act demo_setting j"
  then have "length (replicate i CHR ''a'') = length (replicate j CHR ''a'')"
    by (simp only: demo_setting_def setting.select_convs)
  then show "i = j" by simp
qed

lemma one_process:
  obtains s where "race_reachable g split s" and "files_r s = Map.empty" and "phases s = (\<lambda>_. Fresh)"
    and "procs s = Map.empty(7 \<mapsto> 1)" and "clock s = 2" and "removals s = 0"
proof -
  have "race_reachable g split (start_race\<lparr>procs := (procs start_race)(7 \<mapsto> clock start_race), clock := clock start_race + 1\<rparr>)"
    by (rule race_next [OF race_start], rule process_start) (simp add: start_race_def)
  from that [OF this] show thesis by (simp add: start_race_def)
qed

theorem lease_mutual_exclusion_witness:
  "\<exists>s. race_reachable demo_setting False s \<and> {j. writing (phases s j)} = {4}"
proof -
  obtain s where s: "race_reachable demo_setting False s" "files_r s = Map.empty" "phases s = (\<lambda>_. Fresh)"
      "procs s = Map.empty(7 \<mapsto> 1)"
    by (rule one_process [of demo_setting False])
  obtain s' where r: "race_reachable demo_setting False s'" and ph: "phases s' = (phases s)(4 := Holding)"
    by (rule fresh_acquires [OF s(1), of 4 7 1]) (simp_all add: s)
  have "writing (phases s' 4)" by (simp add: ph)
  from lease_mutual_exclusion [OF r inj_demo this] r show ?thesis by blast
qed

text \<open>The exclusion does not survive an interrupted reconciliation: \<open>reconcile\<close> inspects,
  then removes the path without looking again. Two reconcilers of a dead holder, with an
  acquisition between their removals, remove the new live holder's lease, and a second
  activation acquires: two activations are writing.\<close>

theorem interrupted_reconcile_two_writers:
  "\<exists>s. race_reachable g True s \<and> writing (phases s 1) \<and> writing (phases s 2)"
proof -
  obtain s where s: "race_reachable g True s" "files_r s = Map.empty" "phases s = (\<lambda>_. Fresh)"
      "procs s = Map.empty(7 \<mapsto> 1)" "clock s = 2" "removals s = 0"
    by (rule one_process [of g True])
  obtain s1 l where r1: "race_reachable g True s1" and s1: "holder l = \<lparr>pid = 7, startTicks = 1\<rparr>"
      "files_r s1 = [path_of g \<mapsto> Record l]" "phases s1 = (\<lambda>_. Fresh)(0 := Holding)" "home s1 = (home s)(0 := 7)"
      "procs s1 = Map.empty(7 \<mapsto> 1)" "clock s1 = 2" "removals s1 = 0"
    by (rule fresh_acquires [OF s(1), of 0 7 1]) (simp_all add: s)
  define s2 where "s2 = s1\<lparr>procs := (procs s1)(7 := None),
        phases := (\<lambda>i. if home s1 i = 7 \<and> phases s1 i \<noteq> Fresh then Gone else phases s1 i)\<rparr>"
  have r2: "race_reachable g True s2"
    unfolding s2_def by (rule race_next [OF r1], rule process_exit [where t = 1]) (simp add: s1)
  define rq where "rq = demo_rq P_safe_free"
  have ok2: "snd (decide (base_host g) (ws g) rq (inspect (base_host g) (probe_of s2) (files_r s2) (ws g)) 0)"
    by (simp add: approves_def inspect_def inspect_file_def probe_of_def path_of_def
        rq_def demo_rq_def PERMITTED_def s1 s2_def)
  have r3: "race_reachable g True (s2\<lparr>removals := Suc (removals s2)\<rparr>)"
    by (rule race_next [OF r2 check_reconcile [OF _ ok2]]) simp
  have ok: "snd (decide (base_host g) (ws g) rq (inspect (base_host g) (probe_of (s2\<lparr>removals := Suc (removals s2)\<rparr>))
        (files_r (s2\<lparr>removals := Suc (removals s2)\<rparr>)) (ws g)) 0)"
    using ok2 by (simp add: probe_of_def)
  obtain s4 where r4: "race_reachable g True s4" and s4: "files_r s4 = Map.empty" "procs s4 = Map.empty"
      "clock s4 = 2" "removals s4 = 1" "phases s4 = (\<lambda>_. Fresh)(0 := Gone)"
    using race_next [OF r3 reconcile_at_once [OF ok]] by (auto simp: s1 s2_def fun_eq_iff)
  obtain s5 where r5: "race_reachable g True s5" and s5: "files_r s5 = Map.empty" "procs s5 = Map.empty(8 \<mapsto> 2)"
      "removals s5 = 1" "phases s5 = (\<lambda>_. Fresh)(0 := Gone)"
    using race_next [OF r4 process_start [of s4 8]] by (auto simp: s4)
  obtain s6 where r6: "race_reachable g True s6" and s6: "procs s6 = Map.empty(8 \<mapsto> 2)" "removals s6 = 1"
      "phases s6 = (\<lambda>_. Fresh)(0 := Gone, 1 := Holding)"
    by (rule fresh_acquires [OF r5, of 1 8 2]) (simp_all add: s5)
  obtain s7 where r7: "race_reachable g True s7" and s7: "files_r s7 (path_of g) = None" "procs s7 = Map.empty(8 \<mapsto> 2)"
      "phases s7 = (\<lambda>_. Fresh)(0 := Gone, 1 := Holding)"
    using race_next [OF r6 commit_reconcile [of s6 0]] by (auto simp: s6)
  obtain s8 where "race_reachable g True s8" "phases s8 = (\<lambda>_. Fresh)(0 := Gone, 1 := Holding, 2 := Holding)"
    by (rule fresh_acquires [OF r7, of 2 8 2]) (simp_all add: s7)
  then show ?thesis by (intro exI [of _ s8]) simp
qed

end
