(* ===== verification/Json_Value.thy ===== *)
theory Json_Value imports Prelude begin

text \<open>
  JSON values and the texts the code stores. The keys of an object are listed in
  JavaScript's enumeration order. A stored text is known by what \<open>JSON.parse\<close> makes of it:
  two texts of one value are not told apart. Numbers are integers.
\<close>

datatype json =
    JNull
  | JBool bool
  | JNum int
  | JStr string
  | JArr "json list"
  | JObj "(string, json) js_map"

datatype json_text = Empty_text | Malformed | Text json

text \<open>\<open>JSON.parse\<close>: \<^term>\<open>None\<close> when it throws.\<close>

fun parse_json :: "json_text \<Rightarrow> json option" where
  "parse_json (Text j) = Some j"
| "parse_json _ = None"

text \<open>\<open>Boolean(v)\<close>, and \<open>typeof v === 'object'\<close> for a truthy \<open>v\<close>.\<close>

fun truthy_json :: "json \<Rightarrow> bool" where
  "truthy_json JNull = False"
| "truthy_json (JBool b) = b"
| "truthy_json (JNum n) = (n \<noteq> 0)"
| "truthy_json (JStr s) = (s \<noteq> [])"
| "truthy_json _ = True"

fun is_object :: "json \<Rightarrow> bool" where
  "is_object (JArr js) = True"
| "is_object (JObj m) = True"
| "is_object _ = False"

text \<open>\<open>Object.entries\<close>; spreading a value adds the same entries.\<close>

fun indexed :: "nat \<Rightarrow> 'a list \<Rightarrow> (string \<times> 'a) list" where
  "indexed n [] = []"
| "indexed n (x # xs) = (show_nat n, x) # indexed (Suc n) xs"

fun object_entries :: "json \<Rightarrow> (string \<times> json) list" where
  "object_entries (JObj m) = m"
| "object_entries (JArr js) = indexed 0 js"
| "object_entries (JStr s) = indexed 0 (map (\<lambda>c. JStr [c]) s)"
| "object_entries _ = []"

definition set_all :: "(string, json) js_map \<Rightarrow> (string \<times> json) list \<Rightarrow> (string, json) js_map" where
  "set_all m kvs = fold (\<lambda>(k, v) m. map_set m k v) kvs m"

text \<open>A key whose value is \<open>undefined\<close> is not written.\<close>

definition opt_key :: "string \<Rightarrow> json option \<Rightarrow> (string \<times> json) list" where
  "opt_key k v = (case v of Some j \<Rightarrow> [(k, j)] | None \<Rightarrow> [])"

definition field :: "json \<Rightarrow> string \<Rightarrow> json option" where
  "field j k = (case j of JObj m \<Rightarrow> map_get m k | _ \<Rightarrow> None)"

fun array_items :: "json option \<Rightarrow> json list" where
  "array_items (Some (JArr js)) = js"
| "array_items _ = []"

lemma field_JObj [simp]: "field (JObj m) k = map_get m k"
  by (simp add: field_def)

lemma set_all_simps [simp]:
  "set_all m [] = m"
  "set_all m ((k, v) # kvs) = set_all (map_set m k v) kvs"
  by (simp_all add: set_all_def)

lemma map_get_set_all_other: "k \<notin> fst ` set kvs \<Longrightarrow> map_get (set_all m kvs) k = map_get m k"
  by (induction kvs arbitrary: m) (auto simp: map_get_set)


lemma fst_set_set_all: "fst ` set (set_all m kvs) = fst ` set m \<union> fst ` set kvs"
proof (induction kvs arbitrary: m)
  case Nil
  then show ?case by simp
next
  case (Cons kv kvs)
  obtain k v where "kv = (k, v)" by (cases kv)
  then show ?case using Cons.IH [of "map_set m k v"] by (simp add: fst_set_map_set)
qed

end
