(* ===== verification/Job_Status.thy ===== *)
theory Job_Status imports Prelude begin

text \<open>
  A job's status row (\<open>SupervisorStatus\<close> of \<open>src/specialist/supervisor.ts\<close>, the fields the
  modelled components read or write; the others are carried along unread) and the liveness
  of its process: \<open>isPidAlive\<close> and \<open>isJobDead\<close> of \<open>supervisor.ts\<close> and \<open>isProcessAlive\<close> of
  \<open>src/specialist/process-liveness.ts\<close>. What the kernel answers is a parameter.
\<close>

datatype job_status = Starting | Running | Waiting | Done | Error | Cancelled

datatype chain_kind = Chain_kind | Prep_kind

record supervisor_status =
  st_id :: string
  st_specialist :: string
  st_status :: job_status
  st_pid :: "int option"
  st_started_at :: int
  st_last_event_at :: "int option"
  st_bead :: "string option"
  st_trace :: "string option"
  st_span :: "string option"
  st_parent_span :: "string option"
  st_tmux :: "string option"
  st_worktree_path :: "string option"
  st_worktree_owner :: "string option"
  st_chain_kind :: "chain_kind option"
  st_chain_id :: "string option"
  st_chain_root_job :: "string option"
  st_chain_root_bead :: "string option"
  st_epic :: "string option"
  st_error :: "string option"

definition ACTIVE_JOB_STATUSES :: "job_status list" where
  "ACTIVE_JOB_STATUSES = [Starting, Running, Waiting]"

section \<open>Liveness\<close>

text \<open>The answer of \<open>kill(pid, 0)\<close>: the process can be signalled, exists but may not be
  signalled, or does not exist.\<close>

datatype kill_answer = Signalled | Not_permitted | No_process

record process_host =
  kill_zero :: "int \<Rightarrow> kill_answer"
  proc_start_ms :: "int \<Rightarrow> int option"
  tmux_alive :: "string \<Rightarrow> bool"

definition isPidAlive :: "process_host \<Rightarrow> int \<Rightarrow> bool" where
  "isPidAlive ph q \<longleftrightarrow> 0 < q \<and> (case kill_zero ph q of Signalled \<Rightarrow> True | Not_permitted \<Rightarrow> True | No_process \<Rightarrow> False)"

definition isJobDead :: "process_host \<Rightarrow> supervisor_status \<Rightarrow> bool" where
  "isJobDead ph st =
     (if st_status st \<noteq> Starting \<and> st_status st \<noteq> Running \<and> st_status st \<noteq> Waiting then False
      else if (case st_pid st of Some q \<Rightarrow> \<not> isPidAlive ph q | None \<Rightarrow> False) then True
      else if (case st_tmux st of Some t \<Rightarrow> t \<noteq> [] \<and> \<not> tmux_alive ph t | None \<Rightarrow> False) then True
      else False)"

definition isAliveBySignal :: "process_host \<Rightarrow> int \<Rightarrow> bool" where
  "isAliveBySignal ph q = (case kill_zero ph q of Signalled \<Rightarrow> True | _ \<Rightarrow> False)"

definition isProcessAlive :: "process_host \<Rightarrow> int \<Rightarrow> int option \<Rightarrow> bool" where
  "isProcessAlive ph q start =
     (if \<not> 0 < q then False
      else if \<not> isAliveBySignal ph q then False
      else case start of None \<Rightarrow> True
        | Some t \<Rightarrow> (case proc_start_ms ph q of None \<Rightarrow> True | Some actual \<Rightarrow> \<bar>actual - t\<bar> \<le> 2000))"

end
