(* ===== verification/Epic_Lifecycle.thy ===== *)
theory Epic_Lifecycle imports Json_Value Job_Status begin

text \<open>
  \<open>src/specialist/epic-lifecycle.ts\<close>, the states of \<open>src/specialist/node-contract.ts\<close> and
  \<open>src/specialist/chain-identity.ts\<close>: transition tables, the merge-readiness summary, the
  transition audit kept in an epic's \<open>status_json\<close>, and the identity of a chain.
\<close>

section \<open>Transition tables\<close>

text \<open>
  A table of allowed moves, the operation that checks a move against it, and the state an
  operator can always stop in. A run of checked moves is refused at the first illegal one.
\<close>

locale transition_table =
  fixes nexts :: "'s \<Rightarrow> 's list"
    and move :: "'s \<Rightarrow> 's \<Rightarrow> 'e + 's"
    and stop :: 's
  assumes move_allowed: "t \<in> set (nexts s) \<Longrightarrow> move s t = Inr t"
    and move_refused: "t \<notin> set (nexts s) \<Longrightarrow> \<exists>e. move s t = Inl e"
    and stop_final: "nexts stop = []"
    and stop_open: "nexts s \<noteq> [] \<Longrightarrow> stop \<in> set (nexts s)"
begin

fun moves :: "'s \<Rightarrow> 's list \<Rightarrow> 'e + 's" where
  "moves s [] = Inr s"
| "moves s (t # ts) = (case move s t of Inl e \<Rightarrow> Inl e | Inr u \<Rightarrow> moves u ts)"

lemma move_Inr_iff: "move s t = Inr u \<longleftrightarrow> u = t \<and> t \<in> set (nexts s)"
  using move_allowed move_refused by (metis Inl_Inr_False sum.inject(2))

lemma moves_Inr_iff:
  "moves s ts = Inr u \<longleftrightarrow> successively (\<lambda>a b. b \<in> set (nexts a)) (s # ts) \<and> u = last (s # ts)"
proof (induction ts arbitrary: s)
  case Nil
  then show ?case by auto
next
  case (Cons t ts)
  show ?case
  proof (cases "t \<in> set (nexts s)")
    case True
    then show ?thesis using Cons.IH [of t] by (simp add: move_allowed)
  next
    case False
    then obtain e where "move s t = Inl e" using move_refused by blast
    then show ?thesis using False by simp
  qed
qed

lemma moves_final: "nexts s = [] \<Longrightarrow> moves s ts = Inr u \<Longrightarrow> u = s \<and> ts = []"
  using moves_Inr_iff [of s ts u] by (cases ts) auto

lemma moves_stop: "moves s ts = Inr u \<Longrightarrow> nexts u \<noteq> [] \<Longrightarrow> moves s (ts @ [stop]) = Inr stop"
  by (auto simp: moves_Inr_iff successively_append_iff stop_open simp flip: append_Cons)

end

section \<open>Epic states\<close>

datatype epic_state = Open_epic | Resolving | Merge_ready | Merged | Failed_epic | Abandoned

datatype epic_error = Epic_error string

fun epic_state_text :: "epic_state \<Rightarrow> string" where
  "epic_state_text Open_epic = ''open''"
| "epic_state_text Resolving = ''resolving''"
| "epic_state_text Merge_ready = ''merge_ready''"
| "epic_state_text Merged = ''merged''"
| "epic_state_text Failed_epic = ''failed''"
| "epic_state_text Abandoned = ''abandoned''"

definition EPIC_STATES :: "epic_state list" where
  "EPIC_STATES = [Open_epic, Resolving, Merge_ready, Merged, Failed_epic, Abandoned]"

definition EPIC_TERMINAL_STATES :: "epic_state list" where
  "EPIC_TERMINAL_STATES = [Merged, Failed_epic, Abandoned]"

fun VALID_EPIC_TRANSITIONS :: "epic_state \<Rightarrow> epic_state list" where
  "VALID_EPIC_TRANSITIONS Open_epic = [Resolving, Abandoned]"
| "VALID_EPIC_TRANSITIONS Resolving = [Merge_ready, Failed_epic, Abandoned]"
| "VALID_EPIC_TRANSITIONS Merge_ready = [Merged, Failed_epic, Abandoned, Resolving]"
| "VALID_EPIC_TRANSITIONS Merged = []"
| "VALID_EPIC_TRANSITIONS Failed_epic = [Abandoned]"
| "VALID_EPIC_TRANSITIONS Abandoned = []"

record epic_run =
  run_epic :: string
  run_status :: epic_state
  run_updated :: int
  run_json :: json_text

record epic_chain =
  chain_key :: string
  chain_epic :: string
  chain_root_bead :: "string option"
  chain_root_job :: "string option"
  chain_updated :: int

definition isEpicTerminalState :: "epic_state \<Rightarrow> bool" where
  "isEpicTerminalState s \<longleftrightarrow> s \<in> set EPIC_TERMINAL_STATES"

definition isEpicUnresolvedState :: "epic_state \<Rightarrow> bool" where
  "isEpicUnresolvedState s \<longleftrightarrow> \<not> isEpicTerminalState s"

definition canTransitionEpicState :: "epic_state \<Rightarrow> epic_state \<Rightarrow> bool" where
  "canTransitionEpicState s t \<longleftrightarrow> t \<in> set (VALID_EPIC_TRANSITIONS s)"

definition transitionEpicState :: "epic_state \<Rightarrow> epic_state \<Rightarrow> epic_error + epic_state" where
  "transitionEpicState s t =
     (if \<not> canTransitionEpicState s t
      then Inl (Epic_error (''Invalid epic transition: '' @ epic_state_text s @ '' -> '' @ epic_state_text t))
      else Inr t)"

definition summarizeEpicTransition :: "string \<Rightarrow> epic_state \<Rightarrow> epic_state \<Rightarrow> string" where
  "summarizeEpicTransition epic s t =
     ''Epic '' @ epic @ '': '' @ epic_state_text s @ '' -> '' @ epic_state_text t"

interpretation epics: transition_table VALID_EPIC_TRANSITIONS transitionEpicState Abandoned
proof
  show "Abandoned \<in> set (VALID_EPIC_TRANSITIONS s)" if "VALID_EPIC_TRANSITIONS s \<noteq> []" for s
    using that by (cases s) auto
qed (auto simp: transitionEpicState_def canTransitionEpicState_def)

section \<open>Node states\<close>

datatype node_state = Created | Starting_node | Running_node | Waiting_node | Degraded | Awaiting_merge
  | Fixing_after_review | Failed_node | Error_node | Done_node | Stopped

fun VALID_STATE_TRANSITIONS :: "node_state \<Rightarrow> node_state list" where
  "VALID_STATE_TRANSITIONS Created = [Starting_node, Stopped]"
| "VALID_STATE_TRANSITIONS Starting_node = [Running_node, Error_node, Stopped]"
| "VALID_STATE_TRANSITIONS Running_node = [Waiting_node, Degraded, Awaiting_merge, Done_node, Error_node, Stopped, Failed_node]"
| "VALID_STATE_TRANSITIONS Waiting_node = [Running_node, Degraded, Awaiting_merge, Done_node, Error_node, Stopped, Failed_node]"
| "VALID_STATE_TRANSITIONS Degraded = [Running_node, Fixing_after_review, Failed_node, Error_node, Stopped]"
| "VALID_STATE_TRANSITIONS Awaiting_merge = [Done_node, Fixing_after_review, Failed_node, Error_node, Stopped]"
| "VALID_STATE_TRANSITIONS Fixing_after_review = [Awaiting_merge, Running_node, Failed_node, Error_node, Stopped]"
| "VALID_STATE_TRANSITIONS Failed_node = []"
| "VALID_STATE_TRANSITIONS Error_node = []"
| "VALID_STATE_TRANSITIONS Done_node = []"
| "VALID_STATE_TRANSITIONS Stopped = []"

fun node_state_text :: "node_state \<Rightarrow> string" where
  "node_state_text Created = ''created''"
| "node_state_text Starting_node = ''starting''"
| "node_state_text Running_node = ''running''"
| "node_state_text Waiting_node = ''waiting''"
| "node_state_text Degraded = ''degraded''"
| "node_state_text Awaiting_merge = ''awaiting_merge''"
| "node_state_text Fixing_after_review = ''fixing_after_review''"
| "node_state_text Failed_node = ''failed''"
| "node_state_text Error_node = ''error''"
| "node_state_text Done_node = ''done''"
| "node_state_text Stopped = ''stopped''"

text \<open>The check of \<open>NodeSupervisor\<close> before a transition; the move is the assignment after it.\<close>

definition validateTransition :: "node_state \<Rightarrow> node_state \<Rightarrow> epic_error + node_state" where
  "validateTransition s t =
     (if t \<notin> set (VALID_STATE_TRANSITIONS s)
      then Inl (Epic_error (''Invalid NodeSupervisor transition: '' @ node_state_text s @ '' -> '' @ node_state_text t))
      else Inr t)"


interpretation nodes: transition_table VALID_STATE_TRANSITIONS validateTransition Stopped
proof
  show "Stopped \<in> set (VALID_STATE_TRANSITIONS s)" if "VALID_STATE_TRANSITIONS s \<noteq> []" for s
    using that by (cases s) auto
qed (auto simp: validateTransition_def)

section \<open>Chains\<close>

definition resolveChainId :: "supervisor_status \<Rightarrow> string option" where
  "resolveChainId st =
     (if truthy (st_chain_id st) then st_chain_id st
      else if truthy (st_worktree_owner st) then st_worktree_owner st
      else if truthy (st_worktree_path st) then Some (st_id st)
      else None)"

record root_snapshot =
  snap_bead :: "string option"
  snap_root_bead :: "string option"
  snap_trace :: "string option"
  snap_span :: "string option"
  snap_parent_span :: "string option"

record chain_identity =
  id_kind :: chain_kind
  id_chain :: "string option"
  id_root_job :: "string option"
  id_root_bead :: "string option"
  id_trace :: "string option"
  id_span :: "string option"
  id_parent_span :: "string option"

definition isChainKind :: "string option \<Rightarrow> bool" where
  "isChainKind v \<longleftrightarrow> v = Some ''chain'' \<or> v = Some ''prep''"

text \<open>\<open>uuid\<close> is what \<open>randomUUID()\<close> gives this call.\<close>

definition derivePersistedChainIdentity ::
  "string \<Rightarrow> supervisor_status \<Rightarrow> root_snapshot option \<Rightarrow> chain_identity" where
  "derivePersistedChainIdentity uuid st snap =
     (let isChainJob = truthy (st_worktree_path st) \<or> truthy (st_worktree_owner st)
            \<or> truthy (st_chain_id st) \<or> truthy (st_chain_root_job st) in
      if \<not> isChainJob
      then \<lparr>id_kind = Prep_kind, id_chain = None, id_root_job = None, id_root_bead = None,
            id_trace = None, id_span = None, id_parent_span = None\<rparr>
      else
        let rootJob = nullish (st_chain_root_job st) (nullish (st_worktree_owner st) (Some (st_id st)));
            chainId = nullish (st_chain_id st) rootJob;
            rootBead = nullish (st_chain_root_bead st)
              (nullish (if rootJob = Some (st_id st) then st_bead st else None)
              (nullish (Option.bind snap snap_root_bead) (Option.bind snap snap_bead)))
        in \<lparr>id_kind = Chain_kind, id_chain = chainId, id_root_job = rootJob, id_root_bead = rootBead,
            id_trace = nullish (st_trace st) (nullish (Option.bind snap snap_trace) (Some uuid)),
            id_span = nullish (st_span st) (Option.bind snap snap_span),
            id_parent_span = nullish (st_parent_span st) (Option.bind snap snap_parent_span)\<rparr>)"

section \<open>Merge readiness\<close>

record chain_status =
  cs_chain :: string
  hasRunningJob :: bool

record merge_readiness =
  mr_epic :: string
  mr_status :: epic_state
  mr_ready :: bool
  mr_blocking :: "string list"
  mr_summary :: string

definition evaluateEpicMergeReadiness :: "string \<Rightarrow> epic_state \<Rightarrow> chain_status list \<Rightarrow> merge_readiness" where
  "evaluateEpicMergeReadiness epic status cs =
     (let blockingChains = map cs_chain (filter hasRunningJob cs);
          isReady = (length blockingChains = 0) in
      if \<not> isReady
      then \<lparr>mr_epic = epic, mr_status = status, mr_ready = isReady, mr_blocking = blockingChains,
            mr_summary = ''Epic '' @ epic @ '' is blocked by active chains: '' @ join '', '' blockingChains @ ''.''\<rparr>
      else if status = Merged \<or> status = Abandoned
      then \<lparr>mr_epic = epic, mr_status = status, mr_ready = isReady, mr_blocking = blockingChains,
            mr_summary = ''Epic '' @ epic @ '' is '' @ epic_state_text status @ ''; live chains are terminal.''\<rparr>
      else \<lparr>mr_epic = epic, mr_status = status, mr_ready = isReady, mr_blocking = blockingChains,
            mr_summary = ''Epic '' @ epic @ '' is live-ready and all chains are terminal.''\<rparr>)"

section \<open>The transition audit\<close>

record audit_entry =
  au_from :: epic_state
  au_to :: epic_state
  au_at :: int
  au_reason :: "string option"
  au_trigger :: "string option"
  au_forced :: "bool option"

definition audit_json :: "audit_entry \<Rightarrow> json" where
  "audit_json e = JObj
     ([(''from'', JStr (epic_state_text (au_from e))), (''to'', JStr (epic_state_text (au_to e))),
       (''at_ms'', JNum (au_at e))]
      @ opt_key ''reason'' (map_option JStr (au_reason e))
      @ opt_key ''trigger'' (map_option JStr (au_trigger e))
      @ opt_key ''forced'' (map_option JBool (au_forced e)))"

definition audit_base :: "json_text option \<Rightarrow> json" where
  "audit_base t =
     (case Option.bind t parse_json of
        Some j \<Rightarrow> if truthy_json j \<and> is_object j then j else JObj [(''transitions'', JArr [])]
      | None \<Rightarrow> JObj [(''transitions'', JArr [])])"

definition appendEpicTransitionAudit :: "json_text option \<Rightarrow> audit_entry \<Rightarrow> json_text" where
  "appendEpicTransitionAudit t e =
     (let parsed = audit_base t;
          previous = filter (\<lambda>j. truthy_json j \<and> is_object j) (array_items (field parsed ''transitions''))
      in Text (JObj (map_set (set_all [] (object_entries parsed)) ''transitions''
                       (JArr (previous @ [audit_json e])))))"

text \<open>The recorded transitions, as any reader of \<open>status_json\<close> finds them.\<close>

definition audit_trail :: "json_text option \<Rightarrow> json list" where
  "audit_trail t =
     (case Option.bind t parse_json of Some j \<Rightarrow> array_items (field j ''transitions'') | None \<Rightarrow> [])"


section \<open>Lemmas\<close>

lemma map_get_indexed_fresh: "\<forall>n. show_nat n \<noteq> k \<Longrightarrow> k \<notin> fst ` set (indexed n xs)"
  by (induction n xs rule: indexed.induct) auto

lemma map_get_set_all:
  "map_ok kvs \<Longrightarrow> map_get (set_all m kvs) k = (case map_get kvs k of Some v \<Rightarrow> Some v | None \<Rightarrow> map_get m k)"
proof (induction kvs arbitrary: m)
  case Nil
  then show ?case by simp
next
  case (Cons kv kvs)
  obtain k' v where kv: "kv = (k', v)" by (cases kv)
  have ok: "map_ok kvs" and new: "map_get kvs k' = None"
    using Cons.prems by (auto simp: map_ok_def map_get_None_iff kv)
  show ?case
    using Cons.IH [OF ok, of "map_set m k' v"] new
    by (auto simp: kv map_get_set split: option.splits)
qed

lemma merge_ready_blocking:
  "mr_ready (evaluateEpicMergeReadiness epic status cs) = (\<forall>c \<in> set cs. \<not> hasRunningJob c)"
  "mr_blocking (evaluateEpicMergeReadiness epic status cs) = map cs_chain (filter hasRunningJob cs)"
  by (auto simp: evaluateEpicMergeReadiness_def Let_def filter_empty_conv)

text \<open>One append, as a reader of the document sees it.\<close>

lemma map_ok_set_all: "map_ok m \<Longrightarrow> map_ok (set_all m kvs)" for m :: "(string, json) js_map"
  by (induction kvs arbitrary: m) auto

lemma append_audit_text:
  "\<exists>m. appendEpicTransitionAudit t e = Text (JObj m) \<and> map_ok m \<and> map_get m ''transitions''
     = Some (JArr (filter (\<lambda>j. truthy_json j \<and> is_object j) (audit_trail t) @ [audit_json e]))"
proof -
  have "array_items (field (audit_base t) ''transitions'') = audit_trail t"
    by (auto simp: audit_base_def audit_trail_def field_def split: option.splits json.splits)
  then show ?thesis
    by (simp add: appendEpicTransitionAudit_def map_ok_set_all map_get_set Let_def)
qed

lemma append_audit_trail:
  "audit_trail (Some (appendEpicTransitionAudit t e))
     = filter (\<lambda>j. truthy_json j \<and> is_object j) (audit_trail t) @ [audit_json e]"
  using append_audit_text [of t e] by (auto simp: audit_trail_def)

lemma append_audit_keys:
  assumes "t = Some (Text (JObj m))" and "map_ok m" and "k \<noteq> ''transitions''"
  shows "field (the (parse_json (appendEpicTransitionAudit t e))) k = map_get m k"
  using assms by (simp add: appendEpicTransitionAudit_def audit_base_def map_get_set_all map_get_set
      Let_def split: option.splits)

section \<open>Properties\<close>

text \<open>A run of checked epic transitions ends where its moves say, is refused exactly when
  a move is not in the table, never leaves \<open>merged\<close> or \<open>abandoned\<close>, can from any other
  state be ended by abandoning, and reaches \<open>merged\<close> only from \<open>merge_ready\<close>.\<close>

theorem epic_transition_runs:
  "(epics.moves s ts = Inr u) =
      (successively (\<lambda>a b. b \<in> set (VALID_EPIC_TRANSITIONS a)) (s # ts) \<and> u = last (s # ts))
   \<and> (epics.moves s ts = Inr u \<and> s \<in> {Merged, Abandoned} \<longrightarrow> ts = [])
   \<and> (epics.moves s ts = Inr u \<and> u \<notin> {Merged, Abandoned} \<longrightarrow> epics.moves s (ts @ [Abandoned]) = Inr Abandoned)
   \<and> (epics.moves s (ts @ [Merged]) = Inr Merged \<longrightarrow> epics.moves s ts = Inr Merge_ready)"
proof (intro conjI impI)
  show "(epics.moves s ts = Inr u) =
      (successively (\<lambda>a b. b \<in> set (VALID_EPIC_TRANSITIONS a)) (s # ts) \<and> u = last (s # ts))"
    by (rule epics.moves_Inr_iff)
  show "ts = []" if "epics.moves s ts = Inr u \<and> s \<in> {Merged, Abandoned}"
    using that epics.moves_final [of s ts u] by auto
  show "epics.moves s (ts @ [Abandoned]) = Inr Abandoned"
    if "epics.moves s ts = Inr u \<and> u \<notin> {Merged, Abandoned}"
    using that by (intro epics.moves_stop [of s ts u]) (cases u, auto)+
  show "epics.moves s ts = Inr Merge_ready" if m: "epics.moves s (ts @ [Merged]) = Inr Merged"
  proof -
    have run: "successively (\<lambda>a b. b \<in> set (VALID_EPIC_TRANSITIONS a)) (s # ts)"
      and step: "Merged \<in> set (VALID_EPIC_TRANSITIONS (last (s # ts)))"
      using m unfolding epics.moves_Inr_iff by (auto simp: successively_append_iff simp flip: append_Cons)
    from step have "last (s # ts) = Merge_ready" by (cases "last (s # ts)") (simp_all del: last.simps)
    with run show ?thesis unfolding epics.moves_Inr_iff by simp
  qed
qed

theorem epic_transition_runs_witness:
  "epics.moves Open_epic [Resolving, Merge_ready, Resolving, Merge_ready] = Inr Merge_ready
   \<and> epics.moves Open_epic [Resolving, Merge_ready, Resolving, Merge_ready, Merged] = Inr Merged"
  using epic_transition_runs [of Open_epic "[Resolving, Merge_ready, Resolving, Merge_ready]" Merge_ready]
    epic_transition_runs [of Open_epic "[Resolving, Merge_ready, Resolving, Merge_ready, Merged]" Merged]
  by simp

text \<open>The audit kept in an epic's \<open>status_json\<close> only grows: whatever the old text was,
  even unparsable, the new one parses, keeps the recorded transitions in order and has the
  new one last; every other key of an object reads as before.\<close>

theorem audit_append_only:
  "audit_trail (Some (appendEpicTransitionAudit t e))
     = filter (\<lambda>j. truthy_json j \<and> is_object j) (audit_trail t) @ [audit_json e]
   \<and> (\<exists>j. parse_json (appendEpicTransitionAudit t e) = Some j
        \<and> (t = Some (Text (JObj m)) \<and> map_ok m \<longrightarrow> (\<forall>k. k \<noteq> ''transitions'' \<longrightarrow> field j k = map_get m k)))"
proof -
  obtain j where j: "parse_json (appendEpicTransitionAudit t e) = Some j"
    using append_audit_text [of t e] by auto
  then show ?thesis
    using append_audit_trail [of t e] append_audit_keys [of t m _ e] by auto
qed

definition demo_audit :: audit_entry where
  "demo_audit = \<lparr>au_from = Open_epic, au_to = Abandoned, au_at = 1, au_reason = Some ''x'', au_trigger = None, au_forced = None\<rparr>"

theorem audit_append_only_witness:
  "\<exists>j. parse_json (appendEpicTransitionAudit (Some (Text (JObj [(''status'', JStr ''open'')]))) demo_audit) = Some j
     \<and> field j ''status'' = Some (JStr ''open'')"
proof -
  have ok: "map_ok [(''status'', JStr ''open'')]" by (simp add: map_ok_def)
  show ?thesis
    using audit_append_only [of "Some (Text (JObj [(''status'', JStr ''open'')]))" demo_audit
        "[(''status'', JStr ''open'')]"] ok by auto
qed

end
