(* ===== verification/Observability_Store.thy ===== *)
theory Observability_Store imports Epic_Lifecycle begin

text \<open>
  The tables of \<open>src/specialist/observability-sqlite.ts\<close> that epics live in: jobs, epic
  runs, chain memberships and results, with the queries and upserts the code runs on them.
  A table lists its rows in the order they were first inserted; an upsert of a present key
  replaces the row in place; \<open>ORDER BY\<close> is a stable sort. The database accepts every write
  (no \<open>SQLITE_BUSY\<close>, no full disk), and rows hold documents that parse.
\<close>

record job_row =
  row_updated :: int
  row_status :: supervisor_status

record store =
  job_rows :: "(string, job_row) js_map"
  epic_rows :: "(string, epic_run) js_map"
  chain_rows :: "(string, epic_chain) js_map"
  result_rows :: "(string, string) js_map"

definition upsertStatus :: "int \<Rightarrow> supervisor_status \<Rightarrow> store \<Rightarrow> store" where
  "upsertStatus now st db =
     db\<lparr>job_rows := map_set (job_rows db) (st_id st) \<lparr>row_updated = now, row_status = st\<rparr>\<rparr>"

definition writeEpicRunRow :: "epic_run \<Rightarrow> store \<Rightarrow> store" where
  "writeEpicRunRow e db = db\<lparr>epic_rows := map_set (epic_rows db) (run_epic e) e\<rparr>"

definition upsertEpicRun :: "epic_run \<Rightarrow> store \<Rightarrow> store" where
  "upsertEpicRun e db = writeEpicRunRow e db"

definition writeEpicChainMembershipRow :: "epic_chain \<Rightarrow> store \<Rightarrow> store" where
  "writeEpicChainMembershipRow c db = db\<lparr>chain_rows := map_set (chain_rows db) (chain_key c) c\<rparr>"

definition upsertEpicChainMembership :: "epic_chain \<Rightarrow> store \<Rightarrow> store" where
  "upsertEpicChainMembership c db = writeEpicChainMembershipRow c db"

definition listStatuses :: "store \<Rightarrow> supervisor_status list" where
  "listStatuses db = map row_status (sort_key (\<lambda>r. - row_updated r) (map_values (job_rows db)))"

definition readEpicRun :: "store \<Rightarrow> string \<Rightarrow> epic_run option" where
  "readEpicRun db epic = map_get (epic_rows db) epic"

definition listEpicRuns :: "store \<Rightarrow> epic_run list" where
  "listEpicRuns db = sort_key (\<lambda>e. - run_updated e) (map_values (epic_rows db))"

definition resolveEpicByChainId :: "store \<Rightarrow> string \<Rightarrow> epic_chain option" where
  "resolveEpicByChainId db chain = map_get (chain_rows db) chain"

definition listEpicChains :: "store \<Rightarrow> string \<Rightarrow> epic_chain list" where
  "listEpicChains db epic =
     sort_key (\<lambda>c. - chain_updated c) (filter (\<lambda>c. chain_epic c = epic) (map_values (chain_rows db)))"

definition deleteEpicChainMembership :: "string \<Rightarrow> string list \<Rightarrow> store \<Rightarrow> string list \<times> store" where
  "deleteEpicChainMembership epic chainIds db =
     (if chainIds = [] then ([], db)
      else
        let existing = map chain_key (filter (\<lambda>c. chain_epic c = epic) (map_values (chain_rows db)));
            removable = filter (\<lambda>c. c \<in> set existing) chainIds in
        if removable = [] then ([], db)
        else (removable, db\<lparr>chain_rows :=
               filter (\<lambda>(k, c). \<not> (chain_epic c = epic \<and> k \<in> set removable)) (chain_rows db)\<rparr>))"

definition listChainJobIds :: "store \<Rightarrow> string \<Rightarrow> string list" where
  "listChainJobIds db chain =
     filter (\<lambda>i. i \<noteq> [])
       (map fst (sort_key (\<lambda>kr. row_updated (snd kr))
          (filter (\<lambda>kr. st_chain_id (row_status (snd kr)) = Some chain) (job_rows db))))"

definition readResult :: "store \<Rightarrow> string \<Rightarrow> string option" where
  "readResult db job = map_get (result_rows db) job"

text \<open>Each table is keyed by the key its rows carry.\<close>

definition store_ok :: "store \<Rightarrow> bool" where
  "store_ok db \<longleftrightarrow>
     map_ok (job_rows db) \<and> (\<forall>(k, r) \<in> set (job_rows db). st_id (row_status r) = k)
   \<and> map_ok (epic_rows db) \<and> (\<forall>(k, e) \<in> set (epic_rows db). run_epic e = k)
   \<and> map_ok (chain_rows db) \<and> (\<forall>(k, c) \<in> set (chain_rows db). chain_key c = k)"

lemma set_map_set: "map_ok m \<Longrightarrow> set (map_set m k v) = insert (k, v) {kv \<in> set m. fst kv \<noteq> k}"
  by (induction m k v rule: map_set.induct) (auto simp: map_ok_def rev_image_eqI)

lemma set_listStatuses [simp]: "set (listStatuses db) = row_status ` snd ` set (job_rows db)"
  by (simp add: listStatuses_def map_values_def)

lemma set_listEpicChains [simp]:
  "set (listEpicChains db epic) = {c. chain_epic c = epic \<and> c \<in> snd ` set (chain_rows db)}"
  by (auto simp: listEpicChains_def map_values_def)

lemma set_listChainJobIds [simp]:
  "set (listChainJobIds db chain) =
     {k. k \<noteq> [] \<and> (\<exists>r. (k, r) \<in> set (job_rows db) \<and> st_chain_id (row_status r) = Some chain)}"
  by (force simp: listChainJobIds_def)

lemma read_upsertEpicRun [simp]:
  "readEpicRun (upsertEpicRun e db) k = (if k = run_epic e then Some e else readEpicRun db k)"
  by (simp add: readEpicRun_def upsertEpicRun_def writeEpicRunRow_def map_get_set)

lemma upsertEpicRun_frame [simp]:
  "job_rows (upsertEpicRun e db) = job_rows db"
  "chain_rows (upsertEpicRun e db) = chain_rows db"
  "result_rows (upsertEpicRun e db) = result_rows db"
  by (simp_all add: upsertEpicRun_def writeEpicRunRow_def)

lemma upsertStatus_frame [simp]:
  "epic_rows (upsertStatus now st db) = epic_rows db"
  "chain_rows (upsertStatus now st db) = chain_rows db"
  "result_rows (upsertStatus now st db) = result_rows db"
  by (simp_all add: upsertStatus_def)

lemma deleteEpicChainMembership_frame [simp]:
  "epic_rows (snd (deleteEpicChainMembership epic cs db)) = epic_rows db"
  "job_rows (snd (deleteEpicChainMembership epic cs db)) = job_rows db"
  "result_rows (snd (deleteEpicChainMembership epic cs db)) = result_rows db"
  by (simp_all add: deleteEpicChainMembership_def Let_def)

lemma store_ok_upsertEpicRun: "store_ok db \<Longrightarrow> store_ok (upsertEpicRun e db)"
  by (auto simp: store_ok_def upsertEpicRun_def writeEpicRunRow_def set_map_set)

lemma store_ok_upsertStatus: "store_ok db \<Longrightarrow> store_ok (upsertStatus now st db)"
  by (auto simp: store_ok_def upsertStatus_def set_map_set)

lemma store_ok_delete: "store_ok db \<Longrightarrow> store_ok (snd (deleteEpicChainMembership epic cs db))"
  by (auto simp: store_ok_def deleteEpicChainMembership_def Let_def map_ok_def distinct_map_filter)

lemma chains_after_delete:
  assumes "store_ok db"
  shows "set (chain_rows (snd (deleteEpicChainMembership epic cs db)))
     = {kc \<in> set (chain_rows db). \<not> (chain_epic (snd kc) = epic \<and> fst kc \<in> set cs)}"
proof -
  define removable where "removable = filter
    (\<lambda>c. c \<in> set (map chain_key (filter (\<lambda>c. chain_epic c = epic) (map_values (chain_rows db))))) cs"
  have key: "chain_key c = k" if "(k, c) \<in> set (chain_rows db)" for k c
    using assms that by (auto simp: store_ok_def)
  have mem: "(k \<in> set removable) = (k \<in> set cs)" if "(k, c) \<in> set (chain_rows db)" "chain_epic c = epic" for k c
    using that key [OF that(1)] by (force simp: removable_def map_values_def)
  have "set (chain_rows (snd (deleteEpicChainMembership epic cs db)))
      = {kc \<in> set (chain_rows db). \<not> (chain_epic (snd kc) = epic \<and> fst kc \<in> set removable)}"
  proof (cases "removable = []")
    case True
    then have "deleteEpicChainMembership epic cs db = ([], db)"
      unfolding deleteEpicChainMembership_def Let_def removable_def [symmetric] by simp
    then show ?thesis using True by simp
  next
    case False
    then have "cs \<noteq> []" by (auto simp: removable_def)
    then have "snd (deleteEpicChainMembership epic cs db) = db\<lparr>chain_rows :=
        filter (\<lambda>(k, c). \<not> (chain_epic c = epic \<and> k \<in> set removable)) (chain_rows db)\<rparr>"
      using False unfolding deleteEpicChainMembership_def Let_def removable_def [symmetric] by simp
    then show ?thesis by auto
  qed
  then show ?thesis using mem by force
qed

end
