(* ===== verification/Epic_Readiness.thy ===== *)
theory Epic_Readiness imports Observability_Store begin

text \<open>
  \<open>src/specialist/epic-readiness.ts\<close>: what the live jobs of an epic say about it. A chain is
  judged by its jobs and its latest reviewer verdict, the epic by its chains and its
  preparatory jobs; the persisted row is a cache of that judgement.
\<close>

section \<open>Data\<close>

datatype reviewer_verdict = Pass | Partial | Fail | Missing

datatype chain_state = Chain_pending | Chain_blocked | Chain_pass | Chain_failed

datatype readiness_state = R_unresolved | R_resolving | R_blocked | R_failed | R_merge_ready | R_merged | R_abandoned

record evaluator_job =
  ej_id :: string
  ej_specialist :: string
  ej_status :: job_status
  ej_pid :: "int option"
  ej_started_at :: int
  ej_result :: "string option"

record chain_summary =
  ch_id :: string
  ch_root_bead :: "string option"
  ch_state :: chain_state
  ch_verdict :: reviewer_verdict
  ch_reason :: "string option"
  ch_active :: bool
  ch_jobs :: "string list"

record prep_summary =
  prep_total :: nat
  prep_done :: nat
  prep_running :: nat
  prep_failed :: nat
  prep_blockers :: "string list"

record epic_summary =
  es_epic :: string
  es_persisted :: epic_state
  es_readiness :: readiness_state
  es_next :: epic_state
  es_can_transition :: bool
  es_prep :: prep_summary
  es_chains :: "chain_summary list"
  es_blockers :: "string list"
  es_summary :: string

record chain_input =
  ci_chain :: string
  ci_root_bead :: "string option"
  ci_jobs :: "evaluator_job list"

definition TERMINAL_JOB_STATUSES :: "job_status list" where
  "TERMINAL_JOB_STATUSES = [Done, Error]"

fun verdict_text :: "reviewer_verdict \<Rightarrow> string" where
  "verdict_text Pass = ''pass''"
| "verdict_text Partial = ''partial''"
| "verdict_text Fail = ''fail''"
| "verdict_text Missing = ''missing''"

fun chain_state_text :: "chain_state \<Rightarrow> string" where
  "chain_state_text Chain_pending = ''pending''"
| "chain_state_text Chain_blocked = ''blocked''"
| "chain_state_text Chain_pass = ''pass''"
| "chain_state_text Chain_failed = ''failed''"

fun readiness_text :: "readiness_state \<Rightarrow> string" where
  "readiness_text R_unresolved = ''unresolved''"
| "readiness_text R_resolving = ''resolving''"
| "readiness_text R_blocked = ''blocked''"
| "readiness_text R_failed = ''failed''"
| "readiness_text R_merge_ready = ''merge_ready''"
| "readiness_text R_merged = ''merged''"
| "readiness_text R_abandoned = ''abandoned''"

section \<open>The reviewer's verdict\<close>

text \<open>
  The leftmost match of \<open>/Verdict:\s*\**\s*(PASS|PARTIAL|FAIL)\s*\**/i\<close>. The classes \<open>\s\<close>, \<open>*\<close>
  and the words share no character, so the greedy skips need no backtracking, and what
  follows the word cannot fail.
\<close>

definition verdict_at :: "string \<Rightarrow> reviewer_verdict option" where
  "verdict_at s =
     (if \<not> starts_with ''verdict:'' (to_lower s) then None
      else
        let rest = to_lower (dropWhile is_space (dropWhile (\<lambda>c. c = CHR ''*'') (dropWhile is_space (drop 8 s)))) in
        if starts_with ''pass'' rest then Some Pass
        else if starts_with ''partial'' rest then Some Partial
        else if starts_with ''fail'' rest then Some Fail
        else None)"

fun first_verdict :: "string \<Rightarrow> reviewer_verdict option" where
  "first_verdict [] = None"
| "first_verdict (c # cs) =
     (case verdict_at (c # cs) of Some v \<Rightarrow> Some v | None \<Rightarrow> first_verdict cs)"

definition parseReviewerVerdict :: "string option \<Rightarrow> reviewer_verdict" where
  "parseReviewerVerdict out =
     (case out of None \<Rightarrow> Missing
      | Some s \<Rightarrow> (case first_verdict s of Some v \<Rightarrow> v | None \<Rightarrow> Missing))"

section \<open>A chain\<close>

definition dead_job :: "process_host \<Rightarrow> evaluator_job \<Rightarrow> bool" where
  "dead_job ph j \<longleftrightarrow>
     (case ej_pid j of Some q \<Rightarrow> \<not> isProcessAlive ph q (Some (ej_started_at j)) | None \<Rightarrow> False)"

definition evaluateChainReadiness ::
  "process_host \<Rightarrow> string \<Rightarrow> evaluator_job list \<Rightarrow> string option \<Rightarrow> chain_summary" where
  "evaluateChainReadiness ph chainId jobs rootBead =
     (let summary = (\<lambda>state verdict why active ids.
            \<lparr>ch_id = chainId, ch_root_bead = rootBead, ch_state = state, ch_verdict = verdict,
             ch_reason = why, ch_active = active, ch_jobs = ids\<rparr>) in
      if jobs = [] then
        summary Chain_blocked Missing (Some ''No persisted chain jobs found (migration or orphaned row).'') False []
      else
        let orderedJobs = sort_key ej_started_at jobs;
            ids = map ej_id orderedJobs;
            activeJobs = filter (\<lambda>j. ej_status j \<in> set ACTIVE_JOB_STATUSES) orderedJobs;
            deadActiveJobs = filter (dead_job ph) activeJobs in
        if deadActiveJobs \<noteq> [] then
          summary Chain_failed Missing
            (Some (''Active chain jobs appear dead: '' @ join '', '' (map ej_id deadActiveJobs))) False ids
        else if activeJobs \<noteq> [] then
          summary Chain_pending Missing
            (Some (''Active chain jobs: '' @ join '', '' (map ej_id activeJobs))) True ids
        else
          let reviewerJobs = filter (\<lambda>jv. snd jv \<noteq> Missing)
                (map (\<lambda>j. (j, parseReviewerVerdict (ej_result j)))
                  (filter (\<lambda>j. ej_specialist j = ''reviewer'' \<and> ej_status j = Done) orderedJobs)) in
          if reviewerJobs = [] then
            summary Chain_blocked Missing
              (Some ''No terminal reviewer verdict found (PASS/PARTIAL/FAIL).'') False ids
          else
            let latestReviewer = fst (last reviewerJobs); verdict = snd (last reviewerJobs) in
            if verdict = Pass then summary Chain_pass Pass None False ids
            else
              let postReviewJobs = filter (\<lambda>j. ej_started_at j > ej_started_at latestReviewer) orderedJobs;
                  hasPostReviewWork = list_ex (\<lambda>j. ej_status j \<in> set TERMINAL_JOB_STATUSES) postReviewJobs in
              if hasPostReviewWork then
                summary Chain_blocked verdict
                  (Some ''Fix-loop work completed after non-PASS review; rerun reviewer to reach PASS.'') False ids
              else
                summary Chain_failed verdict
                  (Some (''Latest reviewer verdict is '' @ to_upper (verdict_text verdict) @ ''.'')) False ids)"

section \<open>The epic\<close>

definition evaluatePrepReadiness :: "supervisor_status list \<Rightarrow> prep_summary" where
  "evaluatePrepReadiness prepJobs =
     (let running = filter (\<lambda>j. st_status j \<in> set ACTIVE_JOB_STATUSES) prepJobs;
          failed = filter (\<lambda>j. st_status j = Error) prepJobs;
          finished = filter (\<lambda>j. st_status j = Done) prepJobs in
      \<lparr>prep_total = length prepJobs, prep_done = length finished, prep_running = length running,
       prep_failed = length failed, prep_blockers = map st_id (running @ failed)\<rparr>)"

definition deriveEpicReadinessState :: "prep_summary \<Rightarrow> chain_summary list \<Rightarrow> readiness_state" where
  "deriveEpicReadinessState prep cs =
     (let hasActivePrep = 0 < prep_running prep;
          hasPendingChain = list_ex (\<lambda>c. ch_state c = Chain_pending) cs;
          hasBlockedChain = list_ex (\<lambda>c. ch_state c = Chain_blocked) cs;
          hasFailedPrep = 0 < prep_failed prep;
          hasFailedChain = list_ex (\<lambda>c. ch_state c = Chain_failed) cs;
          allChainsPass = (cs = [] \<or> list_all (\<lambda>c. ch_state c = Chain_pass) cs) in
      if hasActivePrep \<or> hasPendingChain then R_resolving
      else if hasFailedPrep \<or> hasFailedChain then R_failed
      else if hasBlockedChain then R_blocked
      else if allChainsPass then R_merge_ready
      else R_blocked)"

definition deriveEpicNextState :: "epic_state \<Rightarrow> readiness_state \<Rightarrow> epic_state" where
  "deriveEpicNextState persisted readiness =
     (if persisted = Merged \<or> persisted = Abandoned then persisted
      else if readiness = R_merge_ready then Merge_ready
      else if readiness = R_failed then Failed_epic
      else Resolving)"

definition buildSummaryLine ::
  "string \<Rightarrow> epic_state \<Rightarrow> readiness_state \<Rightarrow> prep_summary \<Rightarrow> chain_summary list \<Rightarrow> string" where
  "buildSummaryLine epic persisted readiness prep cs =
     (let chainPass = length (filter (\<lambda>c. ch_state c = Chain_pass) cs);
          blockedChains = map ch_id (filter (\<lambda>c. ch_state c = Chain_blocked \<or> ch_state c = Chain_pending
                                                \<or> ch_state c = Chain_failed) cs);
          failedChains = map ch_id (filter (\<lambda>c. ch_state c = Chain_failed) cs);
          prepSegment = ''prep done='' @ show_nat (prep_done prep) @ ''/'' @ show_nat (prep_total prep)
            @ '' running='' @ show_nat (prep_running prep) @ '' failed='' @ show_nat (prep_failed prep);
          chainSegment = ''chains pass='' @ show_nat chainPass @ ''/'' @ show_nat (length cs);
          stateSegment = (if epic_state_text persisted = readiness_text readiness then readiness_text readiness
            else readiness_text readiness @ '' (stored='' @ epic_state_text persisted @ '')'');
          segments = [prepSegment, chainSegment]
            @ (if blockedChains \<noteq> [] then [''blocked='' @ join '', '' blockedChains] else [])
            @ (if failedChains \<noteq> [] then [''failed='' @ join '', '' failedChains] else [])
      in ''Epic '' @ epic @ '': '' @ stateSegment @ '' ('' @ join ''; '' segments @ '')'')"

definition evaluateEpicReadinessSummary ::
  "process_host \<Rightarrow> string \<Rightarrow> epic_state \<Rightarrow> supervisor_status list \<Rightarrow> chain_input list \<Rightarrow> epic_summary" where
  "evaluateEpicReadinessSummary ph epic persisted prepJobs inputs =
     (let prep = evaluatePrepReadiness prepJobs;
          cs = map (\<lambda>c. evaluateChainReadiness ph (ci_chain c) (ci_jobs c) (ci_root_bead c)) inputs;
          readiness = deriveEpicReadinessState prep cs;
          next_state = deriveEpicNextState persisted readiness;
          blockers = map (\<lambda>i. ''prep:'' @ i) (prep_blockers prep)
            @ map (\<lambda>c. ''chain:'' @ ch_id c)
                (filter (\<lambda>c. ch_state c = Chain_pending \<or> ch_state c = Chain_blocked \<or> ch_state c = Chain_failed) cs)
      in \<lparr>es_epic = epic, es_persisted = persisted, es_readiness = readiness, es_next = next_state,
          es_can_transition = (next_state \<noteq> persisted), es_prep = prep, es_chains = cs, es_blockers = blockers,
          es_summary = buildSummaryLine epic persisted readiness prep cs\<rparr>)"

section \<open>From the store\<close>

text \<open>A \<open>Set\<close> iterates in the order its elements were first added.\<close>

definition set_add :: "'a list \<Rightarrow> 'a \<Rightarrow> 'a list" where
  "set_add xs x = (if x \<in> set xs then xs else xs @ [x])"

definition to_set :: "'a list \<Rightarrow> 'a list" where
  "to_set xs = foldl set_add [] xs"

definition evaluator_job_of :: "store \<Rightarrow> supervisor_status \<Rightarrow> evaluator_job" where
  "evaluator_job_of db st = \<lparr>ej_id = st_id st, ej_specialist = st_specialist st, ej_status = st_status st,
     ej_pid = st_pid st, ej_started_at = st_started_at st, ej_result = readResult db (st_id st)\<rparr>"

definition epic_statuses :: "store \<Rightarrow> string \<Rightarrow> supervisor_status list" where
  "epic_statuses db epic = filter (\<lambda>st. st_epic st = Some epic) (listStatuses db)"

definition epic_chain_ids :: "store \<Rightarrow> string \<Rightarrow> string list" where
  "epic_chain_ids db epic =
     foldl set_add (to_set (map chain_key (listEpicChains db epic)))
       (List.map_filter (\<lambda>st. if st_chain_kind st = Some Chain_kind \<and> truthy (st_chain_id st)
                              then st_chain_id st else None) (epic_statuses db epic))"

definition chain_input_of :: "store \<Rightarrow> string \<Rightarrow> string \<Rightarrow> chain_input" where
  "chain_input_of db epic chainId =
     (let chainRecord = List.find (\<lambda>c. chain_key c = chainId) (listEpicChains db epic);
          chainJobs = map (evaluator_job_of db) (sort_key st_started_at
            (filter (\<lambda>st. st_chain_kind st = Some Chain_kind \<and> st_chain_id st = Some chainId)
              (epic_statuses db epic)))
      in \<lparr>ci_chain = chainId, ci_root_bead = Option.bind chainRecord chain_root_bead, ci_jobs = chainJobs\<rparr>)"

definition prep_jobs :: "store \<Rightarrow> string \<Rightarrow> supervisor_status list" where
  "prep_jobs db epic = filter (\<lambda>st. st_chain_kind st \<noteq> Some Chain_kind) (epic_statuses db epic)"

definition loadEpicReadinessSummary :: "process_host \<Rightarrow> store \<Rightarrow> string \<Rightarrow> epic_summary" where
  "loadEpicReadinessSummary ph db epic =
     (let persisted = (case readEpicRun db epic of Some e \<Rightarrow> run_status e | None \<Rightarrow> Open_epic)
      in evaluateEpicReadinessSummary ph epic persisted (prep_jobs db epic)
           (map (chain_input_of db epic) (epic_chain_ids db epic)))"

definition prep_json :: "prep_summary \<Rightarrow> json" where
  "prep_json p = JObj [(''total'', JNum (int (prep_total p))), (''done'', JNum (int (prep_done p))),
     (''running'', JNum (int (prep_running p))), (''failed'', JNum (int (prep_failed p))),
     (''blocker_job_ids'', JArr (map JStr (prep_blockers p)))]"

definition chain_json :: "chain_summary \<Rightarrow> json" where
  "chain_json c = JObj ([(''chain_id'', JStr (ch_id c))]
     @ opt_key ''chain_root_bead_id'' (map_option JStr (ch_root_bead c))
     @ [(''state'', JStr (chain_state_text (ch_state c))), (''reviewer_verdict'', JStr (verdict_text (ch_verdict c)))]
     @ opt_key ''blocking_reason'' (map_option JStr (ch_reason c))
     @ [(''has_active_jobs'', JBool (ch_active c)), (''job_ids'', JArr (map JStr (ch_jobs c)))])"

definition readiness_record :: "int \<Rightarrow> epic_summary \<Rightarrow> epic_run" where
  "readiness_record now s =
     (let recovered = (es_persisted s = Failed_epic \<and> es_readiness s = R_merge_ready) in
      \<lparr>run_epic = es_epic s, run_status = es_next s, run_updated = now, run_json = Text (JObj
        ([(''epic_id'', JStr (es_epic s)), (''status'', JStr (epic_state_text (es_next s))),
          (''persisted_state'', JStr (epic_state_text (es_persisted s))),
          (''readiness_state'', JStr (readiness_text (es_readiness s))),
          (''blockers'', JArr (map JStr (es_blockers s))), (''prep'', prep_json (es_prep s)),
          (''chains'', JArr (map chain_json (es_chains s))), (''summary'', JStr (es_summary s)),
          (''evaluated_at_ms'', JNum now)]
         @ opt_key ''note'' (if recovered
             then Some (JStr ''derived readiness healed legacy failed row after live chains turned pass'') else None)))\<rparr>)"

definition syncEpicStateFromReadiness :: "int \<Rightarrow> epic_summary \<Rightarrow> store \<Rightarrow> epic_run \<times> store" where
  "syncEpicStateFromReadiness now s db =
     (let recovered = (es_persisted s = Failed_epic \<and> es_readiness s = R_merge_ready);
          nextRecord = readiness_record now s
      in (nextRecord,
          if es_can_transition s \<or> recovered \<or> readEpicRun db (es_epic s) = None
          then upsertEpicRun nextRecord db else db))"


section \<open>Lemmas\<close>

definition gives_verdict :: "evaluator_job \<Rightarrow> bool" where
  "gives_verdict j \<longleftrightarrow> ej_specialist j = ''reviewer'' \<and> ej_status j = Done
     \<and> parseReviewerVerdict (ej_result j) \<noteq> Missing"

lemma filter_last_split:
  "filter P xs \<noteq> [] \<Longrightarrow> \<exists>us vs. xs = us @ last (filter P xs) # vs \<and> P (last (filter P xs)) \<and> (\<forall>v \<in> set vs. \<not> P v)"
proof (induction xs rule: rev_induct)
  case Nil
  then show ?case by simp
next
  case (snoc x xs)
  show ?case
  proof (cases "P x")
    case True
    then show ?thesis by (auto intro: exI [of _ xs])
  next
    case False
    then obtain us vs where "xs = us @ last (filter P xs) # vs" "P (last (filter P xs))" "\<forall>v \<in> set vs. \<not> P v"
      using snoc by auto
    then show ?thesis using False by (intro exI [of _ us] exI [of _ "vs @ [x]"]) auto
  qed
qed

lemma last_filter_eq: "P j \<Longrightarrow> \<forall>v \<in> set vs. \<not> P v \<Longrightarrow> last (filter P (us @ j # vs)) = j"
  by (simp add: filter_empty_conv)

lemma reviewer_jobs:
  "filter (\<lambda>jv. snd jv \<noteq> Missing) (map (\<lambda>j. (j, parseReviewerVerdict (ej_result j)))
     (filter (\<lambda>j. ej_specialist j = ''reviewer'' \<and> ej_status j = Done) xs))
   = map (\<lambda>j. (j, parseReviewerVerdict (ej_result j))) (filter gives_verdict xs)"
proof -
  have "gives_verdict = (\<lambda>x. ej_specialist x = ''reviewer'' \<and> ej_status x = Done
      \<and> parseReviewerVerdict (ej_result x) \<noteq> Missing)"
    by (intro ext) (simp add: gives_verdict_def)
  then show ?thesis by (simp add: filter_map comp_def)
qed

lemma chain_state_cases:
  assumes "jobs \<noteq> []"
  shows "ch_state (evaluateChainReadiness ph c jobs rb) =
     (let xs = sort_key ej_started_at jobs; rs = filter gives_verdict xs in
      if \<exists>j \<in> set jobs. ej_status j \<in> set ACTIVE_JOB_STATUSES \<and> dead_job ph j then Chain_failed
      else if \<exists>j \<in> set jobs. ej_status j \<in> set ACTIVE_JOB_STATUSES then Chain_pending
      else if rs = [] then Chain_blocked
      else if parseReviewerVerdict (ej_result (last rs)) = Pass then Chain_pass
      else if \<exists>j \<in> set jobs. ej_started_at j > ej_started_at (last rs) \<and> ej_status j \<in> set TERMINAL_JOB_STATUSES
      then Chain_blocked else Chain_failed)"
  using assms
  by (simp add: evaluateChainReadiness_def reviewer_jobs Let_def filter_empty_conv last_map list_ex_iff)
     (auto simp: filter_empty_conv list_ex_iff)

lemma not_passing_states: "ch_state c \<noteq> Chain_pass \<longleftrightarrow>
    ch_state c = Chain_pending \<or> ch_state c = Chain_blocked \<or> ch_state c = Chain_failed"
  by (cases "ch_state c") auto

lemma readiness_merge_ready_iff:
  "deriveEpicReadinessState prep cs = R_merge_ready \<longleftrightarrow>
     prep_running prep = 0 \<and> prep_failed prep = 0 \<and> (\<forall>c \<in> set cs. ch_state c = Chain_pass)"
  using not_passing_states
  by (auto simp: deriveEpicReadinessState_def Let_def list_ex_iff list_all_iff)

lemma next_state_idem: "deriveEpicNextState (deriveEpicNextState p r) r = deriveEpicNextState p r"
  by (auto simp: deriveEpicNextState_def)

section \<open>Properties\<close>

text \<open>C7. A chain passes exactly when it has jobs, none is active, and in order of start its
  last job that gives a verdict (a finished reviewer whose output carries one) says PASS.\<close>

theorem chain_pass_iff:
  "ch_state (evaluateChainReadiness ph c jobs rb) = Chain_pass \<longleftrightarrow>
     (\<forall>j \<in> set jobs. ej_status j \<notin> {Starting, Running, Waiting})
   \<and> (\<exists>us j vs. sort_key ej_started_at jobs = us @ j # vs \<and> ej_specialist j = ''reviewer'' \<and> ej_status j = Done
        \<and> parseReviewerVerdict (ej_result j) = Pass \<and> (\<forall>v \<in> set vs. \<not> gives_verdict v))"
proof (cases "jobs = []")
  case True
  then show ?thesis by (simp add: evaluateChainReadiness_def)
next
  case False
  let ?xs = "sort_key ej_started_at jobs"
  have act: "set ACTIVE_JOB_STATUSES = {Starting, Running, Waiting}" by (auto simp: ACTIVE_JOB_STATUSES_def)
  have "(filter gives_verdict ?xs \<noteq> [] \<and> parseReviewerVerdict (ej_result (last (filter gives_verdict ?xs))) = Pass)
      = (\<exists>us j vs. ?xs = us @ j # vs \<and> ej_specialist j = ''reviewer'' \<and> ej_status j = Done
        \<and> parseReviewerVerdict (ej_result j) = Pass \<and> (\<forall>v \<in> set vs. \<not> gives_verdict v))" (is "?L = ?R")
  proof
    assume ?L
    then show ?R using filter_last_split [of gives_verdict ?xs] by (auto simp: gives_verdict_def)
  next
    assume ?R
    then obtain us j vs where r: "?xs = us @ j # vs" "gives_verdict j" "parseReviewerVerdict (ej_result j) = Pass"
        "\<forall>v \<in> set vs. \<not> gives_verdict v"
      by (auto simp: gives_verdict_def)
    then show ?L unfolding r(1) using last_filter_eq [of gives_verdict j vs us] by simp
  qed
  then show ?thesis
    unfolding chain_state_cases [OF False] Let_def act by auto
qed

definition demo_review :: "int \<Rightarrow> string \<Rightarrow> evaluator_job" where
  "demo_review t out = \<lparr>ej_id = ''r'', ej_specialist = ''reviewer'', ej_status = Done, ej_pid = None,
     ej_started_at = t, ej_result = Some out\<rparr>"

definition demo_ph :: process_host where
  "demo_ph = \<lparr>kill_zero = (\<lambda>_. No_process), proc_start_ms = (\<lambda>_. None), tmux_alive = (\<lambda>_. False)\<rparr>"

lemma demo_verdicts:
  "parseReviewerVerdict (Some ''Verdict: **PASS**'') = Pass"
  "parseReviewerVerdict (Some ''verdict: fail'') = Fail"
  by code_simp+

theorem chain_pass_iff_witness:
  "ch_state (evaluateChainReadiness demo_ph ''c'' [demo_review 5 ''Verdict: **PASS**'', demo_review 3 ''verdict: fail''] None)
     = Chain_pass"
  unfolding chain_pass_iff
proof (intro conjI exI)
  show "sort_key ej_started_at [demo_review 5 ''Verdict: **PASS**'', demo_review 3 ''verdict: fail'']
      = [demo_review 3 ''verdict: fail''] @ demo_review 5 ''Verdict: **PASS**'' # []"
    by (simp add: demo_review_def)
qed (simp_all add: demo_review_def demo_verdicts)

text \<open>The verdict on an epic: it is merge-ready exactly when no blocker is listed, which
  is when every preparatory job has ended without error and every chain passes; the next
  state is \<open>merge_ready\<close> exactly then, unless the epic is already merged or abandoned, which
  no reading of its jobs undoes.\<close>

theorem epic_verdict:
  "let s = evaluateEpicReadinessSummary ph epic persisted prep inputs in
     (es_readiness s = R_merge_ready) = (es_blockers s = [])
   \<and> (es_blockers s = []) =
       ((\<forall>j \<in> set prep. st_status j \<in> {Done, Cancelled})
        \<and> (\<forall>c \<in> set inputs. ch_state (evaluateChainReadiness ph (ci_chain c) (ci_jobs c) (ci_root_bead c)) = Chain_pass))
   \<and> (persisted \<notin> {Merged, Abandoned} \<longrightarrow> (es_next s = Merge_ready) = (es_blockers s = []))
   \<and> (persisted \<in> {Merged, Abandoned} \<longrightarrow> es_next s = persisted)"
proof -
  let ?cs = "map (\<lambda>c. evaluateChainReadiness ph (ci_chain c) (ci_jobs c) (ci_root_bead c)) inputs"
  let ?prep = "evaluatePrepReadiness prep"
  let ?s = "evaluateEpicReadinessSummary ph epic persisted prep inputs"
  have prep_ok: "(prep_running ?prep = 0 \<and> prep_failed ?prep = 0) = (\<forall>j \<in> set prep. st_status j \<in> {Done, Cancelled})"
  proof -
    have one: "(st \<notin> {Starting, Running, Waiting} \<and> st \<noteq> Error) = (st \<in> {Done, Cancelled})" for st
      by (cases st) auto
    have "(prep_running ?prep = 0 \<and> prep_failed ?prep = 0)
        = (\<forall>j \<in> set prep. st_status j \<notin> {Starting, Running, Waiting} \<and> st_status j \<noteq> Error)"
      by (simp add: evaluatePrepReadiness_def ACTIVE_JOB_STATUSES_def filter_empty_conv Let_def) blast
    then show ?thesis unfolding one .
  qed
  have prep_bl: "(prep_blockers ?prep = []) = (prep_running ?prep = 0 \<and> prep_failed ?prep = 0)"
    by (auto simp: evaluatePrepReadiness_def Let_def)
  have ready: "(es_readiness ?s = R_merge_ready)
      = ((prep_running ?prep = 0 \<and> prep_failed ?prep = 0) \<and> (\<forall>c \<in> set ?cs. ch_state c = Chain_pass))"
    by (simp add: evaluateEpicReadinessSummary_def Let_def readiness_merge_ready_iff)
  have block: "(es_blockers ?s = []) = (prep_blockers ?prep = [] \<and> (\<forall>c \<in> set ?cs. ch_state c = Chain_pass))"
    by (simp add: evaluateEpicReadinessSummary_def Let_def filter_empty_conv not_passing_states [symmetric])
  have nxt: "es_next ?s = deriveEpicNextState persisted (es_readiness ?s)"
    by (simp add: evaluateEpicReadinessSummary_def Let_def)
  have rb: "(es_readiness ?s = R_merge_ready) = (es_blockers ?s = [])"
    unfolding ready block prep_bl ..
  have spec: "(es_blockers ?s = []) =
       ((\<forall>j \<in> set prep. st_status j \<in> {Done, Cancelled})
        \<and> (\<forall>c \<in> set inputs. ch_state (evaluateChainReadiness ph (ci_chain c) (ci_jobs c) (ci_root_bead c)) = Chain_pass))"
    unfolding block prep_bl prep_ok by simp
  show ?thesis
    unfolding Let_def using rb spec by (simp add: nxt deriveEpicNextState_def)
qed

theorem epic_verdict_witness:
  "es_next (evaluateEpicReadinessSummary demo_ph ''e'' Failed_epic []
      [\<lparr>ci_chain = ''c'', ci_root_bead = None, ci_jobs = []\<rparr>]) \<noteq> Merge_ready
   \<and> es_next (evaluateEpicReadinessSummary demo_ph ''e'' Failed_epic [] []) = Merge_ready"
proof -
  have "ch_state (evaluateChainReadiness demo_ph ''c'' [] None) \<noteq> Chain_pass"
    by (simp add: evaluateChainReadiness_def)
  then show ?thesis
    using epic_verdict [of demo_ph "''e''" Failed_epic "[]" "[\<lparr>ci_chain = ''c'', ci_root_bead = None, ci_jobs = []\<rparr>]"]
      epic_verdict [of demo_ph "''e''" Failed_epic "[]" "[]"]
    by (simp add: Let_def)
qed

end
