(* ===== verification/Epic_Reconciler.thy ===== *)
theory Epic_Reconciler imports Epic_Readiness begin

text \<open>
  \<open>src/specialist/epic-reconciler.ts\<close>: drift detection and repair of an epic, its
  abandonment, and the advisory lock around both. The moments at which the code reads the
  clock are arguments.
\<close>

section \<open>The advisory lock\<close>

text \<open>
  A lock file per epic, with its contents. \<open>writes\<close> says whether writing the holder's
  record into the fresh file succeeds. The action runs with the lock files and a world of
  its own; what it throws is an error value.
\<close>

type_synonym lock_files = "string \<Rightarrow> string option"

definition lock_busy :: "string \<Rightarrow> string \<Rightarrow> epic_error" where
  "lock_busy epic contents =
     Epic_error (''Epic advisory lock busy for '' @ epic @ ''. Holder: '' @ contents)"

definition withEpicAdvisoryLock ::
  "string \<Rightarrow> bool \<Rightarrow> string \<Rightarrow> (lock_files \<times> 'w \<Rightarrow> (epic_error + 'a) \<times> lock_files \<times> 'w)
   \<Rightarrow> lock_files \<times> 'w \<Rightarrow> (epic_error + 'a) \<times> lock_files \<times> 'w" where
  "withEpicAdvisoryLock epic writes contents action s =
     (case fst s epic of
        Some other \<Rightarrow> (Inl (lock_busy epic other), s)
      | None \<Rightarrow>
          if \<not> writes then (Inl (lock_busy epic []), (fst s)(epic \<mapsto> []), snd s)
          else
            let r = action ((fst s)(epic \<mapsto> contents), snd s)
            in (fst r, (fst (snd r))(epic := None), snd (snd r)))"

section \<open>Drift\<close>

definition has_redirect :: "string \<Rightarrow> bool" where
  "has_redirect k \<longleftrightarrow> str_includes ''redirect'' (to_lower k)"

definition hasRedirectMarkers :: "json_text \<Rightarrow> bool" where
  "hasRedirectMarkers t =
     (case parse_json t of
        None \<Rightarrow> False
      | Some JNull \<Rightarrow> False
      | Some j \<Rightarrow> list_ex (\<lambda>kv. has_redirect (fst kv)) (object_entries j))"

definition clearRedirectMarkers :: "json_text \<Rightarrow> json_text" where
  "clearRedirectMarkers t =
     (case parse_json t of
        None \<Rightarrow> t
      | Some JNull \<Rightarrow> t
      | Some j \<Rightarrow> Text (JObj (set_all [] (filter (\<lambda>kv. \<not> has_redirect (fst kv)) (object_entries j)))))"

definition collectEpicJobs :: "store \<Rightarrow> string \<Rightarrow> supervisor_status list" where
  "collectEpicJobs db epic =
     (let chainIds = map chain_key (listEpicChains db epic) in
      filter (\<lambda>st. st_epic st = Some epic
          \<or> (if truthy (st_chain_id st) then the (st_chain_id st) \<in> set chainIds else False))
        (listStatuses db))"

definition detectStaleChainRefs :: "store \<Rightarrow> string \<Rightarrow> string list" where
  "detectStaleChainRefs db epic =
     filter (\<lambda>c. length (listChainJobIds db c) = 0) (map chain_key (listEpicChains db epic))"

definition detectDeadBlockingJobs :: "process_host \<Rightarrow> supervisor_status list \<Rightarrow> string list" where
  "detectDeadBlockingJobs ph jobs =
     map st_id (filter (\<lambda>j. st_status j \<in> set ACTIVE_JOB_STATUSES \<and> isJobDead ph j) jobs)"

definition integrity_flags_of :: "string \<Rightarrow> string list \<Rightarrow> supervisor_status \<Rightarrow> string list" where
  "integrity_flags_of epic chainIds job =
     (let linked = truthy (st_chain_id job); c = (case st_chain_id job of Some x \<Rightarrow> x | None \<Rightarrow> []);
          e = (case st_epic job of Some x \<Rightarrow> x | None \<Rightarrow> []) in
      (if st_chain_kind job = Some Chain_kind \<and> \<not> linked
       then [''job:'' @ st_id job @ '':chain_kind=chain missing chain_id''] else [])
      @ (if linked \<and> c \<notin> set chainIds \<and> st_epic job = Some epic
         then [''job:'' @ st_id job @ '':references chain '' @ c @ '' missing from epic membership''] else [])
      @ (if linked \<and> c \<in> set chainIds \<and> truthy (st_epic job) \<and> st_epic job \<noteq> Some epic
         then [''job:'' @ st_id job @ '':chain '' @ c @ '' linked to epic '' @ e @ '', expected '' @ epic] else []))"

definition detectIntegrityFlags :: "store \<Rightarrow> string \<Rightarrow> supervisor_status list \<Rightarrow> string list" where
  "detectIntegrityFlags db epic jobs =
     concat (map (integrity_flags_of epic (map chain_key (listEpicChains db epic))) jobs)"

section \<open>Repair\<close>

definition mark_error :: "int \<Rightarrow> supervisor_status \<Rightarrow> supervisor_status" where
  "mark_error now st = st\<lparr>st_status := Error,
     st_error := nullish (st_error st) (Some ''epic reconciler: detected dead pid/tmux for active job''),
     st_last_event_at := Some now\<rparr>"

fun mark_each :: "int \<Rightarrow> supervisor_status list \<Rightarrow> string list \<Rightarrow> store \<Rightarrow> store" where
  "mark_each now jobs [] db = db"
| "mark_each now jobs (i # is) db =
     mark_each now jobs is
       (case List.find (\<lambda>j. st_id j = i) jobs of
          None \<Rightarrow> db
        | Some current \<Rightarrow> upsertStatus now (mark_error now current) db)"

definition markDeadJobsAsError ::
  "process_host \<Rightarrow> int \<Rightarrow> supervisor_status list \<Rightarrow> store \<Rightarrow> string list \<times> store" where
  "markDeadJobsAsError ph now jobs db =
     (let dead = detectDeadBlockingJobs ph jobs in (dead, mark_each now jobs dead db))"

record drift_report =
  stale_chain_refs :: "string list"
  dead_jobs :: "string list"
  integrity_flags :: "string list"
  stale_redirect_markers :: "string list"

record sync_result =
  sr_epic :: string
  sr_apply :: bool
  sr_drift :: drift_report
  dead_jobs_marked_error :: "string list"
  stale_chain_refs_pruned :: "string list"
  readiness_resynced :: bool
  redirect_markers_cleared :: bool
  readiness_before :: epic_summary
  readiness_after :: epic_summary

definition drift_of :: "process_host \<Rightarrow> store \<Rightarrow> string \<Rightarrow> drift_report" where
  "drift_of ph db epic =
     (let jobs = collectEpicJobs db epic in
      \<lparr>stale_chain_refs = detectStaleChainRefs db epic,
       dead_jobs = detectDeadBlockingJobs ph jobs,
       integrity_flags = detectIntegrityFlags db epic jobs,
       stale_redirect_markers = (case readEpicRun db epic of
          Some e \<Rightarrow> if hasRedirectMarkers (run_json e) then [epic] else [] | None \<Rightarrow> [])\<rparr>)"

text \<open>The repairs, in order: dead jobs, stale memberships, the cached state, the markers.\<close>

definition clear_markers_step ::
  "int \<Rightarrow> epic_run option \<Rightarrow> drift_report \<Rightarrow> store \<Rightarrow> bool \<times> store" where
  "clear_markers_step t epicRun drift db =
     (case epicRun of
        None \<Rightarrow> (False, db)
      | Some e \<Rightarrow>
          if stale_redirect_markers drift = [] then (False, db)
          else let cleaned = clearRedirectMarkers (run_json e) in
            if cleaned \<noteq> Empty_text \<and> cleaned \<noteq> run_json e
            then (True, upsertEpicRun (e\<lparr>run_json := cleaned, run_updated := t\<rparr>) db)
            else (False, db))"

definition syncEpicState ::
  "process_host \<Rightarrow> int \<Rightarrow> int \<Rightarrow> int \<Rightarrow> string \<Rightarrow> bool \<Rightarrow> store \<Rightarrow> sync_result \<times> store" where
  "syncEpicState ph t1 t2 t3 epic apply_repairs db =
     (let epicRun = readEpicRun db epic;
          jobs = collectEpicJobs db epic;
          before = loadEpicReadinessSummary ph db epic;
          drift = drift_of ph db epic;
          result = (\<lambda>marked pruned resynced cleared db'.
            (\<lparr>sr_epic = epic, sr_apply = apply_repairs, sr_drift = drift, dead_jobs_marked_error = marked,
              stale_chain_refs_pruned = pruned, readiness_resynced = resynced, redirect_markers_cleared = cleared,
              readiness_before = before, readiness_after = loadEpicReadinessSummary ph db' epic\<rparr>, db')) in
      if \<not> apply_repairs then result [] [] False False db
      else
        let m = (if dead_jobs drift \<noteq> [] then markDeadJobsAsError ph t1 jobs db else ([], db));
            p = (if stale_chain_refs drift \<noteq> []
                 then deleteEpicChainMembership epic (stale_chain_refs drift) (snd m) else ([], snd m));
            readinessNext = loadEpicReadinessSummary ph (snd p) epic;
            synced = syncEpicStateFromReadiness t2 readinessNext (snd p);
            c = clear_markers_step t3 epicRun drift (snd synced)
        in result (fst m) (fst p) (run_status (fst synced) \<noteq> es_persisted readinessNext) (fst c) (snd c))"

section \<open>Abandonment\<close>

record abandon_result =
  ab_epic :: string
  ab_from :: epic_state
  ab_forced :: bool
  ab_reason :: string
  ab_live :: "string list"

definition listLiveMemberJobIds :: "process_host \<Rightarrow> store \<Rightarrow> string \<Rightarrow> string list" where
  "listLiveMemberJobIds ph db epic =
     map st_id (filter (\<lambda>j. st_status j \<in> set ACTIVE_JOB_STATUSES \<and> \<not> isJobDead ph j) (collectEpicJobs db epic))"

definition buildAbandonedStatusJson ::
  "int \<Rightarrow> epic_run option \<Rightarrow> string \<Rightarrow> epic_state \<Rightarrow> string \<Rightarrow> bool \<Rightarrow> json_text" where
  "buildAbandonedStatusJson now e epic from_state why forced =
     (let base = appendEpicTransitionAudit (map_option run_json e)
            \<lparr>au_from = from_state, au_to = Abandoned, au_at = now, au_reason = Some why,
             au_trigger = Some ''sp epic abandon'', au_forced = Some forced\<rparr>
      in case parse_json base of
           None \<Rightarrow> base
         | Some j \<Rightarrow> Text (JObj (set_all (set_all [] (object_entries j))
             [(''epic_id'', JStr epic), (''status'', JStr ''abandoned''), (''reason'', JStr why), (''forced'', JBool forced)])))"

definition abandonEpic ::
  "process_host \<Rightarrow> int \<Rightarrow> int \<Rightarrow> string \<Rightarrow> string \<Rightarrow> bool \<Rightarrow> store \<Rightarrow> (epic_error + abandon_result) \<times> store" where
  "abandonEpic ph t1 t2 epic why force db =
     (let e = readEpicRun db epic;
          from_state = (case e of Some r \<Rightarrow> run_status r | None \<Rightarrow> Open_epic) in
      if from_state = Merged then (Inl (Epic_error (''Epic '' @ epic @ '' already merged. Abandon blocked.'')), db)
      else if from_state = Abandoned then (Inl (Epic_error (''Epic '' @ epic @ '' already abandoned.'')), db)
      else
        let live = listLiveMemberJobIds ph db epic in
        if \<not> force \<and> live \<noteq> []
        then (Inl (Epic_error (''Epic '' @ epic @ '' has live members: '' @ join '', '' live
               @ ''. Retry with --force to abandon anyway.'')), db)
        else (Inr \<lparr>ab_epic = epic, ab_from = from_state, ab_forced = force, ab_reason = why, ab_live = live\<rparr>,
              upsertEpicRun \<lparr>run_epic = epic, run_status = Abandoned, run_updated = t2,
                run_json = buildAbandonedStatusJson t1 e epic from_state why force\<rparr> db))"


section \<open>Lemmas\<close>

lemma read_clear_markers:
  "readEpicRun (snd (clear_markers_step t e drift db)) k =
     (if fst (clear_markers_step t e drift db) \<and> k = run_epic (the e)
      then Some ((the e)\<lparr>run_json := clearRedirectMarkers (run_json (the e)), run_updated := t\<rparr>)
      else readEpicRun db k)"
  by (auto simp: clear_markers_step_def Let_def split: option.splits)

lemma clear_markers_frame [simp]:
  "job_rows (snd (clear_markers_step t e drift db)) = job_rows db"
  "chain_rows (snd (clear_markers_step t e drift db)) = chain_rows db"
  "result_rows (snd (clear_markers_step t e drift db)) = result_rows db"
  by (simp_all add: clear_markers_step_def Let_def split: option.splits)

lemma sync_readiness_frame [simp]:
  "job_rows (snd (syncEpicStateFromReadiness now s db)) = job_rows db"
  "chain_rows (snd (syncEpicStateFromReadiness now s db)) = chain_rows db"
  "result_rows (snd (syncEpicStateFromReadiness now s db)) = result_rows db"
  by (simp_all add: syncEpicStateFromReadiness_def Let_def)

lemma mark_each_frame [simp]:
  "epic_rows (mark_each now jobs is db) = epic_rows db"
  "chain_rows (mark_each now jobs is db) = chain_rows db"
  "result_rows (mark_each now jobs is db) = result_rows db"
  by (induction "is" arbitrary: db) (simp_all split: option.splits)

lemma find_id: "List.find (\<lambda>j. st_id j = i) jobs = Some c \<Longrightarrow> c \<in> set jobs \<and> st_id c = i"
  by (auto simp: find_Some_iff)

lemma job_rows_mark_each:
  "map_get (job_rows (mark_each now jobs is db)) k =
     (if k \<in> set is then
        (case List.find (\<lambda>j. st_id j = k) jobs of
           Some c \<Rightarrow> Some \<lparr>row_updated = now, row_status = mark_error now c\<rparr> | None \<Rightarrow> map_get (job_rows db) k)
      else map_get (job_rows db) k)"
proof (induction "is" arbitrary: db)
  case Nil
  then show ?case by simp
next
  case (Cons i "is")
  have id: "st_id (mark_error now c) = st_id c" for c by (simp add: mark_error_def)
  show ?case
    by (auto simp: Cons.IH upsertStatus_def map_get_set id dest: find_id split: option.splits)
qed

lemma store_ok_mark_each: "store_ok db \<Longrightarrow> store_ok (mark_each now jobs is db)"
  by (induction "is" arbitrary: db) (auto simp: store_ok_upsertStatus split: option.splits)

text \<open>The readiness of an epic is read from the jobs, the memberships and the results.\<close>

lemma load_readiness_cong:
  assumes "job_rows db' = job_rows db" and "chain_rows db' = chain_rows db" and "result_rows db' = result_rows db"
  shows "es_readiness (loadEpicReadinessSummary ph db' epic) = es_readiness (loadEpicReadinessSummary ph db epic)"
proof -
  have 1: "epic_statuses db' = epic_statuses db" "listEpicChains db' = listEpicChains db" "readResult db' = readResult db"
    by (intro ext; simp add: epic_statuses_def listStatuses_def listEpicChains_def readResult_def assms)+
  then have 2: "prep_jobs db' = prep_jobs db" "epic_chain_ids db' = epic_chain_ids db"
      "evaluator_job_of db' = evaluator_job_of db"
    by (intro ext; simp add: prep_jobs_def epic_chain_ids_def evaluator_job_of_def)+
  then have "chain_input_of db' = chain_input_of db"
    using 1 by (intro ext) (simp add: chain_input_of_def)
  with 2 show ?thesis
    by (simp add: loadEpicReadinessSummary_def evaluateEpicReadinessSummary_def Let_def)
qed

lemma load_fields [simp]:
  "es_next (loadEpicReadinessSummary ph db epic) =
     deriveEpicNextState (es_persisted (loadEpicReadinessSummary ph db epic)) (es_readiness (loadEpicReadinessSummary ph db epic))"
  "es_persisted (loadEpicReadinessSummary ph db epic) = (case readEpicRun db epic of Some e \<Rightarrow> run_status e | None \<Rightarrow> Open_epic)"
  "es_can_transition (loadEpicReadinessSummary ph db epic) =
     (es_next (loadEpicReadinessSummary ph db epic) \<noteq> es_persisted (loadEpicReadinessSummary ph db epic))"
  "es_epic (loadEpicReadinessSummary ph db epic) = epic"
  by (simp_all add: loadEpicReadinessSummary_def evaluateEpicReadinessSummary_def Let_def)

text \<open>After the cache is written it holds the state the live jobs say.\<close>

lemma sync_readiness_row:
  "\<exists>e. readEpicRun (snd (syncEpicStateFromReadiness now (loadEpicReadinessSummary ph db epic) db)) epic = Some e
     \<and> run_status e = es_next (loadEpicReadinessSummary ph db epic)"
  by (cases "readEpicRun db epic") (auto simp: syncEpicStateFromReadiness_def readiness_record_def Let_def)

lemma sync_readiness_other:
  "k \<noteq> epic \<Longrightarrow>
     readEpicRun (snd (syncEpicStateFromReadiness now (loadEpicReadinessSummary ph db epic) db)) k = readEpicRun db k"
  by (auto simp: syncEpicStateFromReadiness_def readiness_record_def Let_def)

text \<open>The store after the first two repairs.\<close>

definition repaired :: "process_host \<Rightarrow> int \<Rightarrow> string \<Rightarrow> store \<Rightarrow> store" where
  "repaired ph t epic db =
     (let d = drift_of ph db epic;
          m = (if dead_jobs d \<noteq> [] then snd (markDeadJobsAsError ph t (collectEpicJobs db epic) db) else db)
      in if stale_chain_refs d \<noteq> [] then snd (deleteEpicChainMembership epic (stale_chain_refs d) m) else m)"

lemma sync_store:
  "snd (syncEpicState ph t1 t2 t3 epic True db) =
     snd (clear_markers_step t3 (readEpicRun db epic) (drift_of ph db epic)
       (snd (syncEpicStateFromReadiness t2 (loadEpicReadinessSummary ph (repaired ph t1 epic db) epic)
          (repaired ph t1 epic db))))"
  by (simp add: syncEpicState_def repaired_def Let_def split: if_splits)

lemma repaired_epic_rows [simp]: "epic_rows (repaired ph t epic db) = epic_rows db"
  by (simp add: repaired_def markDeadJobsAsError_def Let_def)

lemma repaired_read [simp]: "readEpicRun (repaired ph t epic db) k = readEpicRun db k"
  by (simp add: readEpicRun_def)


lemma repaired_eq:
  "repaired ph t epic db = snd (deleteEpicChainMembership epic (detectStaleChainRefs db epic)
     (mark_each t (collectEpicJobs db epic) (detectDeadBlockingJobs ph (collectEpicJobs db epic)) db))"
  by (simp add: repaired_def drift_of_def markDeadJobsAsError_def deleteEpicChainMembership_def Let_def)

lemma status_row:
  assumes "store_ok db"
  shows "st \<in> set (listStatuses db) \<longleftrightarrow> (\<exists>r. map_get (job_rows db) (st_id st) = Some r \<and> row_status r = st)"
proof -
  have ok: "map_ok (job_rows db)" and key: "\<And>k r. (k, r) \<in> set (job_rows db) \<Longrightarrow> st_id (row_status r) = k"
    using assms by (auto simp: store_ok_def)
  show ?thesis
  proof
    assume "st \<in> set (listStatuses db)"
    then obtain k r where r: "(k, r) \<in> set (job_rows db)" "st = row_status r" by auto
    then show "\<exists>r. map_get (job_rows db) (st_id st) = Some r \<and> row_status r = st"
      using key [OF r(1)] by (auto simp: map_get_iff [OF ok])
  next
    assume "\<exists>r. map_get (job_rows db) (st_id st) = Some r \<and> row_status r = st"
    then obtain r where "(st_id st, r) \<in> set (job_rows db)" "row_status r = st"
      by (auto simp: map_get_iff [OF ok])
    then show "st \<in> set (listStatuses db)" by force
  qed
qed

lemma collect_subset: "set (collectEpicJobs db epic) \<subseteq> set (listStatuses db)"
  by (auto simp: collectEpicJobs_def Let_def)

lemma mark_error_fields [simp]:
  "st_id (mark_error t st) = st_id st" "st_status (mark_error t st) = Error"
  "st_chain_id (mark_error t st) = st_chain_id st" "st_epic (mark_error t st) = st_epic st"
  by (simp_all add: mark_error_def)

text \<open>The jobs after the repair: a dead blocking job is marked, every other is as it was.\<close>

lemma repaired_job:
  assumes "store_ok db"
  shows "map_get (job_rows (repaired ph t epic db)) k =
    (case map_get (job_rows db) k of
       None \<Rightarrow> None
     | Some r \<Rightarrow> Some (if k \<in> set (detectDeadBlockingJobs ph (collectEpicJobs db epic))
                       then \<lparr>row_updated = t, row_status = mark_error t (row_status r)\<rparr> else r))"
proof (cases "k \<in> set (detectDeadBlockingJobs ph (collectEpicJobs db epic))")
  case False
  then show ?thesis by (simp add: repaired_eq job_rows_mark_each split: option.splits)
next
  case True
  then obtain j where j: "j \<in> set (collectEpicJobs db epic)" "st_id j = k"
    by (auto simp: detectDeadBlockingJobs_def)
  then obtain c where c: "List.find (\<lambda>j. st_id j = k) (collectEpicJobs db epic) = Some c"
    by (cases "List.find (\<lambda>j. st_id j = k) (collectEpicJobs db epic)") (auto simp: find_None_iff)
  then have "c \<in> set (listStatuses db)" "st_id c = k"
    using find_id [OF c] collect_subset [of db epic] by auto
  then obtain r where "map_get (job_rows db) k = Some r" "row_status r = c"
    using status_row [OF assms, of c] by auto
  with c True show ?thesis by (simp add: repaired_eq job_rows_mark_each)
qed

lemma repaired_ok: "store_ok db \<Longrightarrow> store_ok (repaired ph t epic db)"
  by (simp add: repaired_eq store_ok_delete store_ok_mark_each)

lemma repaired_chain_keys:
  assumes "store_ok db"
  shows "chain_key ` set (listEpicChains (repaired ph t epic db) epic)
     = chain_key ` set (listEpicChains db epic) - set (detectStaleChainRefs db epic)"
proof -
  let ?m = "mark_each t (collectEpicJobs db epic) (detectDeadBlockingJobs ph (collectEpicJobs db epic)) db"
  have key: "\<And>k c. (k, c) \<in> set (chain_rows db) \<Longrightarrow> chain_key c = k"
    using assms by (auto simp: store_ok_def)
  have "set (chain_rows (repaired ph t epic db))
      = {kc \<in> set (chain_rows db). \<not> (chain_epic (snd kc) = epic \<and> fst kc \<in> set (detectStaleChainRefs db epic))}"
    unfolding repaired_eq chains_after_delete [OF store_ok_mark_each [OF assms]] by simp
  then show ?thesis using key by force
qed

lemma repaired_no_dead:
  assumes "store_ok db"
  shows "detectDeadBlockingJobs ph (collectEpicJobs (repaired ph t epic db) epic) = []"
proof -
  let ?d = "repaired ph t epic db"
  have False if j: "j \<in> set (collectEpicJobs ?d epic)" "st_status j \<in> set ACTIVE_JOB_STATUSES" "isJobDead ph j" for j
  proof -
    obtain r where r: "map_get (job_rows ?d) (st_id j) = Some r" "row_status r = j"
      using status_row [OF repaired_ok [OF assms, of ph t epic], of j] collect_subset [of ?d epic] j(1) by auto
    have alive_id: "st_id j \<notin> set (detectDeadBlockingJobs ph (collectEpicJobs db epic))"
      using r j(2) repaired_job [OF assms, of ph t epic "st_id j"]
      by (auto simp: ACTIVE_JOB_STATUSES_def split: option.splits if_splits)
    then have "map_get (job_rows db) (st_id j) = Some r"
      using r(1) repaired_job [OF assms, of ph t epic "st_id j"] by (auto split: option.splits)
    then have "j \<in> set (listStatuses db)" using status_row [OF assms, of j] r(2) by auto
    then have "j \<in> set (collectEpicJobs db epic)"
      using j(1) repaired_chain_keys [OF assms, of ph t epic]
      by (auto simp: collectEpicJobs_def Let_def split: if_splits)
    then show False using alive_id j(2,3) by (auto simp: detectDeadBlockingJobs_def)
  qed
  then show ?thesis by (auto simp: detectDeadBlockingJobs_def filter_empty_conv)
qed

lemma chain_job_ids_iff:
  assumes "store_ok db"
  shows "listChainJobIds db c \<noteq> [] \<longleftrightarrow>
     (\<exists>k r. k \<noteq> [] \<and> map_get (job_rows db) k = Some r \<and> st_chain_id (row_status r) = Some c)"
proof -
  have "map_ok (job_rows db)" using assms by (auto simp: store_ok_def)
  then have "(\<exists>k r. k \<noteq> [] \<and> map_get (job_rows db) k = Some r \<and> st_chain_id (row_status r) = Some c)
      \<longleftrightarrow> set (listChainJobIds db c) \<noteq> {}"
    by (auto simp: map_get_iff)
  then show ?thesis unfolding set_empty by blast
qed

lemma repaired_no_stale:
  assumes "store_ok db"
  shows "detectStaleChainRefs (repaired ph t epic db) epic = []"
proof -
  let ?d = "repaired ph t epic db"
  have "listChainJobIds ?d c \<noteq> []" if c: "c \<in> chain_key ` set (listEpicChains ?d epic)" for c
  proof -
    from c have "c \<in> chain_key ` set (listEpicChains db epic)" "c \<notin> set (detectStaleChainRefs db epic)"
      unfolding repaired_chain_keys [OF assms] by simp_all
    then have "listChainJobIds db c \<noteq> []" by (auto simp: detectStaleChainRefs_def)
    then obtain k r where "k \<noteq> []" "map_get (job_rows db) k = Some r" "st_chain_id (row_status r) = Some c"
      unfolding chain_job_ids_iff [OF assms] by blast
    then show ?thesis
      unfolding chain_job_ids_iff [OF repaired_ok [OF assms]]
      by (intro exI [of _ k]) (simp add: repaired_job [OF assms])
  qed
  then show ?thesis by (auto simp: detectStaleChainRefs_def filter_empty_conv)
qed


lemma drift_cong:
  assumes "job_rows db' = job_rows db" and "chain_rows db' = chain_rows db"
  shows "collectEpicJobs db' epic = collectEpicJobs db epic"
    and "detectStaleChainRefs db' epic = detectStaleChainRefs db epic"
proof -
  have l: "listStatuses db' = listStatuses db" "listEpicChains db' = listEpicChains db"
      "listChainJobIds db' = listChainJobIds db"
    by (simp_all add: listStatuses_def listEpicChains_def listChainJobIds_def assms fun_eq_iff)
  then show "collectEpicJobs db' epic = collectEpicJobs db epic"
    and "detectStaleChainRefs db' epic = detectStaleChainRefs db epic"
    by (simp_all add: collectEpicJobs_def detectStaleChainRefs_def)
qed

lemma drift_fields [simp]:
  "dead_jobs (drift_of ph db epic) = detectDeadBlockingJobs ph (collectEpicJobs db epic)"
  "stale_chain_refs (drift_of ph db epic) = detectStaleChainRefs db epic"
  "stale_redirect_markers (drift_of ph db epic) =
     (case readEpicRun db epic of Some e \<Rightarrow> if hasRedirectMarkers (run_json e) then [epic] else [] | None \<Rightarrow> [])"
  by (simp_all add: drift_of_def Let_def)

lemma no_markers_written: "\<not> hasRedirectMarkers (run_json (readiness_record now s))"
proof -
  have "\<not> has_redirect k" if "k \<in> {''epic_id'', ''status'', ''persisted_state'', ''readiness_state'', ''blockers'',
      ''prep'', ''chains'', ''summary'', ''evaluated_at_ms'', ''note''}" for k
    using that by (elim insertE emptyE; simp; code_simp)
  then show ?thesis
    by (simp add: readiness_record_def hasRedirectMarkers_def opt_key_def Let_def)
qed

text \<open>A store in which the epic needs no repair and its row is up to date is left as it is.\<close>

lemma sync_fixpoint:
  assumes "detectDeadBlockingJobs ph (collectEpicJobs db epic) = []" and "detectStaleChainRefs db epic = []"
    and "readEpicRun db epic = Some e" and "\<not> hasRedirectMarkers (run_json e)"
    and "run_status e = es_next (loadEpicReadinessSummary ph db epic)"
  shows "snd (syncEpicState ph t1 t2 t3 epic True db) = db"
proof -
  have r: "repaired ph t1 epic db = db"
    by (simp add: repaired_eq assms(1,2) deleteEpicChainMembership_def)
  have "\<not> es_can_transition (loadEpicReadinessSummary ph db epic)"
    using assms(3,5) by simp
  moreover have "\<not> (run_status e = Failed_epic \<and> es_readiness (loadEpicReadinessSummary ph db epic) = R_merge_ready)"
    using assms(3,5) by (auto simp: deriveEpicNextState_def)
  ultimately have "snd (syncEpicStateFromReadiness t2 (loadEpicReadinessSummary ph db epic) db) = db"
    using assms(3) by (auto simp: syncEpicStateFromReadiness_def Let_def)
  then show ?thesis
    by (simp add: sync_store r clear_markers_step_def assms(3,4))
qed

section \<open>Properties\<close>

text \<open>C8. Repair converges: applied to a well-formed store, when the row carries no redirect
  marker, it leaves no dead job blocking and no stale membership, caches exactly the state
  the live jobs then say, touches no other epic's row, and doing it again changes nothing.\<close>

theorem sync_converges:
  assumes "store_ok db" and "stale_redirect_markers (drift_of ph db epic) = []"
    and "db' = snd (syncEpicState ph t1 t2 t3 epic True db)"
  shows "(\<exists>e. readEpicRun db' epic = Some e \<and> run_status e = es_next (loadEpicReadinessSummary ph db' epic))
    \<and> dead_jobs (drift_of ph db' epic) = [] \<and> stale_chain_refs (drift_of ph db' epic) = []
    \<and> (\<forall>k. k \<noteq> epic \<longrightarrow> readEpicRun db' k = readEpicRun db k)
    \<and> snd (syncEpicState ph u1 u2 u3 epic True db') = db'"
proof -
  let ?d = "repaired ph t1 epic db"
  let ?s = "loadEpicReadinessSummary ph ?d epic"
  have db': "db' = snd (syncEpicStateFromReadiness t2 ?s ?d)"
    using assms(2) unfolding assms(3) sync_store
    by (simp add: clear_markers_step_def split: option.splits if_splits)
  have rows: "job_rows db' = job_rows ?d" "chain_rows db' = chain_rows ?d" "result_rows db' = result_rows ?d"
    by (simp_all add: db')
  have dead: "detectDeadBlockingJobs ph (collectEpicJobs db' epic) = []"
    and stale: "detectStaleChainRefs db' epic = []"
    by (simp_all add: drift_cong [OF rows(1,2)] repaired_no_dead [OF assms(1)] repaired_no_stale [OF assms(1)])
  obtain e where e: "readEpicRun db' epic = Some e" "run_status e = es_next ?s"
    using sync_readiness_row unfolding db' by blast
  have status: "run_status e = es_next (loadEpicReadinessSummary ph db' epic)"
    using e load_readiness_cong [OF rows, of ph epic] by (simp add: next_state_idem)
  have "\<not> hasRedirectMarkers (run_json e)"
    using e(1) assms(2) no_markers_written [of t2 ?s] unfolding db'
    by (auto simp: syncEpicStateFromReadiness_def readiness_record_def Let_def split: if_splits option.splits)
  then have "snd (syncEpicState ph u1 u2 u3 epic True db') = db'"
    by (rule sync_fixpoint [OF dead stale e(1) _ status])
  moreover have "\<forall>k. k \<noteq> epic \<longrightarrow> readEpicRun db' k = readEpicRun db k"
    by (simp add: db' sync_readiness_other)
  ultimately show ?thesis using e(1) status dead stale by auto
qed


definition demo_job :: "string \<Rightarrow> job_status \<Rightarrow> string option \<Rightarrow> supervisor_status" where
  "demo_job i status chain = \<lparr>st_id = i, st_specialist = ''executor'', st_status = status, st_pid = Some 9,
     st_started_at = 1, st_last_event_at = None, st_bead = None, st_trace = None, st_span = None,
     st_parent_span = None, st_tmux = None, st_worktree_path = None, st_worktree_owner = None,
     st_chain_kind = map_option (\<lambda>_. Chain_kind) chain, st_chain_id = chain, st_chain_root_job = None,
     st_chain_root_bead = None, st_epic = Some ''e'', st_error = None\<rparr>"

definition demo_store :: "json_text \<Rightarrow> store" where
  "demo_store t = \<lparr>job_rows = [(''j'', \<lparr>row_updated = 1, row_status = demo_job ''j'' Running (Some ''c'')\<rparr>)],
     epic_rows = [(''e'', \<lparr>run_epic = ''e'', run_status = Open_epic, run_updated = 1, run_json = t\<rparr>)],
     chain_rows = [(''c'', \<lparr>chain_key = ''c'', chain_epic = ''e'', chain_root_bead = None, chain_root_job = None, chain_updated = 1\<rparr>),
                   (''x'', \<lparr>chain_key = ''x'', chain_epic = ''e'', chain_root_bead = None, chain_root_job = None, chain_updated = 1\<rparr>)],
     result_rows = []\<rparr>"

lemma demo_store_ok: "store_ok (demo_store t)"
  by (simp add: store_ok_def demo_store_def map_ok_def demo_job_def)

theorem sync_converges_witness:
  "let db = demo_store Empty_text; db' = snd (syncEpicState demo_ph 5 6 7 ''e'' True db) in
     detectStaleChainRefs db ''e'' = [''x''] \<and> detectDeadBlockingJobs demo_ph (collectEpicJobs db ''e'') = [''j'']
   \<and> dead_jobs (drift_of demo_ph db' ''e'') = [] \<and> stale_chain_refs (drift_of demo_ph db' ''e'') = []
   \<and> snd (syncEpicState demo_ph 8 9 10 ''e'' True db') = db'"
proof -
  let ?db = "demo_store Empty_text"
  have m: "stale_redirect_markers (drift_of demo_ph ?db ''e'') = []"
    by (simp add: readEpicRun_def demo_store_def hasRedirectMarkers_def)
  have lst: "listEpicChains ?db ''e'' = map snd (chain_rows ?db)"
    by (simp add: listEpicChains_def demo_store_def map_values_def)
  have stale: "detectStaleChainRefs ?db ''e'' = [''x'']"
    unfolding detectStaleChainRefs_def lst
    by (simp add: listChainJobIds_def demo_store_def demo_job_def)
  have dead: "detectDeadBlockingJobs demo_ph (collectEpicJobs ?db ''e'') = [''j'']"
    unfolding detectDeadBlockingJobs_def collectEpicJobs_def lst
    by (simp add: listStatuses_def demo_store_def demo_job_def map_values_def ACTIVE_JOB_STATUSES_def
        isJobDead_def isPidAlive_def demo_ph_def)
  show ?thesis
    using sync_converges [OF demo_store_ok m refl, of 5 6 7 8 9 10] stale dead
    unfolding Let_def by blast
qed

text \<open>A redirect marker undoes the repair: when the epic's row carries one, the row
  written last is the one read at the start with its markers cleared, so the stored state is
  the old one, and a sync that reports the state as resynced leaves a stored state that is
  not the one the live jobs say.\<close>

theorem sync_redirect_reverts:
  assumes "readEpicRun db epic = Some e" and "run_epic e = epic" and "hasRedirectMarkers (run_json e)"
    and "r = syncEpicState ph t1 t2 t3 epic True db"
  shows "redirect_markers_cleared (fst r)
    \<and> map_option run_status (readEpicRun (snd r) epic) = Some (run_status e)
    \<and> (readiness_resynced (fst r) \<longrightarrow>
         map_option run_status (readEpicRun (snd r) epic) \<noteq> Some (es_next (readiness_after (fst r))))"
proof -
  let ?d = "repaired ph t1 epic db"
  let ?s = "loadEpicReadinessSummary ph ?d epic"
  let ?d2 = "snd (syncEpicStateFromReadiness t2 ?s ?d)"
  obtain j where j: "run_json e = Text j" "j \<noteq> JNull" "list_ex (\<lambda>kv. has_redirect (fst kv)) (object_entries j)"
    using assms(3) by (cases "run_json e") (auto simp: hasRedirectMarkers_def split: json.splits)
  have changed: "clearRedirectMarkers (run_json e) \<noteq> run_json e \<and> clearRedirectMarkers (run_json e) \<noteq> Empty_text"
  proof -
    have c: "clearRedirectMarkers (run_json e)
        = Text (JObj (set_all [] (filter (\<lambda>kv. \<not> has_redirect (fst kv)) (object_entries j))))"
      using j(1,2) by (cases j) (simp_all add: clearRedirectMarkers_def)
    have "\<not> list_ex (\<lambda>kv. has_redirect (fst kv)) (set_all [] (filter (\<lambda>kv. \<not> has_redirect (fst kv)) (object_entries j)))"
      using fst_set_set_all [of "[]" "filter (\<lambda>kv. \<not> has_redirect (fst kv)) (object_entries j)"]
      by (auto simp: list_ex_iff) (metis (mono_tags, lifting) fst_conv image_iff mem_Collect_eq)
    then show ?thesis using c j by (cases j) auto
  qed
  have step: "fst (clear_markers_step t3 (Some e) (drift_of ph db epic) db2)" for db2
    using changed assms(1,3) by (simp add: clear_markers_step_def Let_def)
  have store: "snd r = snd (clear_markers_step t3 (Some e) (drift_of ph db epic) ?d2)"
    by (simp add: assms(4) sync_store assms(1))
  have row: "map_option run_status (readEpicRun (snd r) epic) = Some (run_status e)"
    by (simp add: store read_clear_markers step assms(2))
  have rows: "job_rows (snd r) = job_rows ?d" "chain_rows (snd r) = chain_rows ?d" "result_rows (snd r) = result_rows ?d"
    by (simp_all add: store)
  have after: "readiness_after (fst r) = loadEpicReadinessSummary ph (snd r) epic"
    by (simp add: assms(4) syncEpicState_def Let_def)
  have resynced: "readiness_resynced (fst r) = (es_next ?s \<noteq> es_persisted ?s)"
    by (simp add: assms(4) syncEpicState_def repaired_def syncEpicStateFromReadiness_def readiness_record_def Let_def)
  have nxt: "es_next (readiness_after (fst r)) = es_next ?s"
    using row load_readiness_cong [OF rows, of ph epic] assms(1) by (auto simp: after)
  have "redirect_markers_cleared (fst r)"
    using step assms(1) by (simp add: assms(4) syncEpicState_def Let_def)
  then show ?thesis
    using row resynced nxt assms(1) by auto
qed


definition redirect_json :: json_text where
  "redirect_json = Text (JObj [(''redirectedTo'', JStr ''x'')])"

theorem sync_redirect_reverts_witness:
  "let r = syncEpicState demo_ph 5 6 7 ''e'' True (demo_store redirect_json) in
     redirect_markers_cleared (fst r) \<and> map_option run_status (readEpicRun (snd r) ''e'') = Some Open_epic"
proof -
  have h: "hasRedirectMarkers redirect_json" by code_simp
  have e: "readEpicRun (demo_store redirect_json) ''e''
      = Some \<lparr>run_epic = ''e'', run_status = Open_epic, run_updated = 1, run_json = redirect_json\<rparr>"
    by (simp add: readEpicRun_def demo_store_def)
  from sync_redirect_reverts [OF e _ _ refl, of demo_ph 5 6 7] h show ?thesis
    by (simp add: Let_def)
qed

lemma abandoned_trail:
  "audit_trail (Some (buildAbandonedStatusJson now e epic from_state why forced)) =
     filter (\<lambda>j. truthy_json j \<and> is_object j) (audit_trail (map_option run_json e))
     @ [audit_json \<lparr>au_from = from_state, au_to = Abandoned, au_at = now, au_reason = Some why,
          au_trigger = Some ''sp epic abandon'', au_forced = Some forced\<rparr>]"
proof -
  define entry where "entry = \<lparr>au_from = from_state, au_to = Abandoned, au_at = now, au_reason = Some why,
          au_trigger = Some ''sp epic abandon'', au_forced = Some forced\<rparr>"
  obtain m where m: "appendEpicTransitionAudit (map_option run_json e) entry = Text (JObj m)" "map_ok m"
      "map_get m ''transitions'' = Some (JArr (filter (\<lambda>j. truthy_json j \<and> is_object j)
          (audit_trail (map_option run_json e)) @ [audit_json entry]))"
    using append_audit_text [of "map_option run_json e" entry] by blast
  show ?thesis
    using m by (simp add: buildAbandonedStatusJson_def audit_trail_def map_get_set map_get_set_all
        flip: entry_def)
qed

text \<open>Abandonment: it succeeds exactly when the epic is neither merged nor abandoned and
  either it is forced or none of its jobs is live; it then stores \<open>abandoned\<close>, keeps every
  transition recorded before and records this one after them; no other row is touched, and
  when it is refused nothing is stored.\<close>

theorem abandon_correct:
  "let e = readEpicRun db epic; r = abandonEpic ph t1 t2 epic why force db; from_state = (case e of Some x \<Rightarrow> run_status x | None \<Rightarrow> Open_epic) in
     (if from_state \<noteq> Merged \<and> from_state \<noteq> Abandoned \<and> (force \<or> listLiveMemberJobIds ph db epic = [])
      then \<exists>a e'. fst r = Inr a \<and> ab_from a = from_state \<and> readEpicRun (snd r) epic = Some e' \<and> run_status e' = Abandoned
        \<and> audit_trail (Some (run_json e'))
          = filter (\<lambda>j. truthy_json j \<and> is_object j) (audit_trail (map_option run_json e))
            @ [audit_json \<lparr>au_from = from_state, au_to = Abandoned, au_at = t1, au_reason = Some why,
                 au_trigger = Some ''sp epic abandon'', au_forced = Some force\<rparr>]
      else \<exists>m. r = (Inl (Epic_error m), db))
   \<and> (if k = epic then True else readEpicRun (snd r) k = readEpicRun db k)
   \<and> job_rows (snd r) = job_rows db \<and> chain_rows (snd r) = chain_rows db"
  by (simp add: abandonEpic_def abandoned_trail Let_def)

text \<open>The advisory lock excludes: with the lock taken an attempt is refused and nothing
  changes; with it free the action runs with it taken, so a second attempt on the epic
  inside the action is refused without running, and afterwards it is free again. Only a
  failed write of the holder's record breaks this: it leaves the lock taken.\<close>

theorem advisory_lock:
  "(if fst s epic \<noteq> None
    then withEpicAdvisoryLock epic True txt action s = (Inl (lock_busy epic (the (fst s epic))), s)
    else fst (withEpicAdvisoryLock epic True txt action s) = fst (action ((fst s)(epic \<mapsto> txt), snd s))
       \<and> fst (snd (withEpicAdvisoryLock epic True txt action s)) epic = None
       \<and> withEpicAdvisoryLock epic True txt (withEpicAdvisoryLock epic writes txt' action') s
           = (Inl (lock_busy epic txt), s)
       \<and> withEpicAdvisoryLock epic True txt action
           (snd (withEpicAdvisoryLock epic False txt' action' s))
           = (Inl (lock_busy epic []), (fst s)(epic \<mapsto> []), snd s))"
  by (cases s) (auto simp: withEpicAdvisoryLock_def Let_def fun_upd_idem)

end
