(* ===== verification/Interaction.thy ===== *)
theory Interaction imports Prelude begin

text \<open>
  \<open>src/activation/interaction.ts\<close>: the in-process transport between a parent and its
  children. An asynchronous method is cut where it awaits: the synchronous parts are the
  functions below, and a step relation interleaves them as the event loop may. \<open>newId\<close>,
  \<open>now\<close> and the outcome of \<open>deliver\<close> are arguments.
\<close>

section \<open>Messages\<close>

datatype interaction_kind = Question | Escalation | Finding | Completion | Reply | Instruction

datatype delivery_state = Pending | Delivered | Refused

record message =
  messageId :: string
  kind :: interaction_kind
  from_p :: string
  to_p :: string
  msg_activation :: string
  msg_attempt :: string
  piSessionId :: "string option"
  inReplyTo :: "string option"
  body :: string
  createdAt :: int

record send_input =
  in_kind :: interaction_kind
  in_from :: string
  in_to :: string
  in_activation :: string
  in_attempt :: string
  in_session :: "string option"
  in_body :: string
  in_replyTo :: "string option"

record pending_ask =
  ask_message :: message
  ask_delivery :: delivery_state
  askedAt :: int

datatype reply_error = UncorrelatedReply "string option"

definition present :: "string option \<Rightarrow> string option" where
  "present s = (if truthy s then s else None)"

definition composeInteractionMessage :: "send_input \<Rightarrow> string \<Rightarrow> int \<Rightarrow> message" where
  "composeInteractionMessage i mid t =
     \<lparr>messageId = mid, kind = in_kind i, from_p = in_from i, to_p = in_to i, msg_activation = in_activation i,
      msg_attempt = in_attempt i, piSessionId = present (in_session i), inReplyTo = present (in_replyTo i),
      body = in_body i, createdAt = t\<rparr>"

section \<open>The transport\<close>

text \<open>\<open>resolved\<close> holds what each registered waiter was called with.\<close>

record transport =
  pending :: "(string, pending_ask) js_map"
  waiters :: "(string, unit) js_map"
  answered :: "(string, message) js_map"
  history :: "message list"
  resolved :: "string \<Rightarrow> message option"

definition new_transport :: transport where
  "new_transport = \<lparr>pending = [], waiters = [], answered = [], history = [], resolved = Map.empty\<rparr>"

definition expects_answer :: "interaction_kind \<Rightarrow> bool" where
  "expects_answer k \<longleftrightarrow> k = Question \<or> k = Escalation"

text \<open>\<open>send\<close> of anything but a reply, up to its \<open>await\<close>; then what it does with the outcome.\<close>

definition send_begin :: "send_input \<Rightarrow> string \<Rightarrow> int \<Rightarrow> transport \<Rightarrow> message \<times> transport" where
  "send_begin i mid t s =
     (let m = composeInteractionMessage i mid t;
          s1 = s\<lparr>history := history s @ [m]\<rparr>
      in (m, if expects_answer (kind m)
             then s1\<lparr>pending := map_set (pending s1) (messageId m)
                      \<lparr>ask_message = m, ask_delivery = Pending, askedAt = createdAt m\<rparr>\<rparr>
             else s1))"

definition send_end :: "string \<Rightarrow> bool \<Rightarrow> transport \<Rightarrow> transport" where
  "send_end mid delivered s =
     (case map_get (pending s) mid of
        None \<Rightarrow> s
      | Some ask \<Rightarrow> s\<lparr>pending := map_set (pending s) mid
          (ask\<lparr>ask_delivery := (if delivered then Delivered else Pending)\<rparr>)\<rparr>)"

text \<open>\<open>attemptDelivery\<close>: the hook's answer, \<^term>\<open>None\<close> when it threw; no hook is no receipt.\<close>

fun attemptDelivery :: "(message \<Rightarrow> bool option) option \<Rightarrow> message \<Rightarrow> bool" where
  "attemptDelivery None m = False"
| "attemptDelivery (Some deliver) m = (deliver m = Some True)"

definition request_begin :: "send_input \<Rightarrow> string \<Rightarrow> int \<Rightarrow> transport \<Rightarrow> message \<times> transport" where
  "request_begin i mid t s = send_begin i mid t (s\<lparr>waiters := map_set (waiters s) mid ()\<rparr>)"

text \<open>After the send: the early reply, or \<^term>\<open>None\<close> when the caller goes on waiting.\<close>

definition request_end :: "string \<Rightarrow> transport \<Rightarrow> message option \<times> transport" where
  "request_end mid s =
     (case map_get (answered s) mid of
        Some m \<Rightarrow> (Some m, s\<lparr>waiters := map_delete (waiters s) mid, answered := map_delete (answered s) mid\<rparr>)
      | None \<Rightarrow> (None, s))"

definition reply :: "send_input \<Rightarrow> string \<Rightarrow> int \<Rightarrow> transport \<Rightarrow> (reply_error + message) \<times> transport" where
  "reply i mid t s =
     (case in_replyTo i of
        None \<Rightarrow> (Inl (UncorrelatedReply None), s)
      | Some target \<Rightarrow>
          if target = [] \<or> \<not> map_has (pending s) target
          then (Inl (UncorrelatedReply (Some target)), s)
          else
            let m = composeInteractionMessage i mid t;
                s1 = s\<lparr>history := history s @ [m], pending := map_delete (pending s) target\<rparr>;
                s2 = (if map_has (waiters s1) target
                      then s1\<lparr>waiters := map_delete (waiters s1) target, resolved := (resolved s1)(target \<mapsto> m)\<rparr>
                      else s1)
            in (Inr m, s2\<lparr>answered := map_set (answered s2) target m\<rparr>))"

section \<open>Projections\<close>

definition pendingAsks :: "transport \<Rightarrow> string option \<Rightarrow> pending_ask list" where
  "pendingAsks s participant =
     sort_key askedAt (filter (\<lambda>ask. \<not> truthy participant \<or> from_p (ask_message ask) = the participant
        \<or> to_p (ask_message ask) = the participant) (map_values (pending s)))"

definition attention :: "transport \<Rightarrow> string \<Rightarrow> bool" where
  "attention s participant \<longleftrightarrow>
     list_ex (\<lambda>ask. to_p (ask_message ask) = participant) (map_values (pending s))"

datatype implied = Needs_reply | Escalated

definition impliedState :: "transport \<Rightarrow> string \<Rightarrow> implied option" where
  "impliedState s act =
     (let asks = filter (\<lambda>a. msg_activation (ask_message a) = act) (map_values (pending s)) in
      if list_ex (\<lambda>a. kind (ask_message a) = Escalation) asks then Some Escalated
      else if asks \<noteq> [] then Some Needs_reply else None)"

section \<open>Any interleaving\<close>

text \<open>A call of \<open>request\<close>, by the message id it allocated.\<close>

datatype call_state = Not_called | Sending | Suspended | Returned message

record session =
  tr :: transport
  calls :: "string \<Rightarrow> call_state"
  used :: "string set"

definition start_session :: session where
  "start_session = \<lparr>tr = new_transport, calls = (\<lambda>_. Not_called), used = {}\<rparr>"

text \<open>A suspended call resumes with what its waiter was called with.\<close>

inductive turn :: "session \<Rightarrow> session \<Rightarrow> bool" where
  turn_request: "mid \<notin> used s \<Longrightarrow> mid \<noteq> [] \<Longrightarrow> expects_answer (in_kind i) \<Longrightarrow>
     turn s (s\<lparr>tr := snd (request_begin i mid t (tr s)), calls := (calls s)(mid := Sending), used := insert mid (used s)\<rparr>)"
| turn_sent: "turn s (s\<lparr>tr := send_end mid b (tr s)\<rparr>)"
| turn_return: "calls s mid = Sending \<Longrightarrow> request_end mid (tr s) = (early, w) \<Longrightarrow>
     turn s (s\<lparr>tr := w, calls := (calls s)(mid := (case early of Some m \<Rightarrow> Returned m | None \<Rightarrow> Suspended))\<rparr>)"
| turn_resume: "calls s mid = Suspended \<Longrightarrow> resolved (tr s) mid = Some m \<Longrightarrow>
     turn s (s\<lparr>calls := (calls s)(mid := Returned m)\<rparr>)"
| turn_send: "mid \<notin> used s \<Longrightarrow> mid \<noteq> [] \<Longrightarrow> in_kind i \<noteq> Reply \<Longrightarrow>
     turn s (s\<lparr>tr := snd (send_begin i mid t (tr s)), used := insert mid (used s)\<rparr>)"
| turn_reply: "mid \<notin> used s \<Longrightarrow> mid \<noteq> [] \<Longrightarrow> in_kind i = Reply \<Longrightarrow>
     turn s (s\<lparr>tr := snd (reply i mid t (tr s)), used := insert mid (used s)\<rparr>)"

inductive session_reachable :: "session \<Rightarrow> bool" where
  session_start: "session_reachable start_session"
| session_turn: "session_reachable s \<Longrightarrow> turn s s' \<Longrightarrow> session_reachable s'"

text \<open>The accepted answers to a message, in order.\<close>

definition answers_to :: "string \<Rightarrow> transport \<Rightarrow> message list" where
  "answers_to mid s = filter (\<lambda>m. kind m = Reply \<and> inReplyTo m = Some mid) (history s)"


section \<open>The invariant of one question\<close>

text \<open>Stated on what one question shows: whether its id is used, its call, the answers to it,
  whether it is pending and waited for, and what \<open>answered\<close> and its waiter hold.\<close>

fun call_inv :: "call_state \<Rightarrow> message list \<Rightarrow> bool \<Rightarrow> bool \<Rightarrow> message option \<Rightarrow> message option \<Rightarrow> bool" where
  "call_inv Not_called a p w d r = True"
| "call_inv Sending a p w d r = (if a = [] then p \<and> w else d = Some (hd a) \<and> r = Some (hd a))"
| "call_inv Suspended a p w d r = (if a = [] then p \<and> w else r = Some (hd a))"
| "call_inv (Returned m) a p w d r = (a = [m])"

definition view_inv :: "bool \<Rightarrow> call_state \<Rightarrow> message list \<Rightarrow> bool \<Rightarrow> bool \<Rightarrow> message option \<Rightarrow> message option \<Rightarrow> bool" where
  "view_inv u c a p w d r \<longleftrightarrow>
     (if u then True else c = Not_called \<and> a = [] \<and> \<not> p \<and> \<not> w \<and> d = None \<and> r = None)
   \<and> (if p then a = [] \<and> d = None \<and> r = None else True)
   \<and> length a \<le> 1 \<and> call_inv c a p w d r"

definition question_inv :: "session \<Rightarrow> string \<Rightarrow> bool" where
  "question_inv s q \<longleftrightarrow>
     view_inv (q \<in> used s) (calls s q) (answers_to q (tr s)) (map_has (pending (tr s)) q)
       (map_has (waiters (tr s)) q) (map_get (answered (tr s)) q) (resolved (tr s) q)"

lemma view_inv_asked: "view_inv False c a p w d r \<Longrightarrow> view_inv True Sending a True True d r"
  by (simp add: view_inv_def)

lemma view_inv_told: "view_inv False c a p w d r \<Longrightarrow> view_inv True c a p' w d r"
  by (simp add: view_inv_def)

lemma view_inv_early: "view_inv u Sending a p w (Some m) r \<Longrightarrow> view_inv u (Returned m) a p False None r"
  by (cases a) (auto simp: view_inv_def split: if_splits)

lemma view_inv_wait: "view_inv u Sending a p w None r \<Longrightarrow> view_inv u Suspended a p w None r"
  by (auto simp: view_inv_def split: if_splits)

lemma view_inv_resume: "view_inv u Suspended a p w d (Some m) \<Longrightarrow> view_inv u (Returned m) a p w d (Some m)"
  by (cases a) (auto simp: view_inv_def split: if_splits)

lemma view_inv_answer:
  "view_inv u c a True w d r \<Longrightarrow> view_inv u c (a @ [m]) False False (Some m) (if w then Some m else r)"
  by (cases c) (auto simp: view_inv_def split: if_splits)

lemma view_inv_used: "view_inv u c a p w d r \<Longrightarrow> view_inv True c a p w d r"
  by (simp add: view_inv_def)

text \<open>What each part does to the history of answers and to the maps.\<close>

lemma compose_fields [simp]:
  "messageId (composeInteractionMessage i mid t) = mid" "kind (composeInteractionMessage i mid t) = in_kind i"
  "inReplyTo (composeInteractionMessage i mid t) = present (in_replyTo i)"
  by (simp_all add: composeInteractionMessage_def)

lemma answers_snoc:
  "answers_to q (s\<lparr>history := history s @ [m]\<rparr>)
     = answers_to q s @ (if kind m = Reply \<and> inReplyTo m = Some q then [m] else [])"
  by (simp add: answers_to_def)

lemma answers_frame [simp]:
  "answers_to q (s\<lparr>pending := p\<rparr>) = answers_to q s" "answers_to q (s\<lparr>waiters := w\<rparr>) = answers_to q s"
  "answers_to q (s\<lparr>answered := a\<rparr>) = answers_to q s" "answers_to q (s\<lparr>resolved := r\<rparr>) = answers_to q s"
  by (simp_all add: answers_to_def)

lemma map_has_set [simp]: "map_has (map_set m k v) k' = (k = k' \<or> map_has m k')"
  by (simp add: map_has_def map_get_set)

lemma map_has_delete [simp]: "map_has (map_delete m k) k' = (k \<noteq> k' \<and> map_has m k')"
  by (simp add: map_has_def map_get_delete)

lemma send_begin_effect:
  assumes "in_kind i \<noteq> Reply"
  shows "answers_to q (snd (send_begin i mid t s)) = answers_to q s"
    and "map_has (pending (snd (send_begin i mid t s))) q = (q = mid \<and> expects_answer (in_kind i) \<or> map_has (pending s) q)"
    and "waiters (snd (send_begin i mid t s)) = waiters s"
    and "answered (snd (send_begin i mid t s)) = answered s"
    and "resolved (snd (send_begin i mid t s)) = resolved s"
  using assms by (auto simp: send_begin_def answers_snoc Let_def)

lemma send_end_effect:
  "answers_to q (send_end mid b s) = answers_to q s"
  "map_has (pending (send_end mid b s)) q = map_has (pending s) q"
  "waiters (send_end mid b s) = waiters s" "answered (send_end mid b s) = answered s"
  "resolved (send_end mid b s) = resolved s"
  by (auto simp: send_end_def map_has_def map_get_set split: option.splits)

definition answerable :: "send_input \<Rightarrow> transport \<Rightarrow> string \<Rightarrow> bool" where
  "answerable i s target \<longleftrightarrow> in_replyTo i = Some target \<and> target \<noteq> [] \<and> map_has (pending s) target"

lemma reply_refused: "\<forall>target. \<not> answerable i s target \<Longrightarrow> reply i mid t s = (Inl (UncorrelatedReply (in_replyTo i)), s)"
  by (auto simp: reply_def answerable_def split: option.splits)

lemma reply_effect:
  fixes mid :: string and t :: int
  assumes "answerable i s target" and "in_kind i = Reply"
  defines "m \<equiv> composeInteractionMessage i mid t"
  shows "fst (reply i mid t s) = Inr m"
    and "answers_to q (snd (reply i mid t s)) = answers_to q s @ (if q = target then [m] else [])"
    and "map_has (pending (snd (reply i mid t s))) q = (q \<noteq> target \<and> map_has (pending s) q)"
    and "map_has (waiters (snd (reply i mid t s))) q = (q \<noteq> target \<and> map_has (waiters s) q)"
    and "map_get (answered (snd (reply i mid t s))) q = (if q = target then Some m else map_get (answered s) q)"
    and "resolved (snd (reply i mid t s)) q =
      (if q = target \<and> map_has (waiters s) target then Some m else resolved s q)"
proof -
  have p: "present (in_replyTo i) = Some target" using assms(1) by (simp add: present_def truthy_def answerable_def)
  note d = reply_def map_get_set answers_snoc Let_def m_def answerable_def
  show "fst (reply i mid t s) = Inr m"
    and "answers_to q (snd (reply i mid t s)) = answers_to q s @ (if q = target then [m] else [])"
    and "map_has (pending (snd (reply i mid t s))) q = (q \<noteq> target \<and> map_has (pending s) q)"
    and "map_has (waiters (snd (reply i mid t s))) q = (q \<noteq> target \<and> map_has (waiters s) q)"
    and "map_get (answered (snd (reply i mid t s))) q = (if q = target then Some m else map_get (answered s) q)"
    and "resolved (snd (reply i mid t s)) q =
      (if q = target \<and> map_has (waiters s) target then Some m else resolved s q)"
    using assms(1,2) p by (auto simp: d)
qed

lemma question_inv_turn:
  assumes "turn s s'" and inv: "question_inv s q"
  shows "question_inv s' q"
  using assms(1)
proof cases
  case (turn_request mid i t)
  then have k: "in_kind i \<noteq> Reply" by (auto simp: expects_answer_def)
  show ?thesis
    using turn_request inv view_inv_asked
    by (cases "q = mid") (auto simp: question_inv_def request_begin_def send_begin_effect [OF k])
next
  case (turn_sent mid b)
  then show ?thesis using inv by (simp add: question_inv_def send_end_effect)
next
  case (turn_return mid early w)
  then show ?thesis
    using inv view_inv_early view_inv_wait
    by (cases "q = mid") (auto simp: question_inv_def request_end_def map_get_delete split: option.splits)
next
  case (turn_resume mid m)
  then show ?thesis
    using inv view_inv_resume by (cases "q = mid") (auto simp: question_inv_def)
next
  case (turn_send mid i t)
  then show ?thesis
    using inv view_inv_told by (cases "q = mid") (auto simp: question_inv_def send_begin_effect [OF turn_send(4)])
next
  case (turn_reply mid i t)
  show ?thesis
  proof (cases "\<exists>target. answerable i (tr s) target")
    case False
    then show ?thesis
      using turn_reply inv view_inv_used by (cases "q = mid") (auto simp: question_inv_def reply_refused)
  next
    case True
    then obtain target where tgt: "answerable i (tr s) target" by blast
    have p: "map_has (pending (tr s)) target" using tgt by (simp add: answerable_def)
    note eff = reply_effect [OF tgt turn_reply(4), where mid = mid and t = t]
    have u: "q \<in> used s'" if "q \<in> used s" using that turn_reply(1) by simp
    show ?thesis
    proof (cases "q = target")
      case True
      have here: "view_inv (q \<in> used s) (calls s q) (answers_to q (tr s)) True (map_has (waiters (tr s)) q)
          (map_get (answered (tr s)) q) (resolved (tr s) q)"
        using inv p True by (simp add: question_inv_def)
      then have used_q: "q \<in> used s" by (auto simp: view_inv_def split: if_splits)
      from view_inv_answer [OF here, of "composeInteractionMessage i mid t"]
      show ?thesis
        using turn_reply(1) True used_q by (auto simp: question_inv_def eff split: if_splits)
    next
      case False
      then show ?thesis
        using inv turn_reply(1) view_inv_used by (cases "q = mid") (auto simp: question_inv_def eff)
    qed
  qed
qed

lemma question_inv_start: "question_inv start_session q"
  by (simp add: question_inv_def view_inv_def start_session_def new_transport_def answers_to_def map_has_def)

lemma question_inv_reachable: "session_reachable s \<Longrightarrow> question_inv s q"
  by (induction rule: session_reachable.induct) (simp_all add: question_inv_start question_inv_turn)

section \<open>Properties\<close>

text \<open>C9. No reply is lost or crossed, in any interleaving of questions, sends, deliveries,
  replies and resumptions: a call that returned has the one accepted reply that names its
  question; a call whose question is answered but has not returned returns that very reply at
  its next turn, however early the reply came; an unanswered one is still outstanding, and a
  reply naming it is accepted.\<close>

theorem request_answered:
  assumes "session_reachable s"
  shows "(calls s q = Returned m \<longrightarrow> answers_to q (tr s) = [m] \<and> kind m = Reply \<and> inReplyTo m = Some q)
    \<and> length (answers_to q (tr s)) \<le> 1
    \<and> (answers_to q (tr s) = [m] \<longrightarrow>
         (calls s q = Sending \<longrightarrow> fst (request_end q (tr s)) = Some m)
       \<and> (calls s q = Suspended \<longrightarrow> resolved (tr s) q = Some m))
    \<and> (calls s q \<in> {Sending, Suspended} \<and> answers_to q (tr s) = [] \<longrightarrow>
         map_has (pending (tr s)) q
       \<and> (\<forall>i mid t. in_kind i = Reply \<and> in_replyTo i = Some q \<and> q \<noteq> [] \<longrightarrow>
            (\<exists>a. fst (reply i mid t (tr s)) = Inr a \<and> inReplyTo a = Some q)))"
proof -
  have inv: "view_inv (q \<in> used s) (calls s q) (answers_to q (tr s)) (map_has (pending (tr s)) q)
       (map_has (waiters (tr s)) q) (map_get (answered (tr s)) q) (resolved (tr s) q)"
    using question_inv_reachable [OF assms] by (simp add: question_inv_def)
  have 1: "answers_to q (tr s) = [m] \<and> kind m = Reply \<and> inReplyTo m = Some q" if "calls s q = Returned m"
  proof -
    have a: "answers_to q (tr s) = [m]" using inv that by (simp add: view_inv_def)
    then have "m \<in> set (answers_to q (tr s))" by simp
    then show ?thesis using a by (simp add: answers_to_def)
  qed
  have 2: "length (answers_to q (tr s)) \<le> 1" using inv by (simp add: view_inv_def)
  have 3: "(calls s q = Sending \<longrightarrow> fst (request_end q (tr s)) = Some m) \<and> (calls s q = Suspended \<longrightarrow> resolved (tr s) q = Some m)"
    if "answers_to q (tr s) = [m]"
    using inv that by (auto simp: view_inv_def request_end_def)
  have 4: "map_has (pending (tr s)) q" if "calls s q \<in> {Sending, Suspended}" "answers_to q (tr s) = []"
    using inv that by (auto simp: view_inv_def)
  have 5: "\<exists>a. fst (reply i mid t (tr s)) = Inr a \<and> inReplyTo a = Some q"
    if "map_has (pending (tr s)) q" "in_kind i = Reply" "in_replyTo i = Some q" "q \<noteq> []" for i mid t
    using reply_effect(1) [where i = i and s = "tr s" and target = q and mid = mid and t = t] that
    by (simp add: answerable_def present_def truthy_def)
  show ?thesis using 1 2 3 4 5 by blast
qed

definition demo_ask :: send_input where
  "demo_ask = \<lparr>in_kind = Question, in_from = ''s'', in_to = ''c'', in_activation = ''a'', in_attempt = ''t'',
     in_session = None, in_body = ''?'', in_replyTo = None\<rparr>"

text \<open>The reply outruns the send: it is accepted while the call is still sending.\<close>

theorem request_answered_witness:
  "\<exists>s m. session_reachable s \<and> calls s ''q'' = Sending \<and> fst (request_end ''q'' (tr s)) = Some m
     \<and> inReplyTo m = Some ''q''"
proof -
  let ?rep = "demo_ask\<lparr>in_kind := Reply, in_replyTo := Some ''q''\<rparr>"
  let ?s1 = "start_session\<lparr>tr := snd (request_begin demo_ask ''q'' 1 (tr start_session)),
      calls := (calls start_session)(''q'' := Sending), used := insert ''q'' (used start_session)\<rparr>"
  let ?s2 = "?s1\<lparr>tr := snd (reply ?rep ''r'' 2 (tr ?s1)), used := insert ''r'' (used ?s1)\<rparr>"
  have r1: "session_reachable ?s1"
    by (rule session_turn [OF session_start turn_request]) (simp_all add: start_session_def demo_ask_def expects_answer_def)
  have r2: "session_reachable ?s2"
    by (rule session_turn [OF r1 turn_reply]) (simp_all add: start_session_def)
  have ans: "answerable ?rep (tr ?s1) ''q''"
    by (simp add: answerable_def demo_ask_def request_begin_def send_begin_effect expects_answer_def)
  have k: "in_kind demo_ask \<noteq> Reply" by (simp add: demo_ask_def)
  have "answers_to ''q'' (tr start_session) = []"
    by (simp add: start_session_def new_transport_def answers_to_def)
  then have none: "answers_to ''q'' (tr ?s1) = []"
    using k by (simp add: request_begin_def send_begin_effect)
  define m where "m = composeInteractionMessage ?rep ''r'' 2"
  have m: "answers_to ''q'' (tr ?s2) = [m]" "inReplyTo m = Some ''q''"
    using reply_effect(2) [OF ans, where mid = "''r''" and t = 2 and q = "''q''"] none
    by (simp_all add: m_def present_def truthy_def)
  have "fst (request_end ''q'' (tr ?s2)) = Some m"
    using request_answered [OF r2, of "''q''" m] m(1) by simp
  then show ?thesis using r2 m(2) by (intro exI [of _ ?s2] exI [of _ m]) simp
qed

end
