(* ===== verification/Pending_Store.thy ===== *)
theory Pending_Store imports Interaction begin

text \<open>
  \<open>src/activation/transport/pending-store.ts\<close>: the durable record of every message sent to
  a coordinator, with its delivery state, and the replies. A record and a reply each are one
  file, replaced atomically; the state maps the pair of activation and message id to the
  contents (\<open>Corrupt\<close> when they do not parse). Ids are those of the runtime, so no record
  has the file name of a reply. The record files are listed in directory order.
\<close>

section \<open>Data\<close>

datatype wire_state = W_pending | W_sent_unconfirmed | W_delivered | W_refused | W_undeliverable

datatype attempt_outcome = A_sent_unconfirmed | A_refused | A_undeliverable

fun wire_of :: "attempt_outcome \<Rightarrow> wire_state" where
  "wire_of A_sent_unconfirmed = W_sent_unconfirmed"
| "wire_of A_refused = W_refused"
| "wire_of A_undeliverable = W_undeliverable"

record delivery_attempt =
  att_at :: int
  att_route :: string
  att_outcome :: attempt_outcome
  att_detail :: "string option"

record pending_interaction =
  pi_messageId :: string
  pi_activation :: string
  pi_kind :: interaction_kind
  pi_createdAt :: int
  pi_message :: message
  pi_state :: wire_state
  pi_attempts :: "delivery_attempt list"
  pi_receipt :: "string option"
  pi_deliveredAt :: "int option"

record interaction_reply =
  ir_messageId :: string
  ir_activation :: string
  ir_repliedAt :: int
  ir_body :: message

datatype 'a json_file = Corrupt_file | Parsed 'a

type_synonym interaction_key = "string \<times> string"

record interaction_store =
  records :: "(interaction_key, pending_interaction json_file) js_map"
  replies :: "interaction_key \<Rightarrow> interaction_reply json_file option"

datatype pending_error = Already_exists | No_record | Receipt_mismatch | Reply_mismatch

fun projectDeliveryState :: "wire_state \<Rightarrow> delivery_state" where
  "projectDeliveryState W_delivered = Delivered"
| "projectDeliveryState W_refused = Refused"
| "projectDeliveryState _ = Pending"

definition KINDS_AWAITING_REPLY :: "interaction_kind list" where
  "KINDS_AWAITING_REPLY = [Question, Escalation]"

definition createsPendingAsk :: "interaction_kind \<Rightarrow> bool" where
  "createsPendingAsk k \<longleftrightarrow> k \<in> set KINDS_AWAITING_REPLY"

definition isConfirmable :: "interaction_kind \<Rightarrow> bool" where
  "isConfirmable k = createsPendingAsk k"

section \<open>Operations\<close>

fun parsed :: "'a json_file option \<Rightarrow> 'a option" where
  "parsed (Some (Parsed x)) = Some x"
| "parsed _ = None"

definition read_record :: "interaction_store \<Rightarrow> interaction_key \<Rightarrow> pending_interaction option" where
  "read_record s key = parsed (map_get (records s) key)"

definition read_reply :: "interaction_store \<Rightarrow> interaction_key \<Rightarrow> interaction_reply option" where
  "read_reply s key = parsed (replies s key)"

definition write_record :: "interaction_key \<Rightarrow> pending_interaction \<Rightarrow> interaction_store \<Rightarrow> interaction_store" where
  "write_record key r s = s\<lparr>records := map_set (records s) key (Parsed r)\<rparr>"

definition create_record ::
  "interaction_key \<Rightarrow> interaction_kind \<Rightarrow> message \<Rightarrow> int \<Rightarrow> interaction_store
   \<Rightarrow> (pending_error + pending_interaction) \<times> interaction_store" where
  "create_record key k m t s =
     (let r = \<lparr>pi_messageId = snd key, pi_activation = fst key, pi_kind = k, pi_createdAt = t, pi_message = m,
               pi_state = W_pending, pi_attempts = [], pi_receipt = None, pi_deliveredAt = None\<rparr>
      in if map_has (records s) key then (Inl Already_exists, s) else (Inr r, write_record key r s))"

definition recordAttempt ::
  "interaction_key \<Rightarrow> delivery_attempt \<Rightarrow> interaction_store
   \<Rightarrow> (pending_error + pending_interaction) \<times> interaction_store" where
  "recordAttempt key a s =
     (case read_record s key of
        None \<Rightarrow> (Inl No_record, s)
      | Some r \<Rightarrow>
          let r1 = r\<lparr>pi_attempts := pi_attempts r @ [a]\<rparr>;
              r2 = (if pi_state r1 \<noteq> W_delivered then r1\<lparr>pi_state := wire_of (att_outcome a)\<rparr> else r1)
          in (Inr r2, write_record key r2 s))"

definition recordReceipt ::
  "interaction_key \<Rightarrow> string \<Rightarrow> string option \<Rightarrow> int \<Rightarrow> interaction_store
   \<Rightarrow> (pending_error + pending_interaction) \<times> interaction_store" where
  "recordReceipt key origMsgId receiptMsgId t s =
     (case read_record s key of
        None \<Rightarrow> (Inl No_record, s)
      | Some r \<Rightarrow>
          if origMsgId \<noteq> snd key then (Inl Receipt_mismatch, s)
          else
            let r1 = r\<lparr>pi_state := W_delivered, pi_receipt := receiptMsgId, pi_deliveredAt := Some t\<rparr>
            in (Inr r1, write_record key r1 s))"

definition recordReply ::
  "interaction_key \<Rightarrow> message \<Rightarrow> int \<Rightarrow> interaction_store
   \<Rightarrow> (pending_error + interaction_reply) \<times> interaction_store" where
  "recordReply key m t s =
     (case read_record s key of
        None \<Rightarrow> (Inl No_record, s)
      | Some r \<Rightarrow>
          let rep = \<lparr>ir_messageId = snd key, ir_activation = fst key, ir_repliedAt = t, ir_body = m\<rparr>
          in (Inr rep, s\<lparr>replies := (replies s)(key \<mapsto> Parsed rep)\<rparr>))"

definition recordReplyDelivery ::
  "interaction_key \<Rightarrow> string option \<Rightarrow> int \<Rightarrow> interaction_store
   \<Rightarrow> (pending_error + pending_interaction) \<times> interaction_store" where
  "recordReplyDelivery key cited t s =
     (case read_record s key of
        None \<Rightarrow> (Inl No_record, s)
      | Some r \<Rightarrow>
          if cited \<noteq> Some (snd key) then (Inl Reply_mismatch, s)
          else if \<not> isConfirmable (pi_kind r) then (Inr r, s)
          else if pi_state r \<noteq> W_sent_unconfirmed then (Inr r, s)
          else
            let r1 = r\<lparr>pi_state := W_delivered, pi_deliveredAt := Some t\<rparr>
            in (Inr r1, write_record key r1 s))"

section \<open>Listing\<close>

definition view_of :: "interaction_store \<Rightarrow> string \<Rightarrow> interaction_key \<times> pending_interaction json_file
    \<Rightarrow> (pending_interaction \<times> interaction_reply option) option" where
  "view_of s act e =
     (if fst (fst e) \<noteq> act then None
      else case parsed (Some (snd e)) of
             None \<Rightarrow> None
           | Some r \<Rightarrow> Some (r, read_reply s (act, pi_messageId r)))"

definition listForActivation :: "interaction_store \<Rightarrow> string \<Rightarrow> (pending_interaction \<times> interaction_reply option) list" where
  "listForActivation s act =
     sort_key (\<lambda>v. pi_createdAt (fst v)) (List.map_filter (view_of s act) (records s))"

text \<open>The directories of the store, in the order they were made.\<close>

definition directories :: "interaction_store \<Rightarrow> string list" where
  "directories s = rev (remdups (rev (map (\<lambda>e. fst (fst e)) (records s))))"

definition listAll :: "interaction_store \<Rightarrow> (pending_interaction \<times> interaction_reply option) list" where
  "listAll s = sort_key (\<lambda>v. pi_createdAt (fst v)) (concat (map (listForActivation s) (directories s)))"

section \<open>One record as a machine\<close>

datatype record_event =
    Create interaction_kind message int
  | Attempt delivery_attempt
  | Receipt string "string option" int
  | Reply_arrived message int
  | Reply_delivery "string option" int

fun perform :: "interaction_key \<Rightarrow> record_event \<Rightarrow> interaction_store \<Rightarrow> interaction_store" where
  "perform key (Create k m t) s = snd (create_record key k m t s)"
| "perform key (Attempt a) s = snd (recordAttempt key a s)"
| "perform key (Receipt orig rid t) s = snd (recordReceipt key orig rid t s)"
| "perform key (Reply_arrived m t) s = snd (recordReply key m t s)"
| "perform key (Reply_delivery cited t) s = snd (recordReplyDelivery key cited t s)"

text \<open>What the event does to the file of its key.\<close>

fun record_step :: "interaction_key \<Rightarrow> record_event \<Rightarrow> pending_interaction json_file option
    \<Rightarrow> pending_interaction json_file option" where
  "record_step key (Create k m t) None = Some (Parsed
     \<lparr>pi_messageId = snd key, pi_activation = fst key, pi_kind = k, pi_createdAt = t, pi_message = m,
      pi_state = W_pending, pi_attempts = [], pi_receipt = None, pi_deliveredAt = None\<rparr>)"
| "record_step key (Attempt a) (Some (Parsed r)) = Some (Parsed
     (r\<lparr>pi_attempts := pi_attempts r @ [a],
        pi_state := (if pi_state r = W_delivered then W_delivered else wire_of (att_outcome a))\<rparr>))"
| "record_step key (Receipt orig rid t) (Some (Parsed r)) = Some (Parsed
     (if orig = snd key then r\<lparr>pi_state := W_delivered, pi_receipt := rid, pi_deliveredAt := Some t\<rparr> else r))"
| "record_step key (Reply_delivery cited t) (Some (Parsed r)) = Some (Parsed
     (if cited = Some (snd key) \<and> isConfirmable (pi_kind r) \<and> pi_state r = W_sent_unconfirmed
      then r\<lparr>pi_state := W_delivered, pi_deliveredAt := Some t\<rparr> else r))"
| "record_step key _ f = f"

lemma parsed_None_cases: "parsed f = None \<Longrightarrow> f = None \<or> f = Some Corrupt_file"
  by (cases f rule: parsed.cases) auto

lemma parsed_Some: "parsed f = Some x \<longleftrightarrow> f = Some (Parsed x)"
  by (cases f rule: parsed.cases) auto

lemmas record_op_defs = create_record_def recordAttempt_def recordReceipt_def recordReply_def
  recordReplyDelivery_def read_record_def write_record_def

lemma perform_here: "map_get (records (perform key e s)) key = record_step key e (map_get (records s) key)"
proof -
  consider "map_get (records s) key = None" | "map_get (records s) key = Some Corrupt_file"
    | r where "map_get (records s) key = Some (Parsed r)"
    by (cases "map_get (records s) key" rule: parsed.cases) auto
  then show ?thesis
    by cases (cases e; simp add: record_op_defs map_get_set map_has_def Let_def)+
qed

lemma perform_frame: "key \<noteq> key' \<Longrightarrow> map_get (records (perform key e s)) key' = map_get (records s) key'"
  by (cases e) (auto simp: record_op_defs map_get_set Let_def split: option.splits)

interpretation interactions: keyed_machine "\<lambda>s. map_get (records s)" perform record_step
  by unfold_locales (simp_all add: perform_here perform_frame)


section \<open>The history of one record\<close>

fun is_create :: "record_event \<Rightarrow> bool" where
  "is_create (Create k m t) = True"
| "is_create _ = False"

fun attempt_in :: "record_event \<Rightarrow> delivery_attempt option" where
  "attempt_in (Attempt a) = Some a"
| "attempt_in _ = None"

text \<open>The attempts made once the record existed, in order.\<close>

definition attempts_made :: "record_event list \<Rightarrow> delivery_attempt list" where
  "attempts_made es = List.map_filter attempt_in (dropWhile (\<lambda>e. \<not> is_create e) es)"

text \<open>What counts as evidence that the message of this key was seen.\<close>

definition evidence :: "interaction_key \<Rightarrow> interaction_kind \<Rightarrow> record_event list \<Rightarrow> bool" where
  "evidence key k es \<longleftrightarrow>
     (\<exists>rid t. Receipt (snd key) rid t \<in> set es)
   \<or> (isConfirmable k \<and> (\<exists>t. Reply_delivery (Some (snd key)) t \<in> set es)
      \<and> (\<exists>a \<in> set (attempts_made es). att_outcome a = A_sent_unconfirmed))"

lemma record_step_None_iff: "record_step key e f = None \<longleftrightarrow> f = None \<and> \<not> is_create e"
  by (cases "(key, e, f)" rule: record_step.cases) auto

lemma run_None_iff: "fold (record_step key) es None = None \<longleftrightarrow> (\<forall>e \<in> set es. \<not> is_create e)"
  by (induction es rule: rev_induct) (auto simp: record_step_None_iff)

lemma attempts_made_snoc:
  "attempts_made (es @ [e]) = (if \<exists>x \<in> set es. is_create x then attempts_made es @ List.map_filter attempt_in [e] else [])"
proof -
  have "List.map_filter f (xs @ ys) = List.map_filter f xs @ List.map_filter f ys" for f :: "record_event \<Rightarrow> delivery_attempt option" and xs ys
    by (simp add: List.map_filter_def)
  moreover have "List.map_filter attempt_in [e] = []" if "is_create e"
    using that by (cases e) (simp_all add: List.map_filter_def)
  ultimately show ?thesis
    by (auto simp: attempts_made_def dropWhile_append List.map_filter_def)
qed

lemma attempts_kept: "a \<in> set (attempts_made es) \<Longrightarrow> a \<in> set (attempts_made (es @ [e]))"
proof -
  have "attempts_made es = []" if "\<forall>x \<in> set es. \<not> is_create x"
  proof -
    have "dropWhile (\<lambda>e. \<not> is_create e) es = []" using that by simp
    then show ?thesis unfolding attempts_made_def by (simp only: List.map_filter_simps)
  qed
  then show "a \<in> set (attempts_made es) \<Longrightarrow> a \<in> set (attempts_made (es @ [e]))"
    by (cases "\<exists>x \<in> set es. is_create x") (auto simp: attempts_made_snoc)
qed

lemma evidence_snoc: "evidence key k es \<Longrightarrow> evidence key k (es @ [e])"
  unfolding evidence_def using attempts_kept [of _ es e] by auto

text \<open>A record after a run: its attempts, and why it is in its state.\<close>

definition record_inv :: "interaction_key \<Rightarrow> record_event list \<Rightarrow> pending_interaction \<Rightarrow> bool" where
  "record_inv key es r \<longleftrightarrow>
     pi_attempts r = attempts_made es \<and> pi_messageId r = snd key \<and> pi_activation r = fst key
   \<and> (pi_state r = W_delivered \<longrightarrow> evidence key (pi_kind r) es)
   \<and> (pi_state r = W_sent_unconfirmed \<longrightarrow> (\<exists>a \<in> set (pi_attempts r). att_outcome a = A_sent_unconfirmed))"

lemma wire_of_simps [simp]: "wire_of x \<noteq> W_delivered" "(wire_of x = W_sent_unconfirmed) = (x = A_sent_unconfirmed)"
  by (cases x; simp)+

lemma map_filter_single [simp]: "List.map_filter f [e] = (case f e of Some a \<Rightarrow> [a] | None \<Rightarrow> [])"
  by (simp add: List.map_filter_def split: option.splits)

lemma run_record_inv:
  "fold (record_step key) es None = f \<Longrightarrow> f \<noteq> None \<Longrightarrow> \<exists>r. f = Some (Parsed r) \<and> record_inv key es r"
proof (induction es arbitrary: f rule: rev_induct)
  case Nil
  then show ?case by simp
next
  case (snoc e es)
  show ?case
  proof (cases "fold (record_step key) es None")
    case None
    then have fresh: "\<forall>x \<in> set es. \<not> is_create x" by (simp add: run_None_iff)
    then have "attempts_made (es @ [e]) = []" by (auto simp: attempts_made_snoc)
    moreover obtain k m t where "e = Create k m t"
      using snoc.prems None by (cases e) (auto simp: record_step_None_iff)
    ultimately show ?thesis
      using snoc.prems None by (auto simp: record_inv_def)
  next
    case (Some g)
    then obtain r where r: "fold (record_step key) es None = Some (Parsed r)" and inv: "record_inv key es r"
      using snoc.IH [of "Some g"] by auto
    have made: "attempts_made (es @ [e]) = attempts_made es @ List.map_filter attempt_in [e]"
      using run_None_iff [of key es] r by (auto simp: attempts_made_snoc)
    note ev = evidence_snoc [of key "pi_kind r" es e]
    have f: "f = record_step key e (Some (Parsed r))" using snoc.prems r by simp
    show ?thesis
    proof (cases e)
      case (Create k m t)
      then show ?thesis using f inv made ev by (auto simp: record_inv_def)
    next
      case (Attempt a)
      then show ?thesis using f inv made ev by (auto simp: record_inv_def)
    next
      case (Receipt orig rid t)
      have "evidence key k (es @ [Receipt (snd key) rid t])" for k by (auto simp: evidence_def)
      then show ?thesis using f inv made ev Receipt by (auto simp: record_inv_def)
    next
      case (Reply_arrived m t)
      then show ?thesis using f inv made ev by (auto simp: record_inv_def)
    next
      case (Reply_delivery cited t)
      have "evidence key (pi_kind r) (es @ [Reply_delivery (Some (snd key)) t])"
        if "isConfirmable (pi_kind r)" "pi_state r = W_sent_unconfirmed"
        using that inv attempts_kept [of _ es "Reply_delivery (Some (snd key)) t"]
        by (auto simp: evidence_def record_inv_def)
      then show ?thesis using f inv made ev Reply_delivery by (auto simp: record_inv_def)
    qed
  qed
qed

text \<open>The events of one key, and a run of events on any keys.\<close>

definition events_of :: "interaction_key \<Rightarrow> (interaction_key \<times> record_event) list \<Rightarrow> record_event list" where
  "events_of key evs = map snd (filter (\<lambda>(k, e). k = key) evs)"

definition perform_all :: "(interaction_key \<times> record_event) list \<Rightarrow> interaction_store \<Rightarrow> interaction_store" where
  "perform_all evs s = fold (\<lambda>(k, e). perform k e) evs s"

definition empty_interactions :: interaction_store where
  "empty_interactions = \<lparr>records = [], replies = Map.empty\<rparr>"

lemma perform_all_record:
  "map_get (records (perform_all evs s)) key = fold (record_step key) (events_of key evs) (map_get (records s) key)"
  by (simp add: perform_all_def events_of_def interactions.run_project)

lemma delivered_step:
  "(\<exists>r. f = Some (Parsed r) \<and> pi_state r = W_delivered) \<Longrightarrow>
     \<exists>r. record_step key e f = Some (Parsed r) \<and> pi_state r = W_delivered"
  by (cases e) auto

section \<open>Properties\<close>

text \<open>C10. Delivery is never invented and never lost: after any run of operations on any
  messages, a record holds every attempt made on it, in order; it reads delivered only if a
  receipt naming this very message was recorded, or a reply citing it was, for a kind that
  expects an answer and after a transport had accepted it; and once delivered it stays so
  under every further run.\<close>

theorem delivery_evidence:
  assumes "read_record (perform_all evs empty_interactions) key = Some r"
  shows "pi_attempts r = attempts_made (events_of key evs)
    \<and> (pi_state r = W_delivered \<longrightarrow> evidence key (pi_kind r) (events_of key evs))
    \<and> (pi_state r = W_delivered \<longrightarrow>
        (\<exists>r'. read_record (perform_all later (perform_all evs empty_interactions)) key = Some r' \<and> pi_state r' = W_delivered))"
proof -
  have f: "map_get (records (perform_all evs empty_interactions)) key = Some (Parsed r)"
    using assms by (simp add: read_record_def parsed_Some)
  then have "fold (record_step key) (events_of key evs) None = Some (Parsed r)"
    by (simp add: perform_all_record empty_interactions_def)
  from run_record_inv [OF this] have inv: "record_inv key (events_of key evs) r" by simp
  have "\<exists>r'. read_record (perform_all later (perform_all evs empty_interactions)) key = Some r' \<and> pi_state r' = W_delivered"
    if "pi_state r = W_delivered"
  proof -
    have "\<exists>r'. map_get (records (fold (\<lambda>(k, e). perform k e) later (perform_all evs empty_interactions))) key = Some (Parsed r')
        \<and> pi_state r' = W_delivered"
      by (rule interactions.run_invariant [where P = "\<lambda>f. \<exists>r. f = Some (Parsed r) \<and> pi_state r = W_delivered"])
         (use f that delivered_step in auto)
    then show ?thesis by (auto simp: read_record_def perform_all_def)
  qed
  then show ?thesis using inv by (simp add: record_inv_def)
qed

definition demo_message :: message where
  "demo_message = composeInteractionMessage demo_ask ''q'' 1"

definition demo_attempt :: delivery_attempt where
  "demo_attempt = \<lparr>att_at = 2, att_route = ''pid:1/session:s'', att_outcome = A_sent_unconfirmed, att_detail = None\<rparr>"

definition demo_events :: "(interaction_key \<times> record_event) list" where
  "demo_events = [((''a'', ''q''), Create Question demo_message 1), ((''a'', ''p''), Create Finding demo_message 1),
     ((''a'', ''q''), Attempt demo_attempt), ((''a'', ''q''), Reply_delivery (Some ''q'') 3)]"

theorem delivery_evidence_witness:
  "\<exists>r. read_record (perform_all demo_events empty_interactions) (''a'', ''q'') = Some r
     \<and> pi_state r = W_delivered \<and> pi_attempts r = [demo_attempt]
     \<and> evidence (''a'', ''q'') (pi_kind r) (events_of (''a'', ''q'') demo_events)"
proof -
  have es: "events_of (''a'', ''q'') demo_events = [Create Question demo_message 1, Attempt demo_attempt, Reply_delivery (Some ''q'') 3]"
    by (simp add: events_of_def demo_events_def)
  obtain r where r: "read_record (perform_all demo_events empty_interactions) (''a'', ''q'') = Some r"
      "pi_state r = W_delivered" "pi_attempts r = [demo_attempt]"
    by (simp add: read_record_def perform_all_record es empty_interactions_def demo_attempt_def isConfirmable_def
        createsPendingAsk_def KINDS_AWAITING_REPLY_def)
  then show ?thesis
    using delivery_evidence [OF r(1), of "[]"] by blast
qed

lemma map_ok_perform: "map_ok (records s) \<Longrightarrow> map_ok (records (perform key e s))"
  by (cases e) (auto simp: record_op_defs Let_def split: option.splits)

lemma map_ok_perform_all: "map_ok (records s) \<Longrightarrow> map_ok (records (perform_all evs s))"
  unfolding perform_all_def by (induction evs arbitrary: s) (auto simp: map_ok_perform)

lemma stored_id:
  assumes "read_record (perform_all evs empty_interactions) key = Some r"
  shows "pi_messageId r = snd key"
proof -
  have "fold (record_step key) (events_of key evs) None = Some (Parsed r)"
    using assms by (simp add: read_record_def parsed_Some perform_all_record empty_interactions_def)
  from run_record_inv [OF this] show ?thesis by (simp add: record_inv_def)
qed

lemma set_listAll:
  assumes ok: "map_ok (records s)" and ids: "\<And>key r. read_record s key = Some r \<Longrightarrow> pi_messageId r = snd key"
  shows "set (listAll s) = {(r, read_reply s key) | key r. read_record s key = Some r}"
proof -
  have mem: "v \<in> set (listForActivation s act) \<longleftrightarrow>
      (\<exists>mid r. read_record s (act, mid) = Some r \<and> v = (r, read_reply s (act, mid)))" for v act
  proof
    assume "v \<in> set (listForActivation s act)"
    then obtain mid r where e: "((act, mid), Parsed r) \<in> set (records s)" and v: "v = (r, read_reply s (act, pi_messageId r))"
      by (auto simp: listForActivation_def List.map_filter_def view_of_def parsed_Some split: if_splits option.splits)
    then have "read_record s (act, mid) = Some r"
      using map_get_iff [OF ok] by (simp add: read_record_def parsed_Some)
    then show "\<exists>mid r. read_record s (act, mid) = Some r \<and> v = (r, read_reply s (act, mid))"
      using v ids by fastforce
  next
    assume "\<exists>mid r. read_record s (act, mid) = Some r \<and> v = (r, read_reply s (act, mid))"
    then obtain mid r where r: "read_record s (act, mid) = Some r" "v = (r, read_reply s (act, mid))" by blast
    then have "((act, mid), Parsed r) \<in> set (records s)"
      using map_get_iff [OF ok] by (simp add: read_record_def parsed_Some)
    then show "v \<in> set (listForActivation s act)"
      using r(2) ids [OF r(1)]
      by (auto simp: listForActivation_def List.map_filter_def view_of_def
          intro!: image_eqI [where x = "((act, mid), Parsed r)"])
  qed
  have dirs: "act \<in> set (directories s)" if "read_record s (act, mid) = Some r" for act mid r
    using that map_get_iff [OF ok] by (force simp: read_record_def parsed_Some directories_def)
  show ?thesis
    using dirs by (auto simp: listAll_def mem) blast+
qed

text \<open>A coordinator sees every message: after any run of operations the sweep over the
  whole store lists exactly the records there are, oldest first, each joined with the reply
  recorded for it.\<close>

theorem list_all_complete:
  "let s = perform_all evs empty_interactions in
     set (listAll s) = {(r, read_reply s key) | key r. read_record s key = Some r}
   \<and> sorted (map (\<lambda>v. pi_createdAt (fst v)) (listAll s))"
  unfolding Let_def
proof
  show "set (listAll (perform_all evs empty_interactions))
      = {(r, read_reply (perform_all evs empty_interactions) key) | key r.
           read_record (perform_all evs empty_interactions) key = Some r}"
    by (rule set_listAll) (simp_all add: map_ok_perform_all empty_interactions_def [THEN arg_cong [where f = records]] stored_id)
  show "sorted (map (\<lambda>v. pi_createdAt (fst v)) (listAll (perform_all evs empty_interactions)))"
    by (simp add: listAll_def)
qed

end
