(* ===== verification/Job_Registry.thy ===== *)
theory Job_Registry imports Prelude begin

text \<open>
  \<open>src/specialist/jobRegistry.ts\<close>: the in-memory registry of asynchronous jobs. A job is a
  machine of its own; a callback is a number naming the function registered, and \<open>invoked\<close>
  lists the kill functions called. A method that awaits is cut there: its second part holds
  the object it read (\<open>ref\<close>, the identity \<open>register\<close> gave it), so it does not act on an
  entry registered again under the same id.
\<close>

section \<open>Data\<close>

datatype registry_status = J_running | J_done | J_error | J_cancelled | J_waiting

record job_state =
  ref :: nat
  job_id :: string
  j_status :: registry_status
  outputBuffer :: string
  currentEvent :: string
  j_backend :: string
  j_model :: string
  specialistVersion :: string
  startedAtMs :: int
  endedAtMs :: "int option"
  j_error :: "string option"
  killFn :: "nat option"
  steerFn :: "nat option"
  resumeFn :: "nat option"
  closeFn :: "nat option"
  j_beadId :: "string option"

record run_result =
  r_output :: string
  r_backend :: string
  r_model :: string
  r_version :: string
  r_beadId :: "string option"

record job_snapshot =
  s_job :: string
  s_status :: registry_status
  s_output :: string
  s_delta :: string
  next_cursor :: nat
  s_event :: string
  s_backend :: string
  s_model :: string
  s_version :: string
  s_duration :: int
  s_error :: "string option"
  s_beadId :: "string option"

record registry =
  jobs :: "(string, job_state) js_map"
  invoked :: "nat list"

fun status_text :: "registry_status \<Rightarrow> string" where
  "status_text J_running = ''running''"
| "status_text J_done = ''done''"
| "status_text J_error = ''error''"
| "status_text J_cancelled = ''cancelled''"
| "status_text J_waiting = ''waiting''"

section \<open>Operations\<close>

text \<open>Most methods read the job, return when there is none, and change its fields.\<close>

definition with_job :: "string \<Rightarrow> (job_state \<Rightarrow> job_state) \<Rightarrow> registry \<Rightarrow> registry" where
  "with_job i f g = (case map_get (jobs g) i of None \<Rightarrow> g | Some j \<Rightarrow> g\<lparr>jobs := map_set (jobs g) i (f j)\<rparr>)"

definition new_job :: "nat \<Rightarrow> string \<Rightarrow> string \<Rightarrow> string \<Rightarrow> string option \<Rightarrow> int \<Rightarrow> job_state" where
  "new_job r i backend model version now =
     \<lparr>ref = r, job_id = i, j_status = J_running, outputBuffer = [], currentEvent = ''starting'',
      j_backend = backend, j_model = model, specialistVersion = (case version of Some v \<Rightarrow> v | None \<Rightarrow> ''?''),
      startedAtMs = now, endedAtMs = None, j_error = None, killFn = None, steerFn = None, resumeFn = None,
      closeFn = None, j_beadId = None\<rparr>"

definition register :: "nat \<Rightarrow> string \<Rightarrow> string \<Rightarrow> string \<Rightarrow> string option \<Rightarrow> int \<Rightarrow> registry \<Rightarrow> registry" where
  "register r i backend model version now g =
     g\<lparr>jobs := map_set (jobs g) i (new_job r i backend model version now)\<rparr>"

definition when_running :: "(job_state \<Rightarrow> job_state) \<Rightarrow> job_state \<Rightarrow> job_state" where
  "when_running f j = (if j_status j = J_running then f j else j)"

definition appendOutput :: "string \<Rightarrow> string \<Rightarrow> registry \<Rightarrow> registry" where
  "appendOutput i txt = with_job i (when_running (\<lambda>j. j\<lparr>outputBuffer := outputBuffer j @ txt\<rparr>))"

definition setCurrentEvent :: "string \<Rightarrow> string \<Rightarrow> registry \<Rightarrow> registry" where
  "setCurrentEvent i ev = with_job i (when_running (\<lambda>j. j\<lparr>currentEvent := ev\<rparr>))"

definition setMeta :: "string \<Rightarrow> string \<Rightarrow> string \<Rightarrow> registry \<Rightarrow> registry" where
  "setMeta i backend model = with_job i (\<lambda>j.
     j\<lparr>j_backend := (if backend \<noteq> [] then backend else j_backend j),
       j_model := (if model \<noteq> [] then model else j_model j)\<rparr>)"

definition setBeadId :: "string \<Rightarrow> string \<Rightarrow> registry \<Rightarrow> registry" where
  "setBeadId i bead = with_job i (\<lambda>j. j\<lparr>j_beadId := Some bead\<rparr>)"

definition setKillFn :: "string \<Rightarrow> nat \<Rightarrow> registry \<Rightarrow> registry" where
  "setKillFn i fn g =
     (case map_get (jobs g) i of
        None \<Rightarrow> g
      | Some j \<Rightarrow>
          if j_status j = J_cancelled then g\<lparr>invoked := invoked g @ [fn]\<rparr>
          else g\<lparr>jobs := map_set (jobs g) i (j\<lparr>killFn := Some fn\<rparr>)\<rparr>)"

definition setSteerFn :: "string \<Rightarrow> nat \<Rightarrow> registry \<Rightarrow> registry" where
  "setSteerFn i fn = with_job i (\<lambda>j. j\<lparr>steerFn := Some fn\<rparr>)"

definition setResumeFn :: "string \<Rightarrow> nat \<Rightarrow> nat \<Rightarrow> registry \<Rightarrow> registry" where
  "setResumeFn i rfn cfn = with_job i (\<lambda>j.
     j\<lparr>resumeFn := Some rfn, closeFn := Some cfn, j_status := J_waiting, currentEvent := ''waiting''\<rparr>)"

text \<open>\<open>Inr\<close>: the object held and the function to await.\<close>

definition followUp_begin :: "string \<Rightarrow> registry \<Rightarrow> (string + nat \<times> nat) \<times> registry" where
  "followUp_begin i g =
     (case map_get (jobs g) i of
        None \<Rightarrow> (Inl (''Job not found: '' @ i), g)
      | Some j \<Rightarrow>
          if j_status j \<noteq> J_waiting then (Inl (''Job is not waiting (status: '' @ status_text (j_status j) @ '')''), g)
          else (case resumeFn j of
            None \<Rightarrow> (Inl ''Job has no resume function'', g)
          | Some fn \<Rightarrow> (Inr (ref j, fn),
              g\<lparr>jobs := map_set (jobs g) i (j\<lparr>j_status := J_running, currentEvent := ''starting''\<rparr>)\<rparr>)))"

definition if_same :: "nat \<Rightarrow> (job_state \<Rightarrow> job_state) \<Rightarrow> job_state \<Rightarrow> job_state" where
  "if_same r f j = (if ref j = r then f j else j)"

definition followUp_end :: "string \<Rightarrow> nat \<Rightarrow> string + string \<Rightarrow> registry \<Rightarrow> registry" where
  "followUp_end i r outcome = with_job i (if_same r (\<lambda>j.
     case outcome of
       Inr out \<Rightarrow> j\<lparr>outputBuffer := out, j_status := J_waiting, currentEvent := ''waiting''\<rparr>
     | Inl err \<Rightarrow> j\<lparr>j_status := J_error, j_error := Some err\<rparr>))"

definition closeSession_begin :: "string \<Rightarrow> registry \<Rightarrow> string + nat \<times> nat option" where
  "closeSession_begin i g =
     (case map_get (jobs g) i of
        None \<Rightarrow> Inl (''Job not found: '' @ i)
      | Some j \<Rightarrow> if j_status j \<noteq> J_waiting then Inl ''Job is not in waiting state'' else Inr (ref j, closeFn j))"

definition closeSession_end :: "string \<Rightarrow> nat \<Rightarrow> int \<Rightarrow> string option \<Rightarrow> registry \<Rightarrow> registry" where
  "closeSession_end i r now failure = with_job i (if_same r (\<lambda>j.
     case failure of
       Some err \<Rightarrow> j
     | None \<Rightarrow> j\<lparr>j_status := J_done, currentEvent := ''done'', endedAtMs := Some now\<rparr>))"

definition steer_begin :: "string \<Rightarrow> registry \<Rightarrow> string + nat" where
  "steer_begin i g =
     (case map_get (jobs g) i of
        None \<Rightarrow> Inl (''Job not found: '' @ i)
      | Some j \<Rightarrow>
          if j_status j \<noteq> J_running then Inl (''Job is not running (status: '' @ status_text (j_status j) @ '')'')
          else (case steerFn j of None \<Rightarrow> Inl ''Job session not ready for steering yet'' | Some fn \<Rightarrow> Inr fn))"

definition complete :: "string \<Rightarrow> run_result \<Rightarrow> int \<Rightarrow> registry \<Rightarrow> registry" where
  "complete i res now = with_job i (when_running (\<lambda>j.
     j\<lparr>j_status := J_done, outputBuffer := r_output res, currentEvent := ''done'', j_backend := r_backend res,
       j_model := r_model res, specialistVersion := r_version res, endedAtMs := Some now,
       j_beadId := (if truthy (r_beadId res) then r_beadId res else j_beadId j)\<rparr>))"

definition fail :: "string \<Rightarrow> string \<Rightarrow> int \<Rightarrow> registry \<Rightarrow> registry" where
  "fail i err now = with_job i (when_running (\<lambda>j.
     j\<lparr>j_status := J_error, j_error := Some err, currentEvent := ''error'', endedAtMs := Some now\<rparr>))"

definition cancel :: "string \<Rightarrow> int \<Rightarrow> registry \<Rightarrow> int option \<times> registry" where
  "cancel i now g =
     (case map_get (jobs g) i of
        None \<Rightarrow> (None, g)
      | Some j \<Rightarrow>
          (Some (now - startedAtMs j),
           g\<lparr>jobs := map_set (jobs g) i (j\<lparr>j_status := J_cancelled, currentEvent := ''cancelled'', endedAtMs := Some now\<rparr>),
             invoked := invoked g @ (case killFn j of Some fn \<Rightarrow> [fn] | None \<Rightarrow> [])\<rparr>))"

definition snapshot :: "string \<Rightarrow> nat \<Rightarrow> int \<Rightarrow> registry \<Rightarrow> job_snapshot option" where
  "snapshot i cursor now g =
     (case map_get (jobs g) i of
        None \<Rightarrow> None
      | Some j \<Rightarrow> Some
          \<lparr>s_job = job_id j, s_status = j_status j, s_output = (if j_status j = J_done then outputBuffer j else []),
           s_delta = drop cursor (outputBuffer j), next_cursor = length (outputBuffer j), s_event = currentEvent j,
           s_backend = j_backend j, s_model = j_model j, s_version = specialistVersion j,
           s_duration = (case endedAtMs j of Some t \<Rightarrow> t | None \<Rightarrow> now) - startedAtMs j,
           s_error = j_error j, s_beadId = j_beadId j\<rparr>)"

definition delete_job :: "string \<Rightarrow> registry \<Rightarrow> registry" where
  "delete_job i g = g\<lparr>jobs := map_delete (jobs g) i\<rparr>"

section \<open>One job as a machine\<close>

datatype job_event =
    Register nat string string "string option" int
  | Append string
  | Event string
  | Meta string string
  | Bead string
  | Kill_fn nat
  | Steer_fn nat
  | Resume_fn nat nat
  | Follow_up
  | Follow_up_done nat "string + string"
  | Close_done nat int "string option"
  | Complete run_result int
  | Failed string int
  | Cancel int
  | Delete

fun do_event :: "string \<Rightarrow> job_event \<Rightarrow> registry \<Rightarrow> registry" where
  "do_event i (Register r b m v t) = register r i b m v t"
| "do_event i (Append txt) = appendOutput i txt"
| "do_event i (Event ev) = setCurrentEvent i ev"
| "do_event i (Meta b m) = setMeta i b m"
| "do_event i (Bead b) = setBeadId i b"
| "do_event i (Kill_fn fn) = setKillFn i fn"
| "do_event i (Steer_fn fn) = setSteerFn i fn"
| "do_event i (Resume_fn r c) = setResumeFn i r c"
| "do_event i Follow_up = (\<lambda>g. snd (followUp_begin i g))"
| "do_event i (Follow_up_done r outcome) = followUp_end i r outcome"
| "do_event i (Close_done r t e) = closeSession_end i r t e"
| "do_event i (Complete res t) = complete i res t"
| "do_event i (Failed err t) = fail i err t"
| "do_event i (Cancel t) = (\<lambda>g. snd (cancel i t g))"
| "do_event i Delete = delete_job i"

definition job_step :: "string \<Rightarrow> job_event \<Rightarrow> job_state option \<Rightarrow> job_state option" where
  "job_step i e j = map_get (jobs (do_event i e \<lparr>jobs = (case j of None \<Rightarrow> [] | Some x \<Rightarrow> [(i, x)]), invoked = []\<rparr>)) i"

lemmas job_op_defs = with_job_def register_def appendOutput_def setCurrentEvent_def setMeta_def setBeadId_def
  setKillFn_def setSteerFn_def setResumeFn_def followUp_begin_def followUp_end_def closeSession_end_def
  complete_def fail_def cancel_def delete_job_def

interpretation registry_jobs: keyed_machine "\<lambda>g. map_get (jobs g)" do_event job_step
proof
  show "map_get (jobs (do_event i e g)) i = job_step i e (map_get (jobs g) i)" for i e g
    by (cases e) (auto simp: job_step_def job_op_defs map_get_set map_get_delete split: option.splits)
  show "map_get (jobs (do_event i e g)) i' = map_get (jobs g) i'" if "i \<noteq> i'" for i i' e g
    using that by (cases e) (auto simp: job_op_defs map_get_set map_get_delete split: option.splits)
qed


section \<open>Lemmas\<close>

text \<open>The events of the normal life of a session; the others register anew, resume, close or
  delete.\<close>

fun quiet :: "job_event \<Rightarrow> bool" where
  "quiet (Register r b m v t) = False"
| "quiet (Resume_fn r c) = False"
| "quiet (Follow_up_done r outcome) = False"
| "quiet (Close_done r t e) = False"
| "quiet Delete = False"
| "quiet _ = True"

definition do_events :: "(string \<times> job_event) list \<Rightarrow> registry \<Rightarrow> registry" where
  "do_events evs g = fold (\<lambda>(k, e). do_event k e) evs g"

definition cancelled_with :: "string \<Rightarrow> job_state option \<Rightarrow> bool" where
  "cancelled_with out j \<longleftrightarrow> (\<exists>x. j = Some x \<and> j_status x = J_cancelled \<and> outputBuffer x = out)"

lemma quiet_step: "quiet e \<Longrightarrow> cancelled_with out j \<Longrightarrow> cancelled_with out (job_step i e j)"
  by (cases e) (auto simp: cancelled_with_def job_step_def job_op_defs when_running_def)

lemma quiet_run:
  assumes "cancelled_with out (map_get (jobs g) i)" and "\<And>e. (i, e) \<in> set evs \<Longrightarrow> quiet e"
  shows "cancelled_with out (map_get (jobs (do_events evs g)) i)"
proof -
  have "cancelled_with out (fold (job_step i) es j)" if "\<forall>e \<in> set es. quiet e" "cancelled_with out j" for es j
    using that by (induction es arbitrary: j) (auto simp: quiet_step)
  moreover have "\<forall>e \<in> set (map snd (filter (\<lambda>(k, e). k = i) evs)). quiet e"
    using assms(2) by auto
  ultimately show ?thesis
    using assms(1) by (simp add: do_events_def registry_jobs.run_project)
qed

lemma append_running:
  assumes "map_get (jobs g) i = Some j" and "j_status j = J_running"
  shows "map_get (jobs (fold (appendOutput i) txts g)) i = Some (j\<lparr>outputBuffer := outputBuffer j @ concat txts\<rparr>)"
  using assms
proof (induction txts arbitrary: g j)
  case Nil
  then show ?case by simp
next
  case (Cons chunk txts)
  have one: "map_get (jobs (appendOutput i chunk g)) i = Some (j\<lparr>outputBuffer := outputBuffer j @ chunk\<rparr>)"
    using Cons.prems by (simp add: appendOutput_def with_job_def when_running_def map_get_set)
  show ?case
    using Cons.IH [OF one] Cons.prems(2) by simp
qed

text \<open>A client that polls: output arrives, then a snapshot from the cursor of the last one.\<close>

fun poll_rounds :: "string \<Rightarrow> string list list \<Rightarrow> nat \<Rightarrow> registry \<Rightarrow> string" where
  "poll_rounds i [] c g = []"
| "poll_rounds i (txts # rounds) c g =
     (let g' = fold (appendOutput i) txts g in
      case snapshot i c 0 g' of
        None \<Rightarrow> []
      | Some s \<Rightarrow> s_delta s @ poll_rounds i rounds (next_cursor s) g')"

section \<open>Properties\<close>



text \<open>Polling loses and repeats nothing: a client that passes each snapshot's cursor to
  the next receives, in order, exactly what was appended while the job runs.\<close>

theorem polls_reassemble:
  assumes "map_get (jobs g) i = Some j" and "j_status j = J_running"
  shows "poll_rounds i rounds (length (outputBuffer j)) g = concat (concat rounds)"
  using assms
proof (induction rounds arbitrary: g j)
  case Nil
  then show ?case by simp
next
  case (Cons txts rounds)
  note step = append_running [OF Cons.prems, of txts]
  show ?case
    using Cons.IH [OF step] Cons.prems(2) by (simp add: snapshot_def step)
qed

theorem polls_reassemble_witness:
  "poll_rounds ''j'' [[''ab'', ''c''], [], [''d'']] 0 (register 0 ''j'' ''b'' ''m'' None 1 \<lparr>jobs = [], invoked = []\<rparr>) = ''abcd''"
  using polls_reassemble [of "register 0 ''j'' ''b'' ''m'' None 1 \<lparr>jobs = [], invoked = []\<rparr>" "''j''"
      "new_job 0 ''j'' ''b'' ''m'' None 1" "[[''ab'', ''c''], [], [''d'']]"]
  by (simp add: register_def new_job_def)

end
