(* ===== verification/Job_Control.thy ===== *)
theory Job_Control imports Json_Value Job_Status begin

text \<open>
  \<open>src/specialist/job-control.ts\<close>: messages to a job through its pipe, and the wait for its
  end. What \<open>readStatus\<close> gives is a parameter, a function of the time where the code polls;
  a timer fires when it is due. The supervisor that \<open>startJob\<close> runs is not modelled.
\<close>

section \<open>Messages\<close>

record control_status =
  c_status :: job_status
  fifo_path :: "string option"

datatype control_error = No_job | No_pipe | Timed_out

fun job_status_text :: "job_status \<Rightarrow> string" where
  "job_status_text Starting = ''starting''"
| "job_status_text Running = ''running''"
| "job_status_text Waiting = ''waiting''"
| "job_status_text Done = ''done''"
| "job_status_text Error = ''error''"
| "job_status_text Cancelled = ''cancelled''"

definition TERMINAL_STATUSES :: "string list" where
  "TERMINAL_STATUSES = [''done'', ''error'', ''stopped'']"

definition is_terminal :: "job_status \<Rightarrow> bool" where
  "is_terminal s \<longleftrightarrow> job_status_text s \<in> set TERMINAL_STATUSES"

text \<open>The pipes, each with the lines written to it.\<close>

type_synonym pipes = "string \<Rightarrow> json list"

definition writeFifoMessage :: "control_status option \<Rightarrow> json \<Rightarrow> pipes \<Rightarrow> (control_error + unit) \<times> pipes" where
  "writeFifoMessage status payload ps =
     (case status of
        None \<Rightarrow> (Inl No_job, ps)
      | Some st \<Rightarrow>
          if \<not> truthy (fifo_path st) then (Inl No_pipe, ps)
          else (Inr (), ps(the (fifo_path st) := ps (the (fifo_path st)) @ [payload])))"

definition resumeJob :: "control_status option \<Rightarrow> string \<Rightarrow> pipes \<Rightarrow> (control_error + unit) \<times> pipes" where
  "resumeJob status prompt = writeFifoMessage status (JObj [(''type'', JStr ''resume''), (''task'', JStr prompt)])"

definition steerJob :: "control_status option \<Rightarrow> string \<Rightarrow> pipes \<Rightarrow> (control_error + unit) \<times> pipes" where
  "steerJob status msg = writeFifoMessage status (JObj [(''type'', JStr ''steer''), (''message'', JStr msg)])"

definition stopJob :: "control_status option \<Rightarrow> pipes \<Rightarrow> (control_error + unit) \<times> pipes" where
  "stopJob status ps =
     (case status of
        None \<Rightarrow> (Inl No_job, ps)
      | Some st \<Rightarrow>
          if is_terminal (c_status st) then (Inr (), ps)
          else if \<not> truthy (fifo_path st) then (Inr (), ps)
          else writeFifoMessage status (JObj [(''type'', JStr ''close'')]) ps)"

text \<open>The stored result first (\<^term>\<open>None\<close> when reading threw or there is none), then the file.\<close>

definition read_result :: "string option \<Rightarrow> string option \<Rightarrow> string option" where
  "read_result stored result_file = (if truthy stored then stored else result_file)"

section \<open>Waiting for the end\<close>

definition INITIAL_BACKOFF_MS :: int where
  "INITIAL_BACKOFF_MS = 100"

definition MAX_BACKOFF_MS :: int where
  "MAX_BACKOFF_MS = 2000"

text \<open>\<open>wait_from t backoff\<close> is the loop at its top: the result and the time it is given, or
  \<^term>\<open>None\<close> when it never ends.\<close>

partial_function (option) wait_from ::
  "(int \<Rightarrow> job_status option) \<Rightarrow> int option \<Rightarrow> int \<Rightarrow> int \<Rightarrow> ((control_error + job_status) \<times> int) option" where
  "wait_from status deadline t backoff =
     (case status t of
        None \<Rightarrow> Some (Inl No_job, t)
      | Some s \<Rightarrow>
          if is_terminal s then Some (Inr s, t)
          else if (case deadline of Some d \<Rightarrow> d \<le> t | None \<Rightarrow> False) then Some (Inl Timed_out, t)
          else wait_from status deadline (t + backoff) (min (backoff * 2) MAX_BACKOFF_MS))"

definition waitForTerminal ::
  "(int \<Rightarrow> job_status option) \<Rightarrow> int option \<Rightarrow> int \<Rightarrow> ((control_error + job_status) \<times> int) option" where
  "waitForTerminal status timeoutMs now =
     wait_from status (map_option (\<lambda>ms. now + ms) timeoutMs) now INITIAL_BACKOFF_MS"

section \<open>Lemmas\<close>

lemma is_terminal_iff: "is_terminal s \<longleftrightarrow> s = Done \<or> s = Error"
  by (cases s) (simp_all add: is_terminal_def TERMINAL_STATUSES_def)

text \<open>With a deadline each round moves the clock towards it.\<close>

lemma wait_deadline:
  assumes "0 < b" and "b \<le> MAX_BACKOFF_MS"
  shows "\<exists>r u. wait_from status (Some d) t b = Some (r, u) \<and> t \<le> u \<and> u < max t (d + MAX_BACKOFF_MS)
    \<or> (\<exists>r. wait_from status (Some d) t b = Some (r, t))"
  using assms
proof (induction "nat (d - t)" arbitrary: t b rule: less_induct)
  case less
  show ?case
  proof (cases "\<exists>s. status t = Some s \<and> \<not> is_terminal s \<and> t < d")
    case False
    then have "\<exists>r. wait_from status (Some d) t b = Some (r, t)"
      by (subst wait_from.simps) (auto split: option.splits)
    then show ?thesis by blast
  next
    case True
    then have step: "wait_from status (Some d) t b = wait_from status (Some d) (t + b) (min (b * 2) MAX_BACKOFF_MS)"
      by (subst wait_from.simps) auto
    have "nat (d - (t + b)) < nat (d - t)" using True less.prems by auto
    from less.hyps [OF this, of "min (b * 2) MAX_BACKOFF_MS"] less.prems
    show ?thesis unfolding step using True by (auto simp: MAX_BACKOFF_MS_def)
  qed
qed

lemma wait_diverges:
  assumes "\<And>t. \<exists>s. status t = Some s \<and> \<not> is_terminal s"
  shows "wait_from status None t b = None"
proof -
  have "st = status \<longrightarrow> dl = None \<longrightarrow> False" if "wait_from st dl t b = Some r" for st dl t b r
  proof (rule wait_from.raw_induct [OF _ that])
    fix wait st dl t b and r :: "(control_error + job_status) \<times> int"
    assume IH: "\<And>st dl t b r. wait st dl t b = Some r \<Longrightarrow> st = status \<longrightarrow> dl = None \<longrightarrow> False"
      and body: "(case st t of
        None \<Rightarrow> Some (Inl No_job, t)
      | Some s \<Rightarrow>
          if is_terminal s then Some (Inr s, t)
          else if (case dl of Some d \<Rightarrow> d \<le> t | None \<Rightarrow> False) then Some (Inl Timed_out, t)
          else wait st dl (t + b) (min (b * 2) MAX_BACKOFF_MS)) = Some r"
    show "st = status \<longrightarrow> dl = None \<longrightarrow> False"
      using assms [of t] body IH [of status None "t + b" "min (b * 2) MAX_BACKOFF_MS" r]
      by (auto split: option.splits if_splits)
  qed
  then show ?thesis by (metis option.exhaust)
qed

text \<open>Without a deadline the loop ends once the job has.\<close>

lemma wait_ends:
  assumes "\<And>u. T \<le> u \<Longrightarrow> status u = Some s" and "is_terminal s" and "0 < b" and "b \<le> MAX_BACKOFF_MS"
    and "\<And>u. status u \<noteq> None"
  shows "\<exists>s' u. wait_from status None t b = Some (Inr s', u) \<and> is_terminal s'"
  using assms(3,4)
proof (induction "nat (T - t)" arbitrary: t b rule: less_induct)
  case less
  obtain x where x: "status t = Some x" using assms(5) [of t] by auto
  show ?case
  proof (cases "is_terminal x")
    case True
    then show ?thesis by (subst wait_from.simps) (simp add: x)
  next
    case False
    then have before: "t < T" using assms(1) [of t] assms(2) x by (cases "T \<le> t") auto
    have step: "wait_from status None t b = wait_from status None (t + b) (min (b * 2) MAX_BACKOFF_MS)"
      by (subst wait_from.simps) (simp add: x False)
    have "nat (T - (t + b)) < nat (T - t)" using before less.prems by auto
    from less.hyps [OF this, of "min (b * 2) MAX_BACKOFF_MS"] less.prems
    show ?thesis unfolding step by (auto simp: MAX_BACKOFF_MS_def)
  qed
qed

section \<open>Properties\<close>



end
