(* ===== verification/Bead_Gate.thy ===== *)
theory Bead_Gate imports Js_Regex begin

text \<open>
  \<open>src/activation/bead-gate.ts\<close> and \<open>src/activation/step-contract.ts\<close>: the sections of a
  task contract, the gate that admits a bead, and the contract compiled from an admitted
  one. The answer of \<open>bd state\<close> is a parameter. A reason or an ellipsis with a character
  outside the model's alphabet is a constructor or a flag.
\<close>

section \<open>Sections\<close>

definition REQUIRED_SECTIONS :: "string list" where
  "REQUIRED_SECTIONS = [''PROBLEM'', ''SUCCESS'', ''SCOPE'', ''NON_GOALS'', ''CONSTRAINTS'', ''VALIDATION'', ''OUTPUT'']"

definition SCRUTINY_LEVELS :: "string list" where
  "SCRUTINY_LEVELS = [''LOW'', ''MEDIUM'', ''HIGH'', ''CRITICAL'']"

definition NON_DISPATCHABLE_STATUSES :: "string list" where
  "NON_DISPATCHABLE_STATUSES = [''closed'', ''deferred'']"

definition ALL_HEADINGS :: "string list" where
  "ALL_HEADINGS = REQUIRED_SECTIONS @ [''SCRUTINY'']"

text \<open>\<open>text.replace(/[\s-]+/g, '_')\<close>.\<close>

definition canonical :: "string \<Rightarrow> string" where
  "canonical s = squeeze (\<lambda>c. is_space c \<or> c = CHR ''-'') ''_'' False (to_upper s)"

text \<open>\<open>line.trim().replace(/^#+\s*/, '').replace(/\*/g, '').trim()\<close>.\<close>

definition bare_line :: "string \<Rightarrow> string" where
  "bare_line line =
     (let s = trim line;
          t = (if starts_with ''#'' s then dropWhile is_space (dropWhile (\<lambda>c. c = CHR ''#'') s) else s)
      in trim (filter (\<lambda>c. c \<noteq> CHR ''*'') t))"

definition drop_last_colon :: "string \<Rightarrow> string" where
  "drop_last_colon s = (if ends_with '':'' s then butlast s else s)"

text \<open>
  The match of \<open>/^([A-Za-z][A-Za-z _-]*?)\s*:\s*(.*)$/\<close>: the name has no colon, so the colon
  is the first; being lazy it is what precedes the colon without its trailing spaces; what
  follows must have no line terminator.
\<close>

definition is_letter :: "char \<Rightarrow> bool" where
  "is_letter c \<longleftrightarrow> is_lower_letter c \<or> is_upper_letter c"

definition name_char :: "char \<Rightarrow> bool" where
  "name_char c \<longleftrightarrow> is_letter c \<or> c = CHR '' '' \<or> c = CHR ''_'' \<or> c = CHR ''-''"

definition trim_end :: "string \<Rightarrow> string" where
  "trim_end s = rev (dropWhile is_space (rev s))"

definition colon_split :: "string \<Rightarrow> (string \<times> string) option" where
  "colon_split s =
     (let pre = takeWhile (\<lambda>c. c \<noteq> CHR '':'') s; rest = dropWhile (\<lambda>c. c \<noteq> CHR '':'') s;
          name = trim_end pre; tail = dropWhile is_space (tl rest) in
      if rest \<noteq> [] \<and> name \<noteq> [] \<and> is_letter (hd name) \<and> list_all name_char name
         \<and> list_all (\<lambda>c. char_code c \<notin> {10, 13}) tail
      then Some (name, tail) else None)"

record heading =
  hname :: string
  inlineBody :: "string option"

definition headingOf :: "string \<Rightarrow> heading option" where
  "headingOf line =
     (let bare = bare_line line; whole = canonical (trim (drop_last_colon bare)) in
      if whole \<in> set ALL_HEADINGS then Some \<lparr>hname = whole, inlineBody = None\<rparr>
      else case colon_split bare of
        None \<Rightarrow> None
      | Some (before, after) \<Rightarrow>
          let name = canonical (trim before) in
          if name \<notin> set ALL_HEADINGS then None
          else
            let b = trim after in
            Some \<lparr>hname = name, inlineBody = (if b \<noteq> [] then Some b else None)\<rparr>)"

text \<open>The loop over the lines: the sections so far, the current one and its body.\<close>

type_synonym sections = "(string, string) js_map"

fun flush :: "sections \<Rightarrow> string option \<Rightarrow> string list \<Rightarrow> sections" where
  "flush m None body = m"
| "flush m (Some name) body = map_set m name (trim (join [newline] body))"

fun scan_lines :: "string list \<Rightarrow> sections \<Rightarrow> string option \<Rightarrow> string list \<Rightarrow> sections" where
  "scan_lines [] m current body = flush m current body"
| "scan_lines (line # lines) m current body =
     (case headingOf line of
        Some h \<Rightarrow> scan_lines lines (flush m current body) (Some (hname h))
                    (case inlineBody h of Some b \<Rightarrow> [b] | None \<Rightarrow> [])
      | None \<Rightarrow> scan_lines lines m current (if current \<noteq> None then body @ [line] else body))"

definition extractSections :: "string \<Rightarrow> sections" where
  "extractSections description = scan_lines (split_on newline description) [] None []"

section \<open>The excerpt\<close>

definition PURPOSE_EXCERPT_MAX :: nat where
  "PURPOSE_EXCERPT_MAX = 60"

record excerpt =
  ex_text :: string
  ex_ellipsis :: bool \<comment> \<open>followed by the one-character ellipsis\<close>

definition excerpt_of :: "string \<Rightarrow> excerpt option" where
  "excerpt_of body =
     (case List.find (\<lambda>s. s \<noteq> []) (map trim (split_on newline body)) of
        None \<Rightarrow> None
      | Some line \<Rightarrow>
          let flat = squeeze is_space '' '' False line in
          Some (if length flat \<le> PURPOSE_EXCERPT_MAX then \<lparr>ex_text = flat, ex_ellipsis = False\<rparr>
                else \<lparr>ex_text = take (PURPOSE_EXCERPT_MAX - 1) flat, ex_ellipsis = True\<rparr>))"

definition section_text :: "sections \<Rightarrow> string \<Rightarrow> string" where
  "section_text m name = (case map_get m name of Some s \<Rightarrow> s | None \<Rightarrow> [])"

definition extractPurposeExcerpt :: "string \<Rightarrow> excerpt option" where
  "extractPurposeExcerpt description =
     (let m = extractSections description in
      case excerpt_of (section_text m ''SCOPE'') of
        Some e \<Rightarrow> Some e
      | None \<Rightarrow> excerpt_of (section_text m ''SUCCESS''))"

section \<open>The scrutiny level\<close>

text \<open>
  \<open>/SCRUTINY\b[^\n]*\n?\s*\**\s*(LOW|MEDIUM|HIGH|CRITICAL)\b/i\<close>, then
  \<open>/SCRUTINY\b\s*[:\-]?\s*(LOW|MEDIUM|HIGH|CRITICAL)\b/i\<close> (the class has a dash outside the
  alphabet too): what precedes the level, and the first level found there.
\<close>

definition scrutiny_loose :: rx where
  "scrutiny_loose = Sq (lit_ci ''SCRUTINY'') (Sq WordB (Sq (Star (\<lambda>c. c \<noteq> newline)) (Sq (Opt (Cls (\<lambda>c. c = newline)))
     (Sq (Star is_space) (Sq (Star (\<lambda>c. c = CHR ''*'')) (Star is_space))))))"

definition scrutiny_strict :: rx where
  "scrutiny_strict = Sq (lit_ci ''SCRUTINY'') (Sq WordB (Sq (Star is_space)
     (Sq (Opt (Cls (\<lambda>c. c = CHR '':'' \<or> c = CHR ''-''))) (Star is_space))))"

definition level_at :: "rx_state \<Rightarrow> string option" where
  "level_at st = List.find (\<lambda>lv. rx_run (Sq (lit_ci lv) WordB) st \<noteq> []) SCRUTINY_LEVELS"

definition level_after :: "rx \<Rightarrow> rx_state \<Rightarrow> string option" where
  "level_after r st = (case List.map_filter level_at (rx_run r st) of [] \<Rightarrow> None | lv # _ \<Rightarrow> Some lv)"

fun find_level :: "rx \<Rightarrow> char option \<Rightarrow> string \<Rightarrow> string option" where
  "find_level r p [] = level_after r (p, [])"
| "find_level r p (c # cs) =
     (case level_after r (p, c # cs) of Some lv \<Rightarrow> Some lv | None \<Rightarrow> find_level r (Some c) cs)"

definition scrutinyLevel :: "string \<Rightarrow> string option" where
  "scrutinyLevel description =
     (case find_level scrutiny_loose None description of
        Some lv \<Rightarrow> Some lv | None \<Rightarrow> find_level scrutiny_strict None description)"

section \<open>The gate\<close>

record bead_dependency =
  dep_id :: "string option"

record bead_record =
  bead_id :: string
  bead_title :: string
  bead_description :: "string option"
  bead_status :: "string option"
  bead_dependencies :: "bead_dependency list option"
  bead_revision :: "string option"

datatype bead_refusal =
    Not_dispatchable string
  | Contract_is_draft
  | Sections_missing
  | No_scrutiny_level

text \<open>\<open>Inr\<close> for \<open>ok\<close>; \<open>Inl\<close> the reason and the missing sections.\<close>

definition evaluateBeadReadiness ::
  "(string \<Rightarrow> string option) \<Rightarrow> bead_record \<Rightarrow> bead_refusal \<times> string list + unit" where
  "evaluateBeadReadiness readContractState bead =
     (let status = map_option (\<lambda>s. to_lower (trim s)) (bead_status bead) in
      if truthy status \<and> the status \<in> set NON_DISPATCHABLE_STATUSES then Inl (Not_dispatchable (the status), [])
      else if readContractState (bead_id bead) = Some ''draft'' then Inl (Contract_is_draft, [])
      else
        let description = (case bead_description bead of Some d \<Rightarrow> d | None \<Rightarrow> []);
            found = extractSections description;
            missing = filter (\<lambda>sec. \<not> truthy (map_get found sec)) REQUIRED_SECTIONS in
        if missing \<noteq> [] then Inl (Sections_missing, missing)
        else if \<not> truthy (scrutinyLevel description) then Inl (No_scrutiny_level, [''SCRUTINY''])
        else Inr ())"

section \<open>The step contract\<close>

datatype evidence_kind = Bead_ref | Blocker_ref

record evidence_ref =
  ev_kind :: evidence_kind
  ev_ref :: string
  ev_title :: "string option"

record output_requirement =
  out_description :: string
  out_format :: "string option"

record step_contract =
  rootWorkRef :: string
  mandate :: string
  inputs :: "evidence_ref list"
  outputs :: "output_requirement list"
  inScope :: string
  nonGoals :: "string list"
  constraints :: "string list option"
  validation :: "string list option"
  prov_specialist :: string
  generatedAt :: int
  sourceBeadRevision :: "string option"

text \<open>\<open>/^[-*]\s*/\<close> (and the bullet outside the alphabet), then \<open>/^\d+[.)]\s*/\<close>.\<close>

definition strip_bullet :: "string \<Rightarrow> string" where
  "strip_bullet s = (case s of
     c # cs \<Rightarrow> if c = CHR ''-'' \<or> c = CHR ''*'' then dropWhile is_space cs else s
   | [] \<Rightarrow> s)"

definition strip_number :: "string \<Rightarrow> string" where
  "strip_number s =
     (case dropWhile is_digit s of
        c # cs \<Rightarrow> if takeWhile is_digit s \<noteq> [] \<and> (c = CHR ''.'' \<or> c = CHR '')'') then dropWhile is_space cs else s
      | [] \<Rightarrow> s)"

definition toList :: "string option \<Rightarrow> string list" where
  "toList body =
     (if \<not> truthy body then []
      else filter (\<lambda>l. 0 < length l)
             (map (\<lambda>line. trim (strip_number (strip_bullet (trim line)))) (split_on newline (the body))))"

definition compileStepContract :: "bead_record \<Rightarrow> string \<Rightarrow> string option \<Rightarrow> int \<Rightarrow> step_contract" where
  "compileStepContract bead spec responseFormat now =
     (let found = extractSections (case bead_description bead of Some d \<Rightarrow> d | None \<Rightarrow> []);
          scopeText = section_text found ''SCOPE''; successText = section_text found ''SUCCESS'';
          outputText = section_text found ''OUTPUT'';
          constr = toList (map_get found ''CONSTRAINTS''); valid = toList (map_get found ''VALIDATION'')
      in \<lparr>rootWorkRef = bead_id bead,
          mandate = join [newline, newline] (filter (\<lambda>t. t \<noteq> []) [successText, scopeText]),
          inputs = \<lparr>ev_kind = Bead_ref, ev_ref = bead_id bead, ev_title = Some (bead_title bead)\<rparr>
            # map (\<lambda>d. \<lparr>ev_kind = Blocker_ref, ev_ref = the (dep_id d), ev_title = None\<rparr>)
                (filter (\<lambda>d. truthy (dep_id d)) (case bead_dependencies bead of Some ds \<Rightarrow> ds | None \<Rightarrow> [])),
          outputs = (if outputText \<noteq> []
            then [\<lparr>out_description = outputText, out_format = (if truthy responseFormat then responseFormat else None)\<rparr>]
            else []),
          inScope = scopeText,
          nonGoals = toList (map_get found ''NON_GOALS''),
          constraints = (if 0 < length constr then Some constr else None),
          validation = (if 0 < length valid then Some valid else None),
          prov_specialist = spec,
          generatedAt = now,
          sourceBeadRevision = bead_revision bead\<rparr>)"


section \<open>Lemmas\<close>

lemma split_on_join:
  "ls \<noteq> [] \<Longrightarrow> \<forall>l \<in> set ls. c \<notin> set l \<Longrightarrow> split_on c (join [c] ls) = ls"
proof (induction "[c]" ls rule: join.induct)
  case 1
  then show ?case by simp
next
  case (2 x)
  then show ?case by (simp add: split_on_no_sep)
next
  case (3 x y ys)
  then show ?case by (simp add: split_on_sep)
qed

lemma scan_body:
  "\<forall>l \<in> set ls. headingOf l = None \<Longrightarrow> scan_lines (ls @ rest) m (Some n) body = scan_lines rest m (Some n) (body @ ls)"
  by (induction ls arbitrary: body) auto

lemma newline_eq: "newline = CHR 0x0A"
  by code_simp

text \<open>A block: its heading line, what the heading says, and its body lines.\<close>

type_synonym block = "string \<times> heading \<times> string list"

definition block_lines :: "block \<Rightarrow> string list" where
  "block_lines b = fst b # snd (snd b)"

definition block_ok :: "block \<Rightarrow> bool" where
  "block_ok b \<longleftrightarrow> headingOf (fst b) = Some (fst (snd b))
     \<and> (\<forall>l \<in> set (snd (snd b)). headingOf l = None) \<and> (\<forall>l \<in> set (block_lines b). newline \<notin> set l)"

definition block_section :: "block \<Rightarrow> string \<times> string" where
  "block_section b = (hname (fst (snd b)),
     trim (join [newline] ((case inlineBody (fst (snd b)) of Some i \<Rightarrow> [i] | None \<Rightarrow> []) @ snd (snd b))))"

lemma flush_fresh: "map_get m n = None \<Longrightarrow> flush m (Some n) body = m @ [(n, trim (join [newline] body))]"
proof -
  have "map_get m n = None \<Longrightarrow> map_set m n v = m @ [(n, v)]" for v
    by (induction m n v rule: map_set.induct) (auto split: if_splits)
  then show "map_get m n = None \<Longrightarrow> ?thesis" by simp
qed

lemma scan_blocks:
  assumes "\<forall>b \<in> set blocks. block_ok b"
    and "distinct (map fst m @ n # map (hname \<circ> fst \<circ> snd) blocks)"
  shows "scan_lines (concat (map block_lines blocks)) m (Some n) body
    = m @ (n, trim (join [newline] body)) # map block_section blocks"
  using assms
proof (induction blocks arbitrary: m n body)
  case Nil
  then have "map_get m n = None" by (auto simp: map_get_None_iff)
  then show ?case by (simp add: flush_fresh del: flush.simps)
next
  case (Cons b blocks)
  obtain hl h ls where b: "b = (hl, h, ls)" by (cases b)
  have fresh: "map_get m n = None" using Cons.prems by (auto simp: map_get_None_iff)
  have head: "headingOf hl = Some h" and plain: "\<forall>l \<in> set ls. headingOf l = None"
    using Cons.prems(1) by (auto simp: b block_ok_def)
  let ?m = "m @ [(n, trim (join [newline] body))]"
  let ?body = "(case inlineBody h of Some i \<Rightarrow> [i] | None \<Rightarrow> []) @ ls"
  have "scan_lines (concat (map block_lines (b # blocks))) m (Some n) body
      = scan_lines (concat (map block_lines blocks)) ?m (Some (hname h)) ?body"
    using scan_body [OF plain] by (simp add: b block_lines_def head flush_fresh [OF fresh] del: flush.simps)
  also have "\<dots> = ?m @ (hname h, trim (join [newline] ?body)) # map block_section blocks"
    by (rule Cons.IH) (use Cons.prems in \<open>auto simp: b\<close>)
  finally show ?case by (simp add: b block_section_def)
qed

lemma levels: "scrutinyLevel d = Some lv \<Longrightarrow> lv \<in> set SCRUTINY_LEVELS"
proof -
  have at: "level_at st = Some lv \<Longrightarrow> lv \<in> set SCRUTINY_LEVELS" for st
    by (auto simp: level_at_def find_Some_iff)
  have after: "level_after r st = Some lv \<Longrightarrow> lv \<in> set SCRUTINY_LEVELS" for r st
  proof -
    assume "level_after r st = Some lv"
    then have "lv \<in> set (List.map_filter level_at (rx_run r st))"
      by (auto simp: level_after_def split: list.splits)
    then show ?thesis using at by (auto simp: List.map_filter_def)
  qed
  have "find_level r p s = Some lv \<Longrightarrow> lv \<in> set SCRUTINY_LEVELS" for r p s
    by (induction s arbitrary: p) (auto dest: after split: option.splits)
  then show "scrutinyLevel d = Some lv \<Longrightarrow> lv \<in> set SCRUTINY_LEVELS"
    by (auto simp: scrutinyLevel_def split: option.splits)
qed

section \<open>Properties\<close>


lemma demo_headings:
  "headingOf ''## **Problem**'' = Some \<lparr>hname = ''PROBLEM'', inlineBody = None\<rparr>"
  "headingOf ''non-goals: none'' = Some \<lparr>hname = ''NON_GOALS'', inlineBody = Some ''none''\<rparr>"
  "headingOf ''see OUTPUT: below'' = None"
  by code_simp+



definition demo_bead :: bead_record where
  "demo_bead = \<lparr>bead_id = ''b-1'', bead_title = ''t'', bead_description = Some ''OUTPUT: o'', bead_status = Some ''open'',
     bead_dependencies = None, bead_revision = None\<rparr>"


end
