(* ===== verification/Launch_Outcome.thy ===== *)
theory Launch_Outcome imports Json_Value begin

text \<open>
  \<open>src/specialist/launch-outcome.ts\<close>: the outcome of a launch, parsed, validated against the
  contract and projected. A check gives the error code and message it throws (\<^term>\<open>Inl\<close>)
  or its value; the message of \<open>JSON.parse\<close> is a parameter.
\<close>

section \<open>Data\<close>

definition LAUNCH_OUTCOME_SCHEMA_VERSION :: string where
  "LAUNCH_OUTCOME_SCHEMA_VERSION = ''xtrm.command-outcome.v1''"

datatype outcome_error = Invalid_json | Unsupported_schema | Invalid_outcome

type_synonym 'a checked = "outcome_error \<times> string + 'a"

record lo_runtime =
  rt_name :: string
  rt_version :: "string option"

record lo_identity =
  thread_id :: "string option"
  session_name :: "string option"
  tmux_session_id :: "string option"
  pane_id :: "string option"

record lo_worktree =
  wt_path :: string
  wt_branch :: string
  wt_owner :: string

record lo_readiness =
  rd_status :: string
  rd_source :: string

record lo_safety =
  sp_name :: string
  sp_sandbox :: string
  sp_approvals :: string
  hook_trust :: string

record lo_mutation =
  mu_completed :: bool
  mu_kind :: string

text \<open>An optional key that may be null: absent, null, or a string.\<close>

record lo_effect =
  ef_kind :: string
  ef_status :: string
  ef_id :: "string option option"

record lo_action =
  ac_kind :: string
  ac_required :: bool
  ac_argv :: "string list"
  ac_display :: string
  ac_why :: string
  ac_cwd :: "string option"

record launch_outcome =
  schema_version :: string
  lo_status :: string
  reason_code :: string
  summary :: string
  runtime :: "lo_runtime option"
  identity :: "lo_identity option"
  worktree :: "lo_worktree option"
  readiness :: "lo_readiness option"
  safety_profile :: "lo_safety option"
  persistence :: "lo_mutation option"
  authoritative_mutation :: lo_mutation
  side_effects :: "lo_effect list"
  next_actions :: "lo_action list"

section \<open>Patterns\<close>

definition CONTROL_CHARS :: "char \<Rightarrow> bool" where
  "CONTROL_CHARS c \<longleftrightarrow> char_code c \<le> 31 \<or> char_code c = 127"

text \<open>\<open>/^[a-z][...]*$/\<close>, and \<open>/^\$[0-9]+$/\<close>.\<close>

fun head_then :: "(char \<Rightarrow> bool) \<Rightarrow> string \<Rightarrow> bool" where
  "head_then P [] = False"
| "head_then P (c # cs) = (is_lower_letter c \<and> list_all P cs)"

fun sigil_digits :: "char \<Rightarrow> string \<Rightarrow> bool" where
  "sigil_digits d [] = False"
| "sigil_digits d (c # cs) = (c = d \<and> cs \<noteq> [] \<and> list_all is_digit cs)"

definition REASON_CODE_RE :: "string \<Rightarrow> bool" where
  "REASON_CODE_RE = head_then (\<lambda>c. is_lower_letter c \<or> is_digit c \<or> c = CHR ''_'')"

definition TOKEN_RE :: "string \<Rightarrow> bool" where
  "TOKEN_RE = head_then (\<lambda>c. is_lower_letter c \<or> is_digit c \<or> c = CHR ''-'')"

definition DOTTED_TOKEN_RE :: "string \<Rightarrow> bool" where
  "DOTTED_TOKEN_RE = head_then (\<lambda>c. is_lower_letter c \<or> is_digit c \<or> c = CHR ''.'' \<or> c = CHR ''-'')"

definition TMUX_SESSION_ID_RE :: "string \<Rightarrow> bool" where
  "TMUX_SESSION_ID_RE = sigil_digits (CHR ''$'')"

definition PANE_ID_RE :: "string \<Rightarrow> bool" where
  "PANE_ID_RE = sigil_digits (CHR ''%'')"

definition STATUSES :: "string list" where
  "STATUSES = [''ok'', ''degraded'', ''noop'', ''rejected'', ''failed'']"

definition RUNTIMES :: "string list" where
  "RUNTIMES = [''pi'', ''claude'', ''codex'']"

definition READINESS_STATUSES :: "string list" where
  "READINESS_STATUSES = [''ready'', ''unverified'', ''not_ready'']"

definition READINESS_SOURCES :: "string list" where
  "READINESS_SOURCES = [''agent.ready'', ''tmux-pane'', ''none'']"

definition ACTION_KINDS :: "string list" where
  "ACTION_KINDS = [''attach'', ''resume'', ''repair'', ''end'', ''wait'', ''inspect'']"

definition SIDE_EFFECT_STATUSES :: "string list" where
  "SIDE_EFFECT_STATUSES = [''ok'', ''degraded'', ''failed'', ''skipped'']"

section \<open>The checks of one value\<close>

text \<open>The value is \<^term>\<open>None\<close> when the key is absent.\<close>

abbreviation bad :: "string \<Rightarrow> 'a checked" where
  "bad msg \<equiv> Inl (Invalid_outcome, msg)"

fun isObject :: "json \<Rightarrow> bool" where
  "isObject (JObj m) = True"
| "isObject _ = False"

fun boundedString :: "json option \<Rightarrow> string \<Rightarrow> nat \<Rightarrow> bool \<Rightarrow> string checked" where
  "boundedString (Some (JStr s)) fld maxLength allowEmpty =
     (if length s = 0 \<and> \<not> allowEmpty then bad (fld @ '' must be non-empty'')
      else if maxLength < length s then bad (fld @ '' exceeds '' @ show_nat maxLength @ '' characters'')
      else if list_ex CONTROL_CHARS s then bad (fld @ '' contains control characters'')
      else Inr s)"
| "boundedString _ fld maxLength allowEmpty = bad (fld @ '' must be a string'')"

definition patternString :: "json option \<Rightarrow> string \<Rightarrow> nat \<Rightarrow> (string \<Rightarrow> bool) \<Rightarrow> string checked" where
  "patternString v fld maxLength pat =
     andThen (boundedString v fld maxLength False)
       (\<lambda>s. if \<not> pat s then bad (fld @ '' does not match the contracted pattern'') else Inr s)"

definition nullablePatternString ::
  "json option \<Rightarrow> string \<Rightarrow> nat \<Rightarrow> (string \<Rightarrow> bool) \<Rightarrow> string option checked" where
  "nullablePatternString v fld maxLength pat =
     (if v = Some JNull \<or> v = None then Inr None
      else andThen (patternString v fld maxLength pat) (\<lambda>s. Inr (Some s)))"

definition enumValue :: "json option \<Rightarrow> string \<Rightarrow> string list \<Rightarrow> string checked" where
  "enumValue v fld allowed =
     (case v of
        Some (JStr s) \<Rightarrow> if s \<in> set allowed then Inr s else bad (fld @ '' must be one of: '' @ join '', '' allowed)
      | _ \<Rightarrow> bad (fld @ '' must be one of: '' @ join '', '' allowed))"

definition mutationRecord :: "json option \<Rightarrow> string \<Rightarrow> lo_mutation checked" where
  "mutationRecord v fld =
     (case v of
        Some (JObj m) \<Rightarrow>
          (case map_get m ''completed'' of
             Some (JBool b) \<Rightarrow>
               andThen (patternString (map_get m ''kind'') (fld @ ''.kind'') 96 DOTTED_TOKEN_RE)
                 (\<lambda>k. Inr \<lparr>mu_completed = b, mu_kind = k\<rparr>)
           | _ \<Rightarrow> bad (fld @ ''.completed must be a boolean''))
      | _ \<Rightarrow> bad (fld @ '' must be an object''))"

definition parseLaunchOutcome :: "string \<Rightarrow> json_text \<Rightarrow> json checked" where
  "parseLaunchOutcome message raw =
     (case parse_json raw of
        Some j \<Rightarrow> Inr j
      | None \<Rightarrow> Inl (Invalid_json, ''outcome is not valid JSON: '' @ message))"

section \<open>The sections of an outcome\<close>

text \<open>\<open>if (value.k !== undefined) { ... }\<close>, and a section that must be an object.\<close>

definition optional :: "('a \<Rightarrow> 'b checked) \<Rightarrow> 'a option \<Rightarrow> 'b option checked" where
  "optional f v = (case v of None \<Rightarrow> Inr None | Some j \<Rightarrow> andThen (f j) (\<lambda>x. Inr (Some x)))"

definition in_object :: "string \<Rightarrow> json \<Rightarrow> 'a checked \<Rightarrow> 'a checked" where
  "in_object fld j r = (if \<not> isObject j then bad (fld @ '' must be an object'') else r)"

definition runtime_of :: "json \<Rightarrow> lo_runtime checked" where
  "runtime_of j = in_object ''runtime'' j
     (if field j ''version'' = None then bad ''runtime.version is required when runtime is present''
      else
        andThen (enumValue (field j ''name'') ''runtime.name'' RUNTIMES) (\<lambda>n.
        andThen (if field j ''version'' = Some JNull then Inr None
                 else andThen (boundedString (field j ''version'') ''runtime.version'' 128 False) (\<lambda>s. Inr (Some s))) (\<lambda>v.
        Inr \<lparr>rt_name = n, rt_version = v\<rparr>)))"

definition nullableId :: "json \<Rightarrow> string \<Rightarrow> string option checked" where
  "nullableId j k =
     (if field j k = Some JNull then Inr None
      else andThen (boundedString (field j k) (''identity.'' @ k) 256 False) (\<lambda>s. Inr (Some s)))"

definition IDENTITY_KEYS :: "string list" where
  "IDENTITY_KEYS = [''thread_id'', ''session_name'', ''tmux_session_id'', ''pane_id'']"

definition identity_of :: "json \<Rightarrow> lo_identity checked" where
  "identity_of j = in_object ''identity'' j
     (case List.find (\<lambda>k. field j k = None) IDENTITY_KEYS of
        Some k \<Rightarrow> bad (''identity.'' @ k @ '' is required when identity is present'')
      | None \<Rightarrow>
          andThen (nullableId j ''thread_id'') (\<lambda>t.
          andThen (nullableId j ''session_name'') (\<lambda>s.
          andThen (nullablePatternString (field j ''tmux_session_id'') ''identity.tmux_session_id'' 32 TMUX_SESSION_ID_RE) (\<lambda>x.
          andThen (nullablePatternString (field j ''pane_id'') ''identity.pane_id'' 32 PANE_ID_RE) (\<lambda>p.
          Inr \<lparr>thread_id = t, session_name = s, tmux_session_id = x, pane_id = p\<rparr>)))))"

definition worktree_of :: "json \<Rightarrow> lo_worktree checked" where
  "worktree_of j = in_object ''worktree'' j
     (if field j ''owner'' \<noteq> Some (JStr ''core'')
      then bad (''worktree.owner must be '' @ quoted ''core'' @ '' (Core owns launcher worktrees)'')
      else
        andThen (boundedString (field j ''path'') ''worktree.path'' 4096 False) (\<lambda>p.
        andThen (boundedString (field j ''branch'') ''worktree.branch'' 4096 False) (\<lambda>b.
        Inr \<lparr>wt_path = p, wt_branch = b, wt_owner = ''core''\<rparr>)))"

definition readiness_of :: "json \<Rightarrow> lo_readiness checked" where
  "readiness_of j = in_object ''readiness'' j
     (andThen (enumValue (field j ''status'') ''readiness.status'' READINESS_STATUSES) (\<lambda>s.
      andThen (enumValue (field j ''source'') ''readiness.source'' READINESS_SOURCES) (\<lambda>r.
      Inr \<lparr>rd_status = s, rd_source = r\<rparr>)))"

definition safety_of :: "json \<Rightarrow> lo_safety checked" where
  "safety_of j = in_object ''safety_profile'' j
     (if field j ''hook_trust'' \<noteq> Some (JStr ''preserved'')
      then bad (''safety_profile.hook_trust must be '' @ quoted ''preserved'')
      else
        andThen (patternString (field j ''name'') ''safety_profile.name'' 64 TOKEN_RE) (\<lambda>n.
        andThen (patternString (field j ''sandbox'') ''safety_profile.sandbox'' 64 TOKEN_RE) (\<lambda>s.
        andThen (patternString (field j ''approvals'') ''safety_profile.approvals'' 64 TOKEN_RE) (\<lambda>a.
        Inr \<lparr>sp_name = n, sp_sandbox = s, sp_approvals = a, hook_trust = ''preserved''\<rparr>))))"

text \<open>The loop over the entries of an array, which stops at the first that fails.\<close>

fun check_each :: "(nat \<Rightarrow> 'a \<Rightarrow> 'b checked) \<Rightarrow> nat \<Rightarrow> 'a list \<Rightarrow> 'b list checked" where
  "check_each f n [] = Inr []"
| "check_each f n (x # xs) = andThen (f n x) (\<lambda>y. andThen (check_each f (Suc n) xs) (\<lambda>ys. Inr (y # ys)))"

definition at_index :: "string \<Rightarrow> nat \<Rightarrow> string" where
  "at_index fld n = fld @ ''['' @ show_nat n @ '']''"

definition effect_of :: "nat \<Rightarrow> json \<Rightarrow> lo_effect checked" where
  "effect_of n j =
     (let at = at_index ''side_effects'' n in in_object at j
       (andThen (patternString (field j ''kind'') (at @ ''.kind'') 96 DOTTED_TOKEN_RE) (\<lambda>k.
        andThen (enumValue (field j ''status'') (at @ ''.status'') SIDE_EFFECT_STATUSES) (\<lambda>s.
        andThen (optional (\<lambda>i. if i = JNull then Inr None
                   else andThen (boundedString (Some i) (at @ ''.id'') 256 False) (\<lambda>x. Inr (Some x))) (field j ''id'')) (\<lambda>i.
        Inr \<lparr>ef_kind = k, ef_status = s, ef_id = i\<rparr>)))))"

definition action_of :: "nat \<Rightarrow> json \<Rightarrow> lo_action checked" where
  "action_of n j =
     (let at = at_index ''next_actions'' n in in_object at j
       (case field j ''argv'' of
          Some (JArr args) \<Rightarrow>
            if args = [] then bad (at @ ''.argv must be a non-empty array'')
            else if 32 < length args then bad (at @ ''.argv exceeds 32 entries'')
            else (case field j ''required'' of
              Some (JBool r) \<Rightarrow>
                andThen (enumValue (field j ''kind'') (at @ ''.kind'') ACTION_KINDS) (\<lambda>k.
                andThen (check_each (\<lambda>i arg. boundedString (Some arg) (at_index (at @ ''.argv'') i) 4096 True) 0 args) (\<lambda>argv.
                andThen (boundedString (field j ''display'') (at @ ''.display'') 8192 False) (\<lambda>d.
                andThen (boundedString (field j ''why'') (at @ ''.why'') 240 False) (\<lambda>w.
                andThen (optional (\<lambda>c. boundedString (Some c) (at @ ''.cwd'') 4096 False) (field j ''cwd'')) (\<lambda>c.
                Inr \<lparr>ac_kind = k, ac_required = r, ac_argv = argv, ac_display = d, ac_why = w, ac_cwd = c\<rparr>)))))
            | _ \<Rightarrow> bad (at @ ''.required must be a boolean''))
        | _ \<Rightarrow> bad (at @ ''.argv must be a non-empty array'')))"

definition array_of :: "string \<Rightarrow> nat \<Rightarrow> (nat \<Rightarrow> json \<Rightarrow> 'b checked) \<Rightarrow> json option \<Rightarrow> 'b list checked" where
  "array_of fld limit f v =
     (case v of
        Some (JArr js) \<Rightarrow>
          if limit < length js then bad (fld @ '' exceeds '' @ show_nat limit @ '' entries'')
          else check_each f 0 js
      | _ \<Rightarrow> bad (fld @ '' must be an array''))"

definition validate_fields :: "json \<Rightarrow> string \<Rightarrow> launch_outcome checked" where
  "validate_fields j version =
     andThen (enumValue (field j ''status'') ''status'' STATUSES) (\<lambda>st.
     andThen (patternString (field j ''reason_code'') ''reason_code'' 64 REASON_CODE_RE) (\<lambda>rc.
     andThen (boundedString (field j ''summary'') ''summary'' 240 False) (\<lambda>su.
     andThen (mutationRecord (field j ''authoritative_mutation'') ''authoritative_mutation'') (\<lambda>am.
     andThen (optional runtime_of (field j ''runtime'')) (\<lambda>rt.
     andThen (optional identity_of (field j ''identity'')) (\<lambda>ident.
     andThen (optional worktree_of (field j ''worktree'')) (\<lambda>wt.
     andThen (optional readiness_of (field j ''readiness'')) (\<lambda>rd.
     andThen (optional safety_of (field j ''safety_profile'')) (\<lambda>sp.
     andThen (optional (\<lambda>p. mutationRecord (Some p) ''persistence'') (field j ''persistence'')) (\<lambda>pe.
     andThen (array_of ''side_effects'' 32 effect_of (field j ''side_effects'')) (\<lambda>ef.
     andThen (array_of ''next_actions'' 16 action_of (field j ''next_actions'')) (\<lambda>ac.
     Inr \<lparr>schema_version = version, lo_status = st, reason_code = rc, summary = su, runtime = rt, identity = ident,
       worktree = wt, readiness = rd, safety_profile = sp, persistence = pe, authoritative_mutation = am,
       side_effects = ef, next_actions = ac\<rparr>))))))))))))"

definition validateLaunchOutcome :: "json \<Rightarrow> launch_outcome checked" where
  "validateLaunchOutcome j =
     (if \<not> isObject j then bad ''outcome must be a JSON object''
      else case field j ''schema_version'' of
        Some (JStr v) \<Rightarrow>
          if length v = 0 then Inl (Unsupported_schema, ''outcome is missing schema_version'')
          else if v \<noteq> LAUNCH_OUTCOME_SCHEMA_VERSION
          then Inl (Unsupported_schema, ''unsupported schema_version '' @ quoted v @ '' (this consumer accepts ''
            @ quoted LAUNCH_OUTCOME_SCHEMA_VERSION @ '')'')
          else validate_fields j v
      | _ \<Rightarrow> Inl (Unsupported_schema, ''outcome is missing schema_version''))"

section \<open>The projection\<close>

text \<open>
  \<open>projectLaunchOutcome\<close> writes every section, an absent one as null. The flag tells it from
  the form the launcher sends, where an absent section has no key.
\<close>

fun str_or_null :: "string option \<Rightarrow> json" where
  "str_or_null (Some s) = JStr s"
| "str_or_null None = JNull"

definition section_key :: "bool \<Rightarrow> string \<Rightarrow> ('a \<Rightarrow> json) \<Rightarrow> 'a option \<Rightarrow> (string \<times> json) list" where
  "section_key nulls k f x = (case x of Some y \<Rightarrow> [(k, f y)] | None \<Rightarrow> if nulls then [(k, JNull)] else [])"

definition runtime_json :: "lo_runtime \<Rightarrow> json" where
  "runtime_json r = JObj [(''name'', JStr (rt_name r)), (''version'', str_or_null (rt_version r))]"

definition identity_json :: "lo_identity \<Rightarrow> json" where
  "identity_json i = JObj [(''thread_id'', str_or_null (thread_id i)), (''session_name'', str_or_null (session_name i)),
     (''tmux_session_id'', str_or_null (tmux_session_id i)), (''pane_id'', str_or_null (pane_id i))]"

definition worktree_json :: "lo_worktree \<Rightarrow> json" where
  "worktree_json w = JObj [(''path'', JStr (wt_path w)), (''branch'', JStr (wt_branch w)), (''owner'', JStr (wt_owner w))]"

definition readiness_json :: "lo_readiness \<Rightarrow> json" where
  "readiness_json r = JObj [(''status'', JStr (rd_status r)), (''source'', JStr (rd_source r))]"

definition safety_json :: "lo_safety \<Rightarrow> json" where
  "safety_json p = JObj [(''name'', JStr (sp_name p)), (''sandbox'', JStr (sp_sandbox p)),
     (''approvals'', JStr (sp_approvals p)), (''hook_trust'', JStr (hook_trust p))]"

definition mutation_json :: "lo_mutation \<Rightarrow> json" where
  "mutation_json m = JObj [(''completed'', JBool (mu_completed m)), (''kind'', JStr (mu_kind m))]"

definition effect_json :: "lo_effect \<Rightarrow> json" where
  "effect_json e = JObj ([(''kind'', JStr (ef_kind e)), (''status'', JStr (ef_status e))]
     @ opt_key ''id'' (map_option str_or_null (ef_id e)))"

definition action_json :: "lo_action \<Rightarrow> json" where
  "action_json a = JObj ([(''kind'', JStr (ac_kind a)), (''required'', JBool (ac_required a)),
     (''argv'', JArr (map JStr (ac_argv a))), (''display'', JStr (ac_display a)), (''why'', JStr (ac_why a))]
     @ opt_key ''cwd'' (map_option JStr (ac_cwd a)))"

definition outcome_json :: "bool \<Rightarrow> launch_outcome \<Rightarrow> json" where
  "outcome_json nulls oc = JObj (
     [(''schema_version'', JStr (schema_version oc)), (''status'', JStr (lo_status oc)),
      (''reason_code'', JStr (reason_code oc)), (''summary'', JStr (summary oc))]
     @ section_key nulls ''runtime'' runtime_json (runtime oc)
     @ section_key nulls ''identity'' identity_json (identity oc)
     @ section_key nulls ''worktree'' worktree_json (worktree oc)
     @ section_key nulls ''readiness'' readiness_json (readiness oc)
     @ section_key nulls ''safety_profile'' safety_json (safety_profile oc)
     @ section_key nulls ''persistence'' mutation_json (persistence oc)
     @ [(''authoritative_mutation'', mutation_json (authoritative_mutation oc)),
        (''side_effects'', JArr (map effect_json (side_effects oc))),
        (''next_actions'', JArr (map action_json (next_actions oc)))])"

definition projectLaunchOutcome :: "launch_outcome \<Rightarrow> json" where
  "projectLaunchOutcome oc = outcome_json True oc"

section \<open>The contract\<close>

text \<open>What the contract allows, stated on the typed outcome.\<close>

definition bounded :: "nat \<Rightarrow> string \<Rightarrow> bool" where
  "bounded n s \<longleftrightarrow> s \<noteq> [] \<and> length s \<le> n \<and> list_all (\<lambda>c. \<not> CONTROL_CHARS c) s"

definition token :: "nat \<Rightarrow> (string \<Rightarrow> bool) \<Rightarrow> string \<Rightarrow> bool" where
  "token n pat s \<longleftrightarrow> bounded n s \<and> pat s"

definition runtime_ok :: "lo_runtime \<Rightarrow> bool" where
  "runtime_ok r \<longleftrightarrow> rt_name r \<in> set RUNTIMES \<and> pred_option (bounded 128) (rt_version r)"

definition identity_ok :: "lo_identity \<Rightarrow> bool" where
  "identity_ok i \<longleftrightarrow> pred_option (bounded 256) (thread_id i) \<and> pred_option (bounded 256) (session_name i)
     \<and> pred_option (token 32 TMUX_SESSION_ID_RE) (tmux_session_id i) \<and> pred_option (token 32 PANE_ID_RE) (pane_id i)"

definition worktree_ok :: "lo_worktree \<Rightarrow> bool" where
  "worktree_ok w \<longleftrightarrow> bounded 4096 (wt_path w) \<and> bounded 4096 (wt_branch w) \<and> wt_owner w = ''core''"

definition readiness_ok :: "lo_readiness \<Rightarrow> bool" where
  "readiness_ok r \<longleftrightarrow> rd_status r \<in> set READINESS_STATUSES \<and> rd_source r \<in> set READINESS_SOURCES"

definition safety_ok :: "lo_safety \<Rightarrow> bool" where
  "safety_ok p \<longleftrightarrow> token 64 TOKEN_RE (sp_name p) \<and> token 64 TOKEN_RE (sp_sandbox p)
     \<and> token 64 TOKEN_RE (sp_approvals p) \<and> hook_trust p = ''preserved''"

definition mutation_ok :: "lo_mutation \<Rightarrow> bool" where
  "mutation_ok m \<longleftrightarrow> token 96 DOTTED_TOKEN_RE (mu_kind m)"

definition effect_ok :: "lo_effect \<Rightarrow> bool" where
  "effect_ok e \<longleftrightarrow> token 96 DOTTED_TOKEN_RE (ef_kind e) \<and> ef_status e \<in> set SIDE_EFFECT_STATUSES
     \<and> pred_option (pred_option (bounded 256)) (ef_id e)"

definition action_ok :: "lo_action \<Rightarrow> bool" where
  "action_ok a \<longleftrightarrow> ac_kind a \<in> set ACTION_KINDS \<and> ac_argv a \<noteq> [] \<and> length (ac_argv a) \<le> 32
     \<and> list_all (\<lambda>s. s = [] \<or> bounded 4096 s) (ac_argv a) \<and> bounded 8192 (ac_display a) \<and> bounded 240 (ac_why a)
     \<and> pred_option (bounded 4096) (ac_cwd a)"

definition outcome_ok :: "launch_outcome \<Rightarrow> bool" where
  "outcome_ok oc \<longleftrightarrow> schema_version oc = LAUNCH_OUTCOME_SCHEMA_VERSION \<and> lo_status oc \<in> set STATUSES
     \<and> token 64 REASON_CODE_RE (reason_code oc) \<and> bounded 240 (summary oc)
     \<and> pred_option runtime_ok (runtime oc) \<and> pred_option identity_ok (identity oc) \<and> pred_option worktree_ok (worktree oc)
     \<and> pred_option readiness_ok (readiness oc) \<and> pred_option safety_ok (safety_profile oc)
     \<and> pred_option mutation_ok (persistence oc) \<and> mutation_ok (authoritative_mutation oc)
     \<and> length (side_effects oc) \<le> 32 \<and> list_all effect_ok (side_effects oc)
     \<and> length (next_actions oc) \<le> 16 \<and> list_all action_ok (next_actions oc)"

section \<open>What each check accepts\<close>

named_theorems accepts \<open>when a check gives a value\<close>

declare andThen_Inr_iff [accepts]

lemma boundedString_iff [accepts]:
  "boundedString v fld n e = Inr s \<longleftrightarrow> v = Some (JStr s) \<and> (bounded n s \<or> e \<and> s = [])"
  by (cases "(v, fld, n, e)" rule: boundedString.cases)
    (auto simp: bounded_def list_ex_iff list_all_iff not_le)

declare boundedString.simps [simp del]

lemma patternString_iff [accepts]:
  "patternString v fld n pat = Inr s \<longleftrightarrow> v = Some (JStr s) \<and> token n pat s"
  by (auto simp: patternString_def accepts token_def)

lemma nullablePatternString_iff [accepts]:
  "nullablePatternString v fld n pat = Inr s \<longleftrightarrow>
     (case s of None \<Rightarrow> v = None \<or> v = Some JNull | Some x \<Rightarrow> v = Some (JStr x) \<and> token n pat x)"
  by (auto simp: nullablePatternString_def accepts split: option.splits)

lemma enumValue_iff [accepts]: "enumValue v fld al = Inr s \<longleftrightarrow> v = Some (JStr s) \<and> s \<in> set al"
  by (auto simp: enumValue_def split: option.splits json.splits)

lemma mutationRecord_iff [accepts]:
  "mutationRecord v fld = Inr m \<longleftrightarrow> (\<exists>kvs. v = Some (JObj kvs) \<and> map_get kvs ''completed'' = Some (JBool (mu_completed m))
     \<and> map_get kvs ''kind'' = Some (JStr (mu_kind m))) \<and> mutation_ok m"
  by (cases m) (auto simp: mutationRecord_def accepts mutation_ok_def split: option.splits json.splits)

lemma optional_iff [accepts]:
  "optional f v = Inr x \<longleftrightarrow> (case v of None \<Rightarrow> x = None | Some j \<Rightarrow> \<exists>y. f j = Inr y \<and> x = Some y)"
  by (auto simp: optional_def accepts split: option.splits)

lemma in_object_iff [accepts]: "in_object fld j r = Inr x \<longleftrightarrow> isObject j \<and> r = Inr x"
  by (simp add: in_object_def)

lemma if_bad_iff [accepts]: "(if P then bad m else r) = Inr x \<longleftrightarrow> \<not> P \<and> r = Inr x"
  by simp

lemma check_each_iff: "check_each f n js = Inr ys \<Longrightarrow> length ys = length js \<and> (\<forall>y \<in> set ys. \<exists>k j. f k j = Inr y)"
proof (induction js arbitrary: n ys)
  case (Cons j js)
  then obtain y ys' where "f n j = Inr y" "check_each f (Suc n) js = Inr ys'" "ys = y # ys'"
    by (auto simp: accepts)
  then show ?case using Cons.IH [of "Suc n" ys'] by auto
qed simp

lemma check_each_map: "\<forall>x \<in> set xs. \<forall>k. f k (g x) = Inr x \<Longrightarrow> check_each f n (map g xs) = Inr xs"
  by (induction xs arbitrary: n) auto

lemma array_of_iff [accepts]:
  "array_of fld n f v = Inr ys \<longleftrightarrow> (\<exists>js. v = Some (JArr js) \<and> length js \<le> n \<and> check_each f 0 js = Inr ys)"
  by (auto simp: array_of_def split: option.splits json.splits)

section \<open>Each section is sound and reads back\<close>

lemma nullableId_iff [accepts]:
  "nullableId j k = Inr s \<longleftrightarrow>
     (case s of None \<Rightarrow> field j k = Some JNull | Some x \<Rightarrow> field j k = Some (JStr x) \<and> bounded 256 x)"
  by (auto simp: nullableId_def accepts split: option.splits)

lemma runtime_sound: "runtime_of j = Inr rt \<Longrightarrow> runtime_ok rt"
  by (auto simp: runtime_of_def runtime_ok_def accepts split: if_splits)

lemma identity_sound: "identity_of j = Inr i \<Longrightarrow> identity_ok i"
proof -
  assume h: "identity_of j = Inr i"
  then have none: "List.find (\<lambda>k. field j k = None) IDENTITY_KEYS = None"
    by (cases "List.find (\<lambda>k. field j k = None) IDENTITY_KEYS") (simp_all add: identity_of_def accepts)
  obtain t s x q where "nullableId j ''thread_id'' = Inr t" "nullableId j ''session_name'' = Inr s"
      "nullablePatternString (field j ''tmux_session_id'') ''identity.tmux_session_id'' 32 TMUX_SESSION_ID_RE = Inr x"
      "nullablePatternString (field j ''pane_id'') ''identity.pane_id'' 32 PANE_ID_RE = Inr q"
      "i = \<lparr>thread_id = t, session_name = s, tmux_session_id = x, pane_id = q\<rparr>"
    using h unfolding identity_of_def none by (auto simp: in_object_iff andThen_Inr_iff)
  then show "identity_ok i"
    by (cases t; cases s; cases x; cases q) (simp_all add: identity_ok_def accepts)
qed

lemma worktree_sound: "worktree_of j = Inr w \<Longrightarrow> worktree_ok w"
  by (auto simp: worktree_of_def worktree_ok_def accepts)

lemma readiness_sound: "readiness_of j = Inr rd \<Longrightarrow> readiness_ok rd"
  by (auto simp: readiness_of_def readiness_ok_def accepts)

lemma safety_sound: "safety_of j = Inr sp \<Longrightarrow> safety_ok sp"
  by (auto simp: safety_of_def safety_ok_def accepts)

lemmas sections_sound = runtime_sound identity_sound worktree_sound readiness_sound safety_sound

lemma effect_sound: "effect_of n j = Inr e \<Longrightarrow> effect_ok e"
  by (auto simp: effect_of_def effect_ok_def accepts Let_def split: if_splits option.splits)

lemma action_sound: "action_of n j = Inr a \<Longrightarrow> action_ok a"
proof -
  have argv: "list_all (\<lambda>s. s = [] \<or> bounded 4096 s) ys \<and> length ys = length js"
    if "check_each (\<lambda>i arg. boundedString (Some arg) (g i) 4096 True) 0 js = Inr ys" for g js ys
    using check_each_iff [OF that] by (auto simp: accepts list_all_iff)
  assume "action_of n j = Inr a"
  then show "action_ok a"
    by (auto simp: action_of_def action_ok_def accepts Let_def dest!: argv split: option.splits json.splits if_splits)
qed

lemma str_or_null_simps [simp]:
  "str_or_null x = JNull \<longleftrightarrow> x = None"
  "str_or_null x = JStr s \<longleftrightarrow> x = Some s"
  by (cases x; simp)+

lemma sections_read_back:
  "runtime_ok rt \<Longrightarrow> runtime_of (runtime_json rt) = Inr rt"
  "worktree_ok w \<Longrightarrow> worktree_of (worktree_json w) = Inr w"
  "readiness_ok rd \<Longrightarrow> readiness_of (readiness_json rd) = Inr rd"
  "safety_ok sp \<Longrightarrow> safety_of (safety_json sp) = Inr sp"
  "mutation_ok m \<Longrightarrow> mutationRecord (Some (mutation_json m)) fld = Inr m"
  by (auto simp: runtime_of_def runtime_json_def runtime_ok_def worktree_of_def worktree_json_def worktree_ok_def
      readiness_of_def readiness_json_def readiness_ok_def safety_of_def safety_json_def safety_ok_def
      mutation_json_def accepts pred_option_def split: option.splits)

lemma nullable_read_back:
  "map_get m k = Some (str_or_null x) \<Longrightarrow> pred_option (bounded 256) x \<Longrightarrow> nullableId (JObj m) k = Inr x"
  "pred_option (token n pat) x \<Longrightarrow> nullablePatternString (Some (str_or_null x)) fld n pat = Inr x"
  by (cases x; simp add: accepts)+

lemma identity_read_back: "identity_ok i \<Longrightarrow> identity_of (identity_json i) = Inr i"
  by (simp add: identity_of_def identity_json_def identity_ok_def IDENTITY_KEYS_def nullable_read_back in_object_def)

lemma effect_read_back: "effect_ok e \<Longrightarrow> effect_of n (effect_json e) = Inr e"
  by (cases e; cases "ef_id e")
    (auto simp: effect_of_def effect_json_def effect_ok_def opt_key_def Let_def accepts pred_option_def split: option.splits)

lemma action_read_back: "action_ok a \<Longrightarrow> action_of n (action_json a) = Inr a"
proof -
  assume ok: "action_ok a"
  have argv: "check_each (\<lambda>i arg. boundedString (Some arg) (g i) 4096 True) 0 (map JStr (ac_argv a)) = Inr (ac_argv a)" for g
    using ok by (intro check_each_map) (auto simp: action_ok_def list_all_iff accepts)
  show ?thesis
    using ok by (cases "ac_cwd a") (auto simp: action_of_def action_json_def action_ok_def opt_key_def Let_def argv accepts)
qed

section \<open>The whole outcome\<close>

lemma validate_iff:
  "validateLaunchOutcome j = Inr oc \<longleftrightarrow>
     isObject j \<and> field j ''schema_version'' = Some (JStr LAUNCH_OUTCOME_SCHEMA_VERSION)
     \<and> schema_version oc = LAUNCH_OUTCOME_SCHEMA_VERSION
     \<and> enumValue (field j ''status'') ''status'' STATUSES = Inr (lo_status oc)
     \<and> patternString (field j ''reason_code'') ''reason_code'' 64 REASON_CODE_RE = Inr (reason_code oc)
     \<and> boundedString (field j ''summary'') ''summary'' 240 False = Inr (summary oc)
     \<and> mutationRecord (field j ''authoritative_mutation'') ''authoritative_mutation'' = Inr (authoritative_mutation oc)
     \<and> optional runtime_of (field j ''runtime'') = Inr (runtime oc)
     \<and> optional identity_of (field j ''identity'') = Inr (identity oc)
     \<and> optional worktree_of (field j ''worktree'') = Inr (worktree oc)
     \<and> optional readiness_of (field j ''readiness'') = Inr (readiness oc)
     \<and> optional safety_of (field j ''safety_profile'') = Inr (safety_profile oc)
     \<and> optional (\<lambda>p. mutationRecord (Some p) ''persistence'') (field j ''persistence'') = Inr (persistence oc)
     \<and> array_of ''side_effects'' 32 effect_of (field j ''side_effects'') = Inr (side_effects oc)
     \<and> array_of ''next_actions'' 16 action_of (field j ''next_actions'') = Inr (next_actions oc)"
proof -
  have version: "validateLaunchOutcome j = Inr oc \<longleftrightarrow> isObject j
      \<and> field j ''schema_version'' = Some (JStr LAUNCH_OUTCOME_SCHEMA_VERSION)
      \<and> validate_fields j LAUNCH_OUTCOME_SCHEMA_VERSION = Inr oc"
    by (auto simp: validateLaunchOutcome_def LAUNCH_OUTCOME_SCHEMA_VERSION_def split: option.splits json.splits)
  show ?thesis
    unfolding version validate_fields_def andThen_Inr_iff by (cases oc) auto
qed

lemma optional_sound: "optional f v = Inr x \<Longrightarrow> (\<And>j y. f j = Inr y \<Longrightarrow> P y) \<Longrightarrow> pred_option P x"
  by (auto simp: accepts split: option.splits)

lemma array_sound: "array_of fld n f v = Inr ys \<Longrightarrow> (\<And>k j y. f k j = Inr y \<Longrightarrow> P y) \<Longrightarrow> length ys \<le> n \<and> list_all P ys"
  by (auto simp: array_of_iff list_all_iff dest!: check_each_iff)

lemma validate_sound: "validateLaunchOutcome j = Inr oc \<Longrightarrow> outcome_ok oc"
proof -
  assume v: "validateLaunchOutcome j = Inr oc"
  note h = v [unfolded validate_iff]
  have "pred_option runtime_ok (runtime oc)" "pred_option identity_ok (identity oc)" "pred_option worktree_ok (worktree oc)"
      "pred_option readiness_ok (readiness oc)" "pred_option safety_ok (safety_profile oc)"
    using h by (blast intro: optional_sound sections_sound)+
  moreover have "pred_option mutation_ok (persistence oc)"
    using h by (auto simp: optional_iff mutationRecord_iff split: option.splits)
  moreover have "length (side_effects oc) \<le> 32 \<and> list_all effect_ok (side_effects oc)"
    by (rule array_sound [where f = effect_of]) (use h effect_sound in blast)+
  moreover have "length (next_actions oc) \<le> 16 \<and> list_all action_ok (next_actions oc)"
    by (rule array_sound [where f = action_of]) (use h action_sound in blast)+
  ultimately show ?thesis
    using h by (simp add: outcome_ok_def enumValue_iff patternString_iff boundedString_iff mutationRecord_iff)
qed

text \<open>What is read of a rendered outcome.\<close>

definition section_value :: "bool \<Rightarrow> ('a \<Rightarrow> json) \<Rightarrow> 'a option \<Rightarrow> json option" where
  "section_value nulls f x = (case x of Some y \<Rightarrow> Some (f y) | None \<Rightarrow> if nulls then Some JNull else None)"

lemma nullish_None [simp]: "nullish x None = x"
  by (cases x) simp_all

lemma map_get_section_key:
  "map_get (section_key nulls k f x @ m) k' =
     (if k = k' then nullish (section_value nulls f x) (map_get m k') else map_get m k')"
  by (auto simp: section_key_def section_value_def split: option.splits)

definition complete_outcome :: "launch_outcome \<Rightarrow> bool" where
  "complete_outcome oc \<longleftrightarrow> runtime oc \<noteq> None \<and> identity oc \<noteq> None \<and> worktree oc \<noteq> None \<and> readiness oc \<noteq> None
     \<and> safety_profile oc \<noteq> None \<and> persistence oc \<noteq> None"

lemma optional_read_back:
  "\<lbrakk>pred_option P x; \<And>y. P y \<Longrightarrow> g (f y) = Inr y; nulls \<longrightarrow> x \<noteq> None\<rbrakk>
   \<Longrightarrow> optional g (section_value nulls f x) = Inr x"
  by (auto simp: accepts section_value_def split: option.splits)

lemma array_read_back:
  "\<lbrakk>list_all P xs; length xs \<le> n; \<And>k x. P x \<Longrightarrow> f k (g x) = Inr x\<rbrakk> \<Longrightarrow> array_of fld n f (Some (JArr (map g xs))) = Inr xs"
  by (auto simp: array_of_iff list_all_iff intro: check_each_map)

lemma read_back:
  assumes "outcome_ok oc" and "nulls \<longrightarrow> complete_outcome oc"
  shows "validateLaunchOutcome (outcome_json nulls oc) = Inr oc"
proof -
  note ok = assms(1) [unfolded outcome_ok_def] and c = assms(2) [unfolded complete_outcome_def]
  have "optional runtime_of (field (outcome_json nulls oc) ''runtime'') = Inr (runtime oc)"
      "optional identity_of (field (outcome_json nulls oc) ''identity'') = Inr (identity oc)"
      "optional worktree_of (field (outcome_json nulls oc) ''worktree'') = Inr (worktree oc)"
      "optional readiness_of (field (outcome_json nulls oc) ''readiness'') = Inr (readiness oc)"
      "optional safety_of (field (outcome_json nulls oc) ''safety_profile'') = Inr (safety_profile oc)"
      "optional (\<lambda>p. mutationRecord (Some p) ''persistence'') (field (outcome_json nulls oc) ''persistence'') = Inr (persistence oc)"
    using ok c
    by (simp_all add: outcome_json_def map_get_section_key)
      (rule optional_read_back, blast, (erule sections_read_back identity_read_back), blast)+
  moreover have "array_of ''side_effects'' 32 effect_of (field (outcome_json nulls oc) ''side_effects'') = Inr (side_effects oc)"
      "array_of ''next_actions'' 16 action_of (field (outcome_json nulls oc) ''next_actions'') = Inr (next_actions oc)"
    using ok
    by (simp_all add: outcome_json_def map_get_section_key)
      (rule array_read_back, blast, blast, (erule effect_read_back action_read_back))+
  moreover have "mutationRecord (field (outcome_json nulls oc) ''authoritative_mutation'') ''authoritative_mutation''
      = Inr (authoritative_mutation oc)"
    using ok by (simp add: outcome_json_def map_get_section_key sections_read_back)
  ultimately show ?thesis
    using ok unfolding validate_iff
    by (simp add: outcome_json_def map_get_section_key enumValue_iff patternString_iff boundedString_iff)
qed

text \<open>The contracted keys, and a value cut down to them.\<close>

definition pick :: "string list \<Rightarrow> json \<Rightarrow> json" where
  "pick ks j = (case j of JObj m \<Rightarrow> JObj (filter (\<lambda>(k, _). k \<in> set ks) m) | _ \<Rightarrow> j)"

definition pick_each :: "string list \<Rightarrow> json \<Rightarrow> json" where
  "pick_each ks j = (case j of JArr js \<Rightarrow> JArr (map (pick ks) js) | _ \<Rightarrow> j)"

definition TOP_KEYS :: "string list" where
  "TOP_KEYS = [''schema_version'', ''status'', ''reason_code'', ''summary'', ''runtime'', ''identity'', ''worktree'',
     ''readiness'', ''safety_profile'', ''persistence'', ''authoritative_mutation'', ''side_effects'', ''next_actions'']"

definition redact_at :: "string \<Rightarrow> json \<Rightarrow> json" where
  "redact_at k j =
     (if k = ''runtime'' then pick [''name'', ''version''] j
      else if k = ''identity'' then pick IDENTITY_KEYS j
      else if k = ''worktree'' then pick [''path'', ''branch'', ''owner''] j
      else if k = ''readiness'' then pick [''status'', ''source''] j
      else if k = ''safety_profile'' then pick [''name'', ''sandbox'', ''approvals'', ''hook_trust''] j
      else if k = ''persistence'' \<or> k = ''authoritative_mutation'' then pick [''completed'', ''kind''] j
      else if k = ''side_effects'' then pick_each [''kind'', ''status'', ''id''] j
      else if k = ''next_actions'' then pick_each [''kind'', ''required'', ''argv'', ''display'', ''why'', ''cwd''] j
      else j)"

definition redact :: "json \<Rightarrow> json" where
  "redact j = (case pick TOP_KEYS j of JObj m \<Rightarrow> JObj (map (\<lambda>(k, v). (k, redact_at k v)) m) | j' \<Rightarrow> j')"

lemma map_get_filter: "map_get (filter (\<lambda>(k, _). P k) m) x = (if P x then map_get m x else None)"
  by (induction m) (auto split: if_splits)

lemma map_get_map: "map_get (map (\<lambda>(k, v). (k, f k v)) m) x = map_option (f x) (map_get m x)"
  by (induction m) auto

lemma field_pick [simp]: "field (pick ks j) k = (if k \<in> set ks then field j k else None)"
  by (cases j) (simp_all add: pick_def field_def map_get_filter)

lemma isObject_pick [simp]: "isObject (pick ks j) = isObject j"
  by (cases j) (simp_all add: pick_def)

lemma field_redact: "field (redact j) k = (if k \<in> set TOP_KEYS then map_option (redact_at k) (field j k) else None)"
  by (cases j) (simp_all add: redact_def pick_def field_def map_get_map map_get_filter)

lemma isObject_redact: "isObject (redact j) = isObject j"
  by (cases j) (simp_all add: redact_def pick_def)

lemma redacted_sections:
  "runtime_of (pick [''name'', ''version''] j) = runtime_of j"
  "identity_of (pick IDENTITY_KEYS j) = identity_of j"
  "worktree_of (pick [''path'', ''branch'', ''owner''] j) = worktree_of j"
  "readiness_of (pick [''status'', ''source''] j) = readiness_of j"
  "safety_of (pick [''name'', ''sandbox'', ''approvals'', ''hook_trust''] j) = safety_of j"
  "effect_of n (pick [''kind'', ''status'', ''id''] j) = effect_of n j"
  by (simp_all add: runtime_of_def identity_of_def worktree_of_def readiness_of_def safety_of_def effect_of_def
      in_object_def nullableId_def IDENTITY_KEYS_def Let_def cong: option.case_cong json.case_cong)

lemma redacted_action: "action_of n (pick [''kind'', ''required'', ''argv'', ''display'', ''why'', ''cwd''] j) = action_of n j"
  (is "action_of n ?j = _")
proof -
  have "field ?j ''kind'' = field j ''kind''" "field ?j ''required'' = field j ''required''" "field ?j ''argv'' = field j ''argv''"
      "field ?j ''display'' = field j ''display''" "field ?j ''why'' = field j ''why''" "field ?j ''cwd'' = field j ''cwd''"
    by simp_all
  then show ?thesis unfolding action_of_def in_object_def isObject_pick by (simp only:)
qed

lemma redacted_mutation: "mutationRecord (map_option (pick [''completed'', ''kind'']) v) fld = mutationRecord v fld"
  by (cases v; cases "the v") (simp_all add: mutationRecord_def pick_def map_get_filter cong: option.case_cong json.case_cong)

lemma redacted_array:
  assumes "\<And>n j. f n (pick ks j) = f n j"
  shows "array_of fld n f (map_option (pick_each ks) v) = array_of fld n f v"
proof -
  have "check_each f k (map (pick ks) js) = check_each f k js" for k js
    by (induction js arbitrary: k) (simp_all add: assms)
  then show ?thesis by (cases v; cases "the v") (simp_all add: array_of_def pick_each_def)
qed

lemma redact_at_keys:
  "redact_at ''schema_version'' = id" "redact_at ''status'' = id" "redact_at ''reason_code'' = id" "redact_at ''summary'' = id"
  "redact_at ''runtime'' = pick [''name'', ''version'']" "redact_at ''identity'' = pick IDENTITY_KEYS"
  "redact_at ''worktree'' = pick [''path'', ''branch'', ''owner'']" "redact_at ''readiness'' = pick [''status'', ''source'']"
  "redact_at ''safety_profile'' = pick [''name'', ''sandbox'', ''approvals'', ''hook_trust'']"
  "redact_at ''persistence'' = pick [''completed'', ''kind'']" "redact_at ''authoritative_mutation'' = pick [''completed'', ''kind'']"
  "redact_at ''side_effects'' = pick_each [''kind'', ''status'', ''id'']"
  "redact_at ''next_actions'' = pick_each [''kind'', ''required'', ''argv'', ''display'', ''why'', ''cwd'']"
  by (rule ext, simp add: redact_at_def)+

lemma redacted_optional: "(\<And>j. f (g j) = f j) \<Longrightarrow> optional f (map_option g v) = optional f v"
  by (cases v) (simp_all add: optional_def)

text \<open>The first absent section, in the order they are read.\<close>

definition absent_sections :: "launch_outcome \<Rightarrow> string list" where
  "absent_sections oc = map fst (filter snd
     [(''runtime'', runtime oc = None), (''identity'', identity oc = None), (''worktree'', worktree oc = None),
      (''readiness'', readiness oc = None), (''safety_profile'', safety_profile oc = None), (''persistence'', persistence oc = None)])"

lemma optional_null:
  "\<lbrakk>pred_option P x; \<And>y. P y \<Longrightarrow> g (f y) = Inr y; g JNull = bad m\<rbrakk>
   \<Longrightarrow> optional g (section_value True f x) = (if x = None then bad m else Inr x)"
  by (cases x) (simp_all add: optional_def section_value_def)

lemma null_sections:
  "runtime_of JNull = bad ''runtime must be an object''" "identity_of JNull = bad ''identity must be an object''"
  "worktree_of JNull = bad ''worktree must be an object''" "readiness_of JNull = bad ''readiness must be an object''"
  "safety_of JNull = bad ''safety_profile must be an object''"
  "mutationRecord (Some JNull) ''persistence'' = bad ''persistence must be an object''"
  by (simp_all add: runtime_of_def identity_of_def worktree_of_def readiness_of_def safety_of_def in_object_def mutationRecord_def)

lemma incomplete_refused:
  assumes "outcome_ok oc" and "\<not> complete_outcome oc"
  shows "validateLaunchOutcome (outcome_json True oc) = bad (hd (absent_sections oc) @ '' must be an object'')"
proof -
  note ok = assms(1) [unfolded outcome_ok_def]
  let ?j = "outcome_json True oc"
  have "optional runtime_of (field ?j ''runtime'') = (if runtime oc = None then bad ''runtime must be an object'' else Inr (runtime oc))"
      "optional identity_of (field ?j ''identity'') = (if identity oc = None then bad ''identity must be an object'' else Inr (identity oc))"
      "optional worktree_of (field ?j ''worktree'') = (if worktree oc = None then bad ''worktree must be an object'' else Inr (worktree oc))"
      "optional readiness_of (field ?j ''readiness'') = (if readiness oc = None then bad ''readiness must be an object'' else Inr (readiness oc))"
      "optional safety_of (field ?j ''safety_profile'') = (if safety_profile oc = None then bad ''safety_profile must be an object'' else Inr (safety_profile oc))"
      "optional (\<lambda>p. mutationRecord (Some p) ''persistence'') (field ?j ''persistence'')
         = (if persistence oc = None then bad ''persistence must be an object'' else Inr (persistence oc))"
    using ok
    by (simp_all only: outcome_json_def field_JObj map_get_section_key append.simps map_get.simps list.inject char.inject simp_thms if_False if_True nullish_None)
      (rule optional_null, blast, (erule sections_read_back identity_read_back), rule null_sections)+
  moreover have "enumValue (field ?j ''status'') ''status'' STATUSES = Inr (lo_status oc)"
      "patternString (field ?j ''reason_code'') ''reason_code'' 64 REASON_CODE_RE = Inr (reason_code oc)"
      "boundedString (field ?j ''summary'') ''summary'' 240 False = Inr (summary oc)"
      "mutationRecord (field ?j ''authoritative_mutation'') ''authoritative_mutation'' = Inr (authoritative_mutation oc)"
    using ok by (simp_all add: outcome_json_def map_get_section_key sections_read_back enumValue_iff patternString_iff boundedString_iff)
  moreover have "isObject ?j" "field ?j ''schema_version'' = Some (JStr LAUNCH_OUTCOME_SCHEMA_VERSION)"
    using ok by (simp_all add: outcome_json_def)
  ultimately show ?thesis
    using assms(2)
    by (simp add: validateLaunchOutcome_def validate_fields_def complete_outcome_def absent_sections_def
        LAUNCH_OUTCOME_SCHEMA_VERSION_def) auto
qed

section \<open>Properties\<close>

text \<open>C15. The validator gives exactly the outcomes of the contract: whatever it accepts has
  every status, token, text, identifier and list within its vocabulary, pattern and length,
  without control characters, and every such outcome is given for some input.\<close>

theorem outcome_contract: "(\<exists>j. validateLaunchOutcome j = Inr oc) = outcome_ok oc"
  using validate_sound read_back [of oc False] by auto

text \<open>Nothing outside the contract reaches a consumer: the outcome, or the refusal with its
  message, is the same when every key the contract does not name, at the top or inside a
  section, an effect or an action, is removed from the input.\<close>

theorem outcome_redaction: "validateLaunchOutcome (redact j) = validateLaunchOutcome j"
proof -
  have "validate_fields (redact j) v = validate_fields j v" for v
    unfolding validate_fields_def
    by (simp add: field_redact TOP_KEYS_def redact_at_keys redacted_sections redacted_action redacted_mutation redacted_array
        redacted_optional redacted_mutation [of "Some p" for p, simplified] option.map_id)
  note fields = this
  have "field (redact j) ''schema_version'' = field j ''schema_version''"
    by (simp add: field_redact TOP_KEYS_def redact_at_keys option.map_id)
  then show ?thesis unfolding validateLaunchOutcome_def isObject_redact fields by (simp only:)
qed

text \<open>What is projected from a validated outcome validates to that same outcome when every
  section is present; when one is absent the projection writes it as null, and the validator
  refuses the projection, naming the first such section.\<close>

theorem projection_reread:
  assumes "validateLaunchOutcome j = Inr oc"
  shows "validateLaunchOutcome (projectLaunchOutcome oc) =
    (if absent_sections oc = [] then Inr oc
     else Inl (Invalid_outcome, hd (absent_sections oc) @ '' must be an object''))"
proof -
  have "absent_sections oc = [] \<longleftrightarrow> complete_outcome oc"
    by (simp add: absent_sections_def complete_outcome_def)
  then show ?thesis
    using validate_sound [OF assms] read_back [of oc True] incomplete_refused [of oc]
    by (simp add: projectLaunchOutcome_def)
qed

definition demo_outcome :: json where
  "demo_outcome = JObj [(''schema_version'', JStr LAUNCH_OUTCOME_SCHEMA_VERSION), (''status'', JStr ''ok''),
     (''reason_code'', JStr ''ready''), (''summary'', JStr ''s''), (''secret'', JStr ''x''),
     (''authoritative_mutation'', JObj [(''completed'', JBool True), (''kind'', JStr ''spawn'')]),
     (''side_effects'', JArr []), (''next_actions'', JArr [])]"

theorem projection_reread_witness:
  "\<exists>oc. validateLaunchOutcome demo_outcome = Inr oc
     \<and> validateLaunchOutcome (projectLaunchOutcome oc) = Inl (Invalid_outcome, ''runtime must be an object'')"
proof -
  let ?oc = "\<lparr>schema_version = LAUNCH_OUTCOME_SCHEMA_VERSION, lo_status = ''ok'', reason_code = ''ready'', summary = ''s'',
    runtime = None, identity = None, worktree = None, readiness = None, safety_profile = None, persistence = None,
    authoritative_mutation = \<lparr>mu_completed = True, mu_kind = ''spawn''\<rparr>, side_effects = [], next_actions = []\<rparr>"
  have v: "validateLaunchOutcome demo_outcome = Inr ?oc" by code_simp
  then show ?thesis using projection_reread [OF v] by (simp add: absent_sections_def)
qed

end
