(* ===== verification/Node_Dispatch.thy ===== *)
theory Node_Dispatch imports Epic_Lifecycle begin

text \<open>
  The orchestration core of \<open>src/specialist/node-supervisor.ts\<close>: the state of a node, the
  queue of actions for its members and their lifecycle, the drain of the queue, the polling
  of members, the acknowledgement of actions, the recovery from the persisted events, the
  watchdog. The drain is cut at its one await, the call to a member's job: \<open>in_flight\<close> is
  the action whose call has not returned. A store write that fails is \<open>store_up\<close> being false.

  Actions are built with their properties in one order, so the key of an action is the
  action without its id. Jobs, their outputs, hashes and context usage are parameters.
\<close>

section \<open>Constants\<close>

definition BASE_POLL_INTERVAL_MS :: int where "BASE_POLL_INTERVAL_MS = 5000"
definition MIN_POLL_INTERVAL_MS :: int where "MIN_POLL_INTERVAL_MS = 1000"
definition MAX_POLL_INTERVAL_MS :: int where "MAX_POLL_INTERVAL_MS = 15000"
definition MAX_QUEUED_ACTIONS_PER_MEMBER :: nat where "MAX_QUEUED_ACTIONS_PER_MEMBER = 5"
definition NO_PROGRESS_WATCHDOG_MS :: int where "NO_PROGRESS_WATCHDOG_MS = 120000"

definition TERMINAL_NODE_STATUSES :: "node_state list" where
  "TERMINAL_NODE_STATUSES = [Error_node, Done_node, Stopped, Failed_node, Awaiting_merge]"

section \<open>State\<close>

record dispatch_action =
  a_type :: string
  a_member :: string
  a_task :: "string option"
  a_message :: "string option"
  a_id :: "string option"
  a_generation :: "int option"
  a_depends :: "string option"

record envelope =
  env_id :: string
  env_generation :: int
  env_depends :: "string option"
  env_action :: dispatch_action

record node_member =
  m_job :: "string option"
  m_status :: string
  m_enabled :: bool
  m_hash :: "string option"
  m_generation :: int

record member_change =
  ch_member :: string
  ch_prev :: string
  ch_new :: string
  ch_output :: "string option"

record node_event =
  ne_t :: int
  ne_type :: string
  ne_json :: json_text

text \<open>The row of the node in the store, replaced by each transition (the fields a transition sets).\<close>

record node_row =
  nr_status :: node_state
  nr_coordinator :: "string option"
  nr_started_at :: int
  nr_updated_at :: int
  nr_error :: "string option"
  nr_previous :: node_state
  nr_reason :: "string option"

text \<open>What is asked of a member's job.\<close>

datatype member_call = Resume_job string string | Steer_job string string | Stop_job string

record node =
  node_id :: string
  n_status :: node_state
  coordinator_job :: "string option"
  node_members :: "(string, node_member) js_map"
  controllers :: "string list"
  dispatchQueue :: "envelope list"
  queuedActionKeys :: "dispatch_action set"
  actionLifecycle :: "(string, string) js_map"
  completedActionIds :: "string set"
  memberPendingAction :: "(string, string) js_map"
  actionById :: "(string, envelope) js_map"
  nextActionSequence :: nat
  isDraining :: bool
  resumePending :: bool
  outputHash :: "string option"
  pollSequence :: nat
  lastActivityAtMs :: int
  lastCoordinatorOutputAtMs :: int
  lastCompletedActionAtMs :: int
  lastMemberTransitionAtMs :: int
  in_flight :: "envelope option"
  calls :: "(string \<times> member_call) list"
  node_events :: "node_event list"
  node_row :: "node_row option"
  store_up :: bool

text \<open>The entries of the constructor; a later one of the same id replaces an earlier.\<close>

definition initial_members :: "string list \<Rightarrow> (string, node_member) js_map" where
  "initial_members ids = fold (\<lambda>i ms. map_set ms i \<lparr>m_job = None, m_status = ''created'', m_enabled = True, m_hash = None, m_generation = 0\<rparr>) ids []"

definition new_node :: "string \<Rightarrow> (string, node_member) js_map \<Rightarrow> int \<Rightarrow> node" where
  "new_node nid ms now = \<lparr>node_id = nid, n_status = Created, coordinator_job = None, node_members = ms, controllers = [],
     dispatchQueue = [], queuedActionKeys = {}, actionLifecycle = [], completedActionIds = {}, memberPendingAction = [],
     actionById = [], nextActionSequence = 0, isDraining = False, resumePending = False, outputHash = None, pollSequence = 0,
     lastActivityAtMs = now, lastCoordinatorOutputAtMs = now, lastCompletedActionAtMs = now, lastMemberTransitionAtMs = now,
     in_flight = None, calls = [], node_events = [], node_row = None, store_up = True\<rparr>"

section \<open>Health\<close>

datatype context_health = Health_OK | MONITOR | WARN | CRITICAL | UNKNOWN

definition toContextHealth :: "int option \<Rightarrow> context_health" where
  "toContextHealth pct = (case pct of
     None \<Rightarrow> UNKNOWN
   | Some p \<Rightarrow> if p < 60 then Health_OK else if p \<le> 75 then MONITOR else if p \<le> 90 then WARN else CRITICAL)"

fun unhealthy :: "(string \<Rightarrow> int option) \<Rightarrow> node_member list \<Rightarrow> bool" where
  "unhealthy usage [] = False"
| "unhealthy usage (m # ms) =
     (if \<not> m_enabled m then unhealthy usage ms
      else if m_status m = ''error'' then True
      else if toContextHealth (if truthy (m_job m) then usage (the (m_job m)) else None) = CRITICAL then True
      else unhealthy usage ms)"

definition recomputeNodeHealth :: "(string \<Rightarrow> int option) \<Rightarrow> node \<Rightarrow> node_state" where
  "recomputeNodeHealth usage n = (if unhealthy usage (map_values (node_members n)) then Degraded else Running_node)"

definition isRecoveryResumeAllowed :: "(string \<Rightarrow> int option) \<Rightarrow> node \<Rightarrow> node_member \<Rightarrow> bool" where
  "isRecoveryResumeAllowed usage n m =
     (if n_status n \<noteq> Degraded then True
      else if \<not> m_enabled m \<or> m_status m \<noteq> ''waiting'' then False
      else if \<not> truthy (m_job m) then False
      else toContextHealth (usage (the (m_job m))) \<noteq> CRITICAL)"

section \<open>Events\<close>

definition persistNodeEvent :: "int \<Rightarrow> string \<Rightarrow> (string \<times> json) list \<Rightarrow> node \<Rightarrow> node" where
  "persistNodeEvent now ty obj n =
     (if store_up n then n\<lparr>node_events := node_events n @ [\<lparr>ne_t = now, ne_type = ty, ne_json = Text (JObj obj)\<rparr>]\<rparr> else n)"

definition transition :: "int \<Rightarrow> node_state \<Rightarrow> string option \<Rightarrow> node \<Rightarrow> (epic_error + unit) \<times> node" where
  "transition now t reason n =
     (case validateTransition (n_status n) t of
        Inl e \<Rightarrow> (Inl e, n)
      | Inr _ \<Rightarrow>
          let row = \<lparr>nr_status = t, nr_coordinator = coordinator_job n, nr_started_at = now, nr_updated_at = now,
                nr_error = (if t = Error_node then reason else None), nr_previous = n_status n, nr_reason = reason\<rparr>;
              n1 = persistNodeEvent now ''node_state_changed''
                ([(''node_id'', JStr (node_id n)), (''previous_status'', JStr (node_state_text (n_status n))),
                  (''status'', JStr (node_state_text t))] @ opt_key ''reason'' (map_option JStr reason))
                (n\<lparr>n_status := t, node_row := (if store_up n then Some row else node_row n)\<rparr>);
              obj = (''node_id'', JStr (node_id n)) # opt_key ''reason'' (map_option JStr reason)
          in (Inr (),
              if t = Waiting_node then persistNodeEvent (now + 1) ''node_waiting'' obj n1
              else if t = Done_node then persistNodeEvent (now + 1) ''node_done'' obj n1
              else if t = Error_node then persistNodeEvent (now + 1) ''node_error'' obj n1
              else if t = Stopped then persistNodeEvent (now + 1) ''node_stopped'' obj n1
              else n1))"

definition null_or :: "('a \<Rightarrow> json) \<Rightarrow> 'a option \<Rightarrow> json" where
  "null_or f x = (case x of Some y \<Rightarrow> f y | None \<Rightarrow> JNull)"

definition lifecycle_entries :: "node \<Rightarrow> envelope \<Rightarrow> (string \<times> json) list" where
  "lifecycle_entries n env =
     [(''node_id'', JStr (node_id n)), (''action_id'', JStr (env_id env)), (''member_id'', JStr (a_member (env_action env))),
      (''action_type'', JStr (a_type (env_action env))), (''target_generation'', JNum (env_generation env)),
      (''depends_on_action_id'', null_or JStr (env_depends env))]"

definition appendActionLifecycleEvent :: "int \<Rightarrow> envelope \<Rightarrow> string \<Rightarrow> (string \<times> json) list \<Rightarrow> node \<Rightarrow> node" where
  "appendActionLifecycleEvent now env state extra n =
     persistNodeEvent now (''action_'' @ state) (set_all (lifecycle_entries n env) extra)
       (n\<lparr>actionLifecycle := map_set (actionLifecycle n) (env_id env) state,
          lastCompletedActionAtMs := (if state = ''completed'' then now else lastCompletedActionAtMs n)\<rparr>)"

section \<open>Pending actions\<close>

definition getMemberPendingActionKey :: "string \<Rightarrow> int \<Rightarrow> string" where
  "getMemberPendingActionKey mid g = mid @ '':'' @ show_int g"

definition getMemberPendingActionForGeneration :: "node \<Rightarrow> string \<Rightarrow> int \<Rightarrow> string option" where
  "getMemberPendingActionForGeneration n mid g = map_get (memberPendingAction n) (getMemberPendingActionKey mid g)"

definition setMemberPendingActionForGeneration :: "string \<Rightarrow> int \<Rightarrow> string \<Rightarrow> node \<Rightarrow> node" where
  "setMemberPendingActionForGeneration mid g i n =
     n\<lparr>memberPendingAction := map_set (memberPendingAction n) (getMemberPendingActionKey mid g) i\<rparr>"

definition clearMemberPendingActionForGeneration :: "string \<Rightarrow> int \<Rightarrow> node \<Rightarrow> node" where
  "clearMemberPendingActionForGeneration mid g n =
     n\<lparr>memberPendingAction := map_delete (memberPendingAction n) (getMemberPendingActionKey mid g)\<rparr>"

definition maybeAcknowledgeMemberAction :: "int \<Rightarrow> string \<Rightarrow> node \<Rightarrow> node" where
  "maybeAcknowledgeMemberAction now mid n =
     (case map_get (node_members n) mid of
        None \<Rightarrow> n
      | Some m \<Rightarrow>
          let pending = getMemberPendingActionForGeneration n mid (m_generation m) in
          if \<not> truthy pending then n
          else
            let i = the pending in
            (case map_get (actionById n) i of
               None \<Rightarrow> n
             | Some env \<Rightarrow>
                 if map_get (actionLifecycle n) i = Some ''written'' then
                   let n1 = appendActionLifecycleEvent now env ''completed'' [] (appendActionLifecycleEvent now env ''observed'' [] n)
                   in clearMemberPendingActionForGeneration mid (m_generation m)
                        (n1\<lparr>completedActionIds := insert i (completedActionIds n1)\<rparr>)
                 else n))"

section \<open>The dispatch queue\<close>

definition getActionKey :: "dispatch_action \<Rightarrow> dispatch_action" where
  "getActionKey a = a\<lparr>a_id := None\<rparr>"

definition nextActionId :: "int \<Rightarrow> node \<Rightarrow> string \<times> node" where
  "nextActionId now n =
     (let k = nextActionSequence n + 1 in
      (node_id n @ '':'' @ show_int now @ '':'' @ show_nat k, n\<lparr>nextActionSequence := k\<rparr>))"

definition action_json_of :: "dispatch_action \<Rightarrow> json" where
  "action_json_of a = JObj ([(''type'', JStr (a_type a)), (''memberId'', JStr (a_member a))]
     @ opt_key ''task'' (map_option JStr (a_task a)) @ opt_key ''message'' (map_option JStr (a_message a))
     @ opt_key ''actionId'' (map_option JStr (a_id a)) @ opt_key ''targetGeneration'' (map_option JNum (a_generation a))
     @ opt_key ''dependsOnActionId'' (map_option JStr (a_depends a)))"

definition drop_action :: "int \<Rightarrow> dispatch_action \<Rightarrow> string \<Rightarrow> (string \<times> json) list \<Rightarrow> int option \<Rightarrow> node \<Rightarrow> node" where
  "drop_action now a reason extra g n =
     persistNodeEvent now ''action_dropped''
       ([(''node_id'', JStr (node_id n)), (''member_id'', JStr (a_member a)), (''action_type'', JStr (a_type a)),
         (''reason'', JStr reason)] @ extra @ [(''target_generation'', null_or JNum g)]) n"

text \<open>\<open>dispatchAction\<close> up to the push: the envelope queued, or none when the action is dropped.\<close>

definition enqueue :: "int \<Rightarrow> (string \<Rightarrow> int option) \<Rightarrow> dispatch_action \<Rightarrow> node \<Rightarrow> envelope option \<times> node" where
  "enqueue now usage act n =
     (let member = map_get (node_members n) (a_member act) in
      if a_type act = ''resume'' \<and> (case member of None \<Rightarrow> True | Some m \<Rightarrow> \<not> isRecoveryResumeAllowed usage n m)
      then (None, drop_action now act ''resume_not_allowed''
             [(''member_status'', null_or JStr (map_option m_status member)),
              (''member_enabled'', null_or JBool (map_option m_enabled member))] (a_generation act) n)
      else
        let queued = length (filter (\<lambda>q. a_member (env_action q) = a_member act) (dispatchQueue n)) in
        if MAX_QUEUED_ACTIONS_PER_MEMBER \<le> queued
        then (None, drop_action now act ''member_queue_full''
               [(''queued_for_member'', JNum (int queued)), (''queue_limit'', JNum (int MAX_QUEUED_ACTIONS_PER_MEMBER))]
               (a_generation act) n)
        else
          let (i, n1) = (case a_id act of Some i \<Rightarrow> (i, n) | None \<Rightarrow> nextActionId now n);
              g = (case a_generation act of Some g \<Rightarrow> g | None \<Rightarrow> (case member of Some m \<Rightarrow> m_generation m | None \<Rightarrow> 0));
              env = \<lparr>env_id = i, env_generation = g, env_depends = a_depends act,
                     env_action = act\<lparr>a_id := Some i, a_generation := Some g\<rparr>\<rparr>;
              key = getActionKey (env_action env)
          in if key \<in> queuedActionKeys n1 then (None, drop_action now act ''duplicate_action'' [] (Some g) n1)
             else (Some env,
               appendActionLifecycleEvent now env ''queued'' [(''action'', action_json_of (env_action env))]
                 (n1\<lparr>dispatchQueue := dispatchQueue n1 @ [env], actionById := map_set (actionById n1) i env,
                     queuedActionKeys := insert key (queuedActionKeys n1)\<rparr>)))"

text \<open>The checks of the drain on the action at the head: refused, with the state and reason it
  is given, or to be sent to the member's job.\<close>

datatype drain_verdict = Refused string "(string \<times> json) list" | Send string

definition drain_check :: "node \<Rightarrow> envelope \<Rightarrow> drain_verdict" where
  "drain_check n env =
     (let mid = a_member (env_action env); member = map_get (node_members n) mid in
      case member of
        None \<Rightarrow> Refused ''failed'' [(''reason'', JStr ''missing_controller_or_job'')]
      | Some m \<Rightarrow>
          if mid \<notin> set (controllers n) \<or> \<not> truthy (m_job m)
          then Refused ''failed'' [(''reason'', JStr ''missing_controller_or_job'')]
          else if m_generation m \<noteq> env_generation env
          then Refused ''superseded'' [(''reason'', JStr ''member_generation_mismatch''), (''observed_generation'', JNum (m_generation m))]
          else if truthy (env_depends env) \<and> the (env_depends env) \<notin> completedActionIds n
          then Refused ''failed'' [(''reason'', JStr ''dependency_not_completed''), (''dependency_action_id'', JStr (the (env_depends env)))]
          else
            let pending = getMemberPendingActionForGeneration n mid (m_generation m) in
            if truthy pending \<and> the pending \<notin> completedActionIds n
            then Refused ''failed'' [(''reason'', JStr ''member_has_pending_action''), (''pending_action_id'', JStr (the pending))]
            else Send (the (m_job m)))"

definition call_of :: "dispatch_action \<Rightarrow> string \<Rightarrow> member_call" where
  "call_of a job =
     (if a_type a = ''resume'' then Resume_job job (case a_task a of Some t \<Rightarrow> t | None \<Rightarrow> ''Continue.'')
      else if a_type a = ''steer'' then Steer_job job (case a_message a of Some t \<Rightarrow> t | None \<Rightarrow> [])
      else Stop_job job)"

text \<open>The loop of the drain, from its test to the next call or the end of the queue.\<close>

fun drain_from :: "int \<Rightarrow> envelope list \<Rightarrow> node \<Rightarrow> node" where
  "drain_from now [] n = n\<lparr>dispatchQueue := [], isDraining := False\<rparr>"
| "drain_from now (env # rest) n =
     (case drain_check n env of
        Refused state extra \<Rightarrow>
          let n1 = appendActionLifecycleEvent now env state extra n in
          drain_from now rest (n1\<lparr>queuedActionKeys := queuedActionKeys n1 - {getActionKey (env_action env)}\<rparr>)
      | Send job \<Rightarrow>
          n\<lparr>dispatchQueue := rest, in_flight := Some env, calls := calls n @ [(env_id env, call_of (env_action env) job)]\<rparr>)"

definition drainDispatchQueue :: "int \<Rightarrow> node \<Rightarrow> node" where
  "drainDispatchQueue now n = (if isDraining n then n else drain_from now (dispatchQueue n) (n\<lparr>isDraining := True\<rparr>))"

text \<open>\<open>dispatchAction\<close> up to its await: what it will return, and the node.\<close>

definition dispatch_begin :: "int \<Rightarrow> (string \<Rightarrow> int option) \<Rightarrow> dispatch_action \<Rightarrow> node \<Rightarrow> envelope option \<times> node" where
  "dispatch_begin now usage act n =
     (case enqueue now usage act n of
        (None, n1) \<Rightarrow> (None, n1)
      | (Some env, n1) \<Rightarrow> (Some env, drainDispatchQueue now n1))"

text \<open>Its \<open>finally\<close>.\<close>

definition dispatch_end :: "envelope \<Rightarrow> node \<Rightarrow> node" where
  "dispatch_end env n =
     (case map_get (actionLifecycle n) (env_id env) of
        Some st \<Rightarrow> if st = ''failed'' \<or> st = ''completed'' \<or> st = ''superseded''
          then n\<lparr>queuedActionKeys := queuedActionKeys n - {getActionKey (env_action env)}\<rparr> else n
      | None \<Rightarrow> n)"

text \<open>The call of the drain returns, or throws with a message.\<close>

definition call_returned :: "int \<Rightarrow> string + unit \<Rightarrow> node \<Rightarrow> node" where
  "call_returned now result n =
     (case in_flight n of
        None \<Rightarrow> n
      | Some env \<Rightarrow>
          let n1 = (case result of
                Inr _ \<Rightarrow> appendActionLifecycleEvent now env ''written'' []
                  (setMemberPendingActionForGeneration (a_member (env_action env)) (env_generation env) (env_id env) n)
              | Inl msg \<Rightarrow> appendActionLifecycleEvent now env ''failed'' [(''reason'', JStr msg)] n)
          in drain_from now (dispatchQueue n1)
               (n1\<lparr>queuedActionKeys := queuedActionKeys n1 - {getActionKey (env_action env)}, in_flight := None\<rparr>))"

section \<open>Polling the members\<close>

record member_row =
  row_member :: string
  row_job :: "string option"
  row_generation :: "int option"

text \<open>What the store and the jobs answer.\<close>

record job_reader =
  readStatus :: "string \<Rightarrow> string option"
  readResult_of :: "string \<Rightarrow> string option"
  sha256 :: "string \<Rightarrow> string"

definition hashOutput :: "(string \<Rightarrow> string) \<Rightarrow> string option \<Rightarrow> string \<Rightarrow> string option" where
  "hashOutput h out salt =
     (if \<not> truthy out then None
      else Some (h (if salt \<noteq> [] then salt @ '':'' @ the out else the out)))"

text \<open>One row: the member takes its generation and job, then its status and output are compared.\<close>

definition rebind :: "int \<Rightarrow> member_row \<Rightarrow> int \<Rightarrow> node_member \<Rightarrow> node \<Rightarrow> node_member \<times> node" where
  "rebind now row g m n =
     (let mid = row_member row; rebound = truthy (row_job row) \<and> row_job row \<noteq> m_job m;
          m1 = m\<lparr>m_generation := g, m_job := (if rebound then row_job row else m_job m)\<rparr>;
          n1 = n\<lparr>node_members := map_set (node_members n) mid m1\<rparr>
      in (m1, if rebound then persistNodeEvent now ''member_job_rebound''
                [(''node_id'', JStr (node_id n)), (''member_id'', JStr mid), (''previous_job_id'', null_or JStr (m_job m)),
                 (''job_id'', null_or JStr (m_job m1)), (''generation'', JNum g)] n1 else n1))"

definition observe :: "int \<Rightarrow> job_reader \<Rightarrow> string \<Rightarrow> node_member \<Rightarrow> member_change list \<Rightarrow> node \<Rightarrow> member_change list \<times> node" where
  "observe now rd mid m changes n =
     (case readStatus rd (the (m_job m)) of
        None \<Rightarrow> (changes, n)
      | Some st \<Rightarrow>
          let out = (if mid \<in> set (controllers n) then readResult_of rd (the (m_job m)) else None);
              h = hashOutput (sha256 rd) out (show_int (m_generation m))
          in if m_status m = st \<and> m_hash m = h then (changes, n)
             else (changes @ [\<lparr>ch_member = mid, ch_prev = m_status m, ch_new = st, ch_output = out\<rparr>],
                   maybeAcknowledgeMemberAction now mid
                     (n\<lparr>node_members := map_set (node_members n) mid (m\<lparr>m_status := st, m_hash := h\<rparr>)\<rparr>)))"

definition poll_row :: "int \<Rightarrow> job_reader \<Rightarrow> member_row \<Rightarrow> member_change list \<times> node \<Rightarrow> member_change list \<times> node" where
  "poll_row now rd row acc =
     (let (changes, n) = acc in
      case map_get (node_members n) (row_member row) of
        None \<Rightarrow> (changes, n)
      | Some m \<Rightarrow>
          let g = (case row_generation row of Some g \<Rightarrow> g | None \<Rightarrow> 0) in
          if \<not> m_enabled m then (changes, n)
          else if g < m_generation m then (changes, n)
          else let (m1, n1) = rebind now row g m n in
               if \<not> truthy (m_job m1) then (changes, n1) else observe now rd (row_member row) m1 changes n1)"

definition pollMemberStatuses :: "int \<Rightarrow> job_reader \<Rightarrow> member_row list \<Rightarrow> node \<Rightarrow> member_change list \<times> node" where
  "pollMemberStatuses now rd rows n = fold (poll_row now rd) rows ([], n\<lparr>pollSequence := pollSequence n + 1\<rparr>)"

section \<open>Pace and watchdog\<close>

definition getNextPollIntervalMs :: "int \<Rightarrow> nat \<Rightarrow> node \<Rightarrow> int \<times> node" where
  "getNextPollIntervalMs now changesCount n =
     (let n1 = (if 0 < changesCount \<or> 0 < length (dispatchQueue n) then n\<lparr>lastActivityAtMs := now\<rparr> else n);
          idle = now - lastActivityAtMs n1 in
      (if n_status n1 = Degraded then max MIN_POLL_INTERVAL_MS (BASE_POLL_INTERVAL_MS div 2)
       else if 30000 < idle then MAX_POLL_INTERVAL_MS
       else if 10000 < idle then min MAX_POLL_INTERVAL_MS (BASE_POLL_INTERVAL_MS * 2)
       else BASE_POLL_INTERVAL_MS, n1))"

definition getLastProgressAtMs :: "node \<Rightarrow> int" where
  "getLastProgressAtMs n = max (max (lastCoordinatorOutputAtMs n) (lastCompletedActionAtMs n)) (lastMemberTransitionAtMs n)"

record job_tool_event =
  te_type :: string
  te_tool :: string
  te_phase :: string
  te_call :: "string option"
  te_command :: "string option"

fun wait_phase :: "job_tool_event list \<Rightarrow> string set \<Rightarrow> bool \<Rightarrow> string set \<times> bool" where
  "wait_phase [] active uncorrelated = (active, uncorrelated)"
| "wait_phase (e # es) active uncorrelated =
     (if te_type e \<noteq> ''tool'' \<or> te_tool e \<noteq> ''bash'' then wait_phase es active uncorrelated
      else if \<not> str_includes ''node wait-phase'' (case te_command e of Some c \<Rightarrow> c | None \<Rightarrow> []) then wait_phase es active uncorrelated
      else if te_phase e = ''start'' then
        (if truthy (te_call e) then wait_phase es (insert (the (te_call e)) active) uncorrelated else wait_phase es active True)
      else if te_phase e = ''end'' then
        (if truthy (te_call e) then wait_phase es (active - {the (te_call e)}) uncorrelated else wait_phase es active False)
      else wait_phase es active uncorrelated)"

definition isCoordinatorInBlockingWaitPhase ::
  "(string \<Rightarrow> string option) \<Rightarrow> (string \<Rightarrow> job_tool_event list) \<Rightarrow> node \<Rightarrow> bool" where
  "isCoordinatorInBlockingWaitPhase status events n =
     (if \<not> truthy (coordinator_job n) then False
      else if status (the (coordinator_job n)) \<noteq> Some ''running'' then False
      else let (active, uncorrelated) = wait_phase (events (the (coordinator_job n))) {} False in active \<noteq> {} \<or> uncorrelated)"

definition maybeTriggerNoProgressWatchdog ::
  "int \<Rightarrow> (string \<Rightarrow> string option) \<Rightarrow> (string \<Rightarrow> job_tool_event list) \<Rightarrow> node \<Rightarrow> bool \<times> node" where
  "maybeTriggerNoProgressWatchdog now status events n =
     (if n_status n \<in> set TERMINAL_NODE_STATUSES then (False, n)
      else if isCoordinatorInBlockingWaitPhase status events n then (False, n)
      else
        let stalled = now - getLastProgressAtMs n in
        if stalled < NO_PROGRESS_WATCHDOG_MS then (False, n)
        else (True, persistNodeEvent now ''coordinator_output_invalid''
          [(''node_id'', JStr (node_id n)), (''failure_class'', JStr ''watchdog_no_progress''),
           (''details'', JStr (''No progress observed for '' @ show_int stalled @ ''ms.'')), (''stalled_for_ms'', JNum stalled),
           (''threshold_ms'', JNum NO_PROGRESS_WATCHDOG_MS), (''last_coordinator_output_at_ms'', JNum (lastCoordinatorOutputAtMs n)),
           (''last_completed_action_at_ms'', JNum (lastCompletedActionAtMs n)),
           (''last_member_transition_at_ms'', JNum (lastMemberTransitionAtMs n))] n))"

section \<open>Recovery\<close>

definition str_field :: "json \<Rightarrow> string \<Rightarrow> string option" where
  "str_field j k = (case field j k of Some (JStr s) \<Rightarrow> Some s | _ \<Rightarrow> None)"

definition num_field :: "json \<Rightarrow> string \<Rightarrow> int option" where
  "num_field j k = (case field j k of Some (JNum i) \<Rightarrow> Some i | _ \<Rightarrow> None)"

definition restored :: "string \<Rightarrow> string \<Rightarrow> json \<Rightarrow> string \<Rightarrow> int \<Rightarrow> string option \<Rightarrow> envelope" where
  "restored ty mid j i g dep = \<lparr>env_id = i, env_generation = g, env_depends = dep,
     env_action = \<lparr>a_type = ty, a_member = mid, a_task = str_field j ''task'', a_message = str_field j ''message'',
       a_id = Some i, a_generation = Some g, a_depends = dep\<rparr>\<rparr>"

text \<open>A nested action whose type or member is not a string is outside the model.\<close>

definition restore_payload :: "json \<Rightarrow> envelope option" where
  "restore_payload payload =
     (case field payload ''action'' of
        Some (JObj m) \<Rightarrow>
          let action = JObj m; i = nullish (str_field action ''actionId'') (str_field payload ''action_id'') in
          if \<not> truthy (str_field action ''memberId'') \<or> \<not> truthy (str_field action ''type'') then None
          else if \<not> truthy i then None
          else Some (restored (the (str_field action ''type'')) (the (str_field action ''memberId'')) action (the i)
            (case nullish (num_field action ''targetGeneration'') (num_field payload ''target_generation'') of Some g \<Rightarrow> g | None \<Rightarrow> 0)
            (nullish (str_field action ''dependsOnActionId'') (str_field payload ''depends_on_action_id'')))
      | _ \<Rightarrow>
          let i = str_field payload ''action_id''; mid = str_field payload ''member_id''; ty = str_field payload ''action_type'' in
          if \<not> truthy i \<or> \<not> truthy mid \<or> (ty \<noteq> Some ''resume'' \<and> ty \<noteq> Some ''steer'' \<and> ty \<noteq> Some ''stop'') then None
          else Some (restored (the ty) (the mid) payload (the i)
            (case num_field payload ''target_generation'' of Some g \<Rightarrow> g | None \<Rightarrow> 0) (str_field payload ''depends_on_action_id'')))"

definition restoreActionFromEvent :: "json_text \<Rightarrow> envelope option" where
  "restoreActionFromEvent txt = (case parse_json txt of None \<Rightarrow> None | Some JNull \<Rightarrow> None | Some payload \<Rightarrow> restore_payload payload)"

definition restoreCoordinatorOutputHashFromEvent :: "json_text \<Rightarrow> string option" where
  "restoreCoordinatorOutputHashFromEvent txt = (case parse_json txt of None \<Rightarrow> None | Some payload \<Rightarrow> str_field payload ''output_hash'')"

definition restoreResumePendingFromEvent :: "json_text \<Rightarrow> bool option" where
  "restoreResumePendingFromEvent txt =
     (case parse_json txt of
        None \<Rightarrow> None
      | Some payload \<Rightarrow> (case field payload ''resume_pending'' of Some (JBool b) \<Rightarrow> Some b | _ \<Rightarrow> None))"

definition replay_action :: "node_event \<Rightarrow> envelope \<Rightarrow> (string, envelope) js_map \<times> node \<Rightarrow> (string, envelope) js_map \<times> node" where
  "replay_action e env acc =
     (let (byId, n) = acc; mid = a_member (env_action env);
          n1 = n\<lparr>actionById := map_set (actionById n) (env_id env) env\<rparr>;
          n2 = (if ne_type e = ''action_completed'' then
                  (clearMemberPendingActionForGeneration mid (env_generation env)
                    (n1\<lparr>completedActionIds := insert (env_id env) (completedActionIds n1)\<rparr>))
                    \<lparr>lastCompletedActionAtMs := max (lastCompletedActionAtMs n1) (ne_t e)\<rparr>
                else if ne_type e = ''action_written'' then setMemberPendingActionForGeneration mid (env_generation env) (env_id env) n1
                else n1)
      in (map_set byId (env_id env) env,
          n2\<lparr>actionLifecycle := map_set (actionLifecycle n2) (env_id env) (drop (length ''action_'') (ne_type e))\<rparr>))"

definition replay_event :: "node_event \<Rightarrow> (string, envelope) js_map \<times> node \<Rightarrow> (string, envelope) js_map \<times> node" where
  "replay_event e acc =
     (let (byId, n) = acc in
      if ne_type e = ''coordinator_output_received'' then
        (byId, n\<lparr>outputHash := restoreCoordinatorOutputHashFromEvent (ne_json e),
                 lastCoordinatorOutputAtMs := max (lastCoordinatorOutputAtMs n) (ne_t e)\<rparr>)
      else if ne_type e = ''member_state_changed'' then
        (byId, n\<lparr>lastMemberTransitionAtMs := max (lastMemberTransitionAtMs n) (ne_t e)\<rparr>)
      else if ne_type e = ''coordinator_resume_state'' then
        (byId, case restoreResumePendingFromEvent (ne_json e) of Some b \<Rightarrow> n\<lparr>resumePending := b\<rparr> | None \<Rightarrow> n)
      else if \<not> starts_with ''action_'' (ne_type e) then (byId, n)
      else (case restoreActionFromEvent (ne_json e) of
          None \<Rightarrow> (byId, n)
        | Some env \<Rightarrow> replay_action e env (byId, n)))"

definition TERMINAL_ACTION_STATES :: "string list" where
  "TERMINAL_ACTION_STATES = [''completed'', ''failed'', ''superseded'']"

definition requeue :: "envelope \<Rightarrow> node \<Rightarrow> node" where
  "requeue env n =
     (case map_get (actionLifecycle n) (env_id env) of
        None \<Rightarrow> n
      | Some state \<Rightarrow>
          if state = [] \<or> state \<in> set TERMINAL_ACTION_STATES then n
          else if state = ''queued'' then
            n\<lparr>dispatchQueue := dispatchQueue n @ [env], queuedActionKeys := insert (getActionKey (env_action env)) (queuedActionKeys n)\<rparr>
          else if state = ''written'' \<or> state = ''observed'' then
            setMemberPendingActionForGeneration (a_member (env_action env)) (env_generation env) (env_id env) n
          else n)"

definition replay :: "node_event list \<Rightarrow> node \<Rightarrow> node" where
  "replay events n =
     (let (byId, n1) = fold replay_event events ([], n) in fold requeue (map_values byId) n1)"

definition resetResumePendingFromLiveCoordinatorStatus :: "int \<Rightarrow> (string \<Rightarrow> string option) \<Rightarrow> node \<Rightarrow> node" where
  "resetResumePendingFromLiveCoordinatorStatus now status n =
     (let n1 = n\<lparr>resumePending := False\<rparr> in
      if \<not> resumePending n then n1
      else persistNodeEvent now ''coordinator_resume_state''
        ([(''node_id'', JStr (node_id n)), (''resume_pending'', JBool False), (''recovery_reset'', JBool True)]
         @ (if truthy (coordinator_job n) then opt_key ''coordinator_status'' (map_option JStr (status (the (coordinator_job n))))
            else [(''coordinator_status'', JNull)])) n1)"

text \<open>\<open>bootstrap\<close>, with the rows it reads; the rows of the members it writes back are not modelled.\<close>

record node_run =
  run_status :: node_state
  run_coordinator :: "string option"

record persisted_member =
  pm_member :: string
  pm_job :: "string option"
  pm_status :: string
  pm_enabled :: "bool option"
  pm_generation :: "int option"

definition recover_member :: "persisted_member \<Rightarrow> node \<Rightarrow> node" where
  "recover_member row n =
     (case map_get (node_members n) (pm_member row) of
        None \<Rightarrow> n
      | Some m \<Rightarrow> n\<lparr>node_members := map_set (node_members n) (pm_member row)
          (m\<lparr>m_job := pm_job row, m_status := pm_status row,
             m_enabled := (case pm_enabled row of Some b \<Rightarrow> b | None \<Rightarrow> True),
             m_generation := (case pm_generation row of Some g \<Rightarrow> g | None \<Rightarrow> m_generation m)\<rparr>)\<rparr>)"

definition bootstrap ::
  "int \<Rightarrow> (string \<Rightarrow> string option) \<Rightarrow> node_run option \<Rightarrow> persisted_member list \<Rightarrow> node_event list \<Rightarrow> node \<Rightarrow> node" where
  "bootstrap now status run rows events n =
     (case run of
        None \<Rightarrow> n
      | Some r \<Rightarrow>
          if run_status r = Created then n
          else
            let n1 = fold recover_member rows (n\<lparr>n_status := run_status r, coordinator_job := run_coordinator r\<rparr>);
                n2 = resetResumePendingFromLiveCoordinatorStatus now status (replay events n1)
            in persistNodeEvent now ''node_recovered''
                 [(''node_id'', JStr (node_id n2)), (''status'', JStr (node_state_text (n_status n2))),
                  (''coordinator_job_id'', null_or JStr (coordinator_job n2)),
                  (''recovered_action_count'', JNum (int (length (dispatchQueue n2)))),
                  (''resume_pending'', JBool (resumePending n2))] n2)"

end
