(* ===== verification/Node_Queue.thy ===== *)
theory Node_Queue imports Node_Dispatch begin

text \<open>
  The operations of a node as a transition system over any order of dispatches, returns of
  calls, polls and changes of members, and the invariants of its queue: what is queued, what
  is in flight, what is pending.
\<close>

section \<open>Steps\<close>

definition well_formed :: "dispatch_action \<Rightarrow> bool" where
  "well_formed a \<longleftrightarrow> a_type a \<in> {''resume'', ''steer'', ''stop''} \<and> a_member a \<noteq> []"

text \<open>The id the action gets: its own, or one from the clock and the counter.\<close>

definition id_given :: "int \<Rightarrow> dispatch_action \<Rightarrow> node \<Rightarrow> string" where
  "id_given now a n = (case a_id a of Some i \<Rightarrow> i | None \<Rightarrow> fst (nextActionId now n))"

text \<open>
  \<open>flaky\<close> tells whether writes to the store may fail. The code does not check that the id of an
  action is new, its callers provide it or leave it to the counter; here it is new. Members,
  their generations and their jobs change in any way. Replacing a member, which also clears
  its pending actions, and the clean-up when a node stops are not steps.
\<close>

inductive node_step :: "bool \<Rightarrow> node \<Rightarrow> node \<Rightarrow> bool" for flaky where
  Dispatch: "\<lbrakk>well_formed a; id_given now a n \<noteq> []; map_get (actionLifecycle n) (id_given now a n) = None\<rbrakk>
     \<Longrightarrow> node_step flaky n (snd (dispatch_begin now usage a n))"
| Dispatch_end: "node_step flaky n (dispatch_end env n)"
| Returned: "node_step flaky n (call_returned now result n)"
| Poll: "node_step flaky n (snd (pollMemberStatuses now rd rows n))"
| Members: "node_step flaky n (n\<lparr>node_members := ms, controllers := cs\<rparr>)"
| Transition: "node_step flaky n (snd (transition now t reason n))"
| Watchdog: "node_step flaky n (snd (maybeTriggerNoProgressWatchdog now status events n))"
| Pace: "node_step flaky n (snd (getNextPollIntervalMs now k n))"
| Store: "flaky \<Longrightarrow> node_step flaky n (n\<lparr>store_up := b\<rparr>)"

inductive node_reach :: "bool \<Rightarrow> node \<Rightarrow> bool" for flaky where
  Start: "node_reach flaky (new_node nid ms now)"
| Step: "\<lbrakk>node_reach flaky n; node_step flaky n n'\<rbrakk> \<Longrightarrow> node_reach flaky n'"

section \<open>Frames\<close>

text \<open>The part of the state the queue's invariant speaks of, and the operations that leave it.\<close>

record queue_state =
  q_queue :: "envelope list"
  q_life :: "(string, string) js_map"
  q_completed :: "string set"
  q_pending :: "(string, string) js_map"
  q_byId :: "(string, envelope) js_map"
  q_draining :: bool
  q_flight :: "envelope option"
  q_calls :: "(string \<times> member_call) list"

definition queue_of :: "node \<Rightarrow> queue_state" where
  "queue_of n = \<lparr>q_queue = dispatchQueue n, q_life = actionLifecycle n, q_completed = completedActionIds n,
     q_pending = memberPendingAction n, q_byId = actionById n, q_draining = isDraining n, q_flight = in_flight n, q_calls = calls n\<rparr>"

lemma persist_frame [simp]:
  "queue_of (persistNodeEvent now ty obj n) = queue_of n"
  "node_members (persistNodeEvent now ty obj n) = node_members n"
  "controllers (persistNodeEvent now ty obj n) = controllers n"
  "store_up (persistNodeEvent now ty obj n) = store_up n"
  "node_id (persistNodeEvent now ty obj n) = node_id n"
  by (simp_all add: persistNodeEvent_def queue_of_def)

lemma queue_of_sel:
  "dispatchQueue n = q_queue (queue_of n)" "actionLifecycle n = q_life (queue_of n)" "completedActionIds n = q_completed (queue_of n)"
  "memberPendingAction n = q_pending (queue_of n)" "actionById n = q_byId (queue_of n)" "isDraining n = q_draining (queue_of n)"
  "in_flight n = q_flight (queue_of n)" "calls n = q_calls (queue_of n)"
  by (simp_all add: queue_of_def)

lemma persist_queue_fields [simp]:
  "dispatchQueue (persistNodeEvent now ty obj n) = dispatchQueue n"
  "actionLifecycle (persistNodeEvent now ty obj n) = actionLifecycle n"
  "completedActionIds (persistNodeEvent now ty obj n) = completedActionIds n"
  "memberPendingAction (persistNodeEvent now ty obj n) = memberPendingAction n"
  "actionById (persistNodeEvent now ty obj n) = actionById n"
  "isDraining (persistNodeEvent now ty obj n) = isDraining n"
  "in_flight (persistNodeEvent now ty obj n) = in_flight n"
  "calls (persistNodeEvent now ty obj n) = calls n"
  by (simp_all add: persistNodeEvent_def)

lemma lifecycle_fields [simp]:
  "actionLifecycle (appendActionLifecycleEvent now env st extra n) = map_set (actionLifecycle n) (env_id env) st"
  "dispatchQueue (appendActionLifecycleEvent now env st extra n) = dispatchQueue n"
  "completedActionIds (appendActionLifecycleEvent now env st extra n) = completedActionIds n"
  "memberPendingAction (appendActionLifecycleEvent now env st extra n) = memberPendingAction n"
  "actionById (appendActionLifecycleEvent now env st extra n) = actionById n"
  "isDraining (appendActionLifecycleEvent now env st extra n) = isDraining n"
  "in_flight (appendActionLifecycleEvent now env st extra n) = in_flight n"
  "calls (appendActionLifecycleEvent now env st extra n) = calls n"
  "node_members (appendActionLifecycleEvent now env st extra n) = node_members n"
  "controllers (appendActionLifecycleEvent now env st extra n) = controllers n"
  "queuedActionKeys (appendActionLifecycleEvent now env st extra n) = queuedActionKeys n"
  "store_up (appendActionLifecycleEvent now env st extra n) = store_up n"
  by (simp_all add: appendActionLifecycleEvent_def) (simp_all add: persistNodeEvent_def)

section \<open>Keys\<close>

text \<open>The decimal digits of a number give it back, so a member and a generation have one key.\<close>

definition digits_value :: "string \<Rightarrow> nat" where
  "digits_value s = foldl (\<lambda>a c. a * 10 + (of_char c - 48)) 0 s"

lemma digits_value_show [simp]: "digits_value (show_nat n) = n"
proof (induction n rule: show_nat.induct)
  case (1 n)
  show ?case
  proof (cases "n < 10")
    case True
    then show ?thesis by (subst show_nat.simps) (simp add: digits_value_def of_char_of)
  next
    case False
    have "digits_value (show_nat n) = digits_value (show_nat (n div 10)) * 10 + n mod 10"
      using False by (subst show_nat.simps) (simp add: digits_value_def of_char_of)
    then show ?thesis using 1 False by simp
  qed
qed

lemma show_nat_digits: "\<forall>c \<in> set (show_nat n). 48 \<le> (of_char c :: nat) \<and> (of_char c :: nat) \<le> 57"
proof (induction n rule: show_nat.induct)
  case (1 n)
  have "n mod 10 \<le> 9" by (simp add: less_Suc_eq_le [symmetric])
  with 1 show ?case by (subst show_nat.simps) (auto simp: of_char_of)
qed

lemma show_int_inj: "show_int i = show_int j \<Longrightarrow> i = j"
proof -
  have minus: "show_nat n \<noteq> CHR ''-'' # s" for n s
  proof
    assume "show_nat n = CHR ''-'' # s"
    then have "CHR ''-'' \<in> set (show_nat n)" by simp
    then show False using show_nat_digits [of n] by auto
  qed
  have inj: "show_nat m = show_nat n \<Longrightarrow> m = n" for m n
    by (metis digits_value_show)
  assume "show_int i = show_int j"
  then show ?thesis
    by (auto simp: show_int_def minus minus [symmetric] dest!: inj split: if_splits)
qed

lemma show_int_no_colon: "CHR '':'' \<notin> set (show_int i)"
  using show_nat_digits [of "nat i"] show_nat_digits [of "nat (- i)"] by (auto simp: show_int_def)

lemma key_inj: "getMemberPendingActionKey a g = getMemberPendingActionKey b h \<longleftrightarrow> a = b \<and> g = h"
proof
  assume "getMemberPendingActionKey a g = getMemberPendingActionKey b h"
  then have e: "rev (show_int g) @ CHR '':'' # rev a = rev (show_int h) @ CHR '':'' # rev b"
    unfolding getMemberPendingActionKey_def by (metis append.assoc append_Cons append_Nil rev.simps(2) rev_append)
  have "\<forall>c \<in> set (rev (show_int k)). c \<noteq> CHR '':''" for k
    using show_int_no_colon by auto
  then have "takeWhile (\<lambda>c. c \<noteq> CHR '':'') (rev (show_int k) @ CHR '':'' # x) = rev (show_int k)" for k x
    by (subst takeWhile_append2) auto
  then have "rev (show_int g) = rev (show_int h)" using e by metis
  then show "a = b \<and> g = h" using e show_int_inj by auto
qed simp

section \<open>The invariant\<close>

definition env_key :: "envelope \<Rightarrow> string" where
  "env_key env = getMemberPendingActionKey (a_member (env_action env)) (env_generation env)"

definition queued_ids :: "(string, string) js_map \<Rightarrow> string list" where
  "queued_ids m = map fst (filter (\<lambda>(i, s). s = ''queued'') m)"

definition ACTION_STATES :: "string set" where
  "ACTION_STATES = {''queued'', ''written'', ''completed'', ''failed'', ''superseded''}"

text \<open>
  \<open>core q n\<close>: the actions whose state is queued are those of \<open>q\<close>, in order; the pending
  actions are the written ones, each under its own key; the completed set holds completed
  ones; no action was sent twice and none of \<open>q\<close> was sent.
\<close>

definition life_ok :: "envelope list \<Rightarrow> node \<Rightarrow> bool" where
  "life_ok q n \<longleftrightarrow> map_ok (actionLifecycle n) \<and> queued_ids (actionLifecycle n) = map env_id q
     \<and> (\<forall>env \<in> set q. map_get (actionById n) (env_id env) = Some env)
     \<and> (\<forall>i st. map_get (actionLifecycle n) i = Some st \<longrightarrow>
          i \<noteq> [] \<and> st \<in> ACTION_STATES \<and> (\<exists>env. map_get (actionById n) i = Some env \<and> env_id env = i))
     \<and> (\<forall>i \<in> completedActionIds n. map_get (actionLifecycle n) i = Some ''completed'')"

definition pending_ok :: "node \<Rightarrow> bool" where
  "pending_ok n \<longleftrightarrow> (\<forall>k i. map_get (memberPendingAction n) k = Some i \<longleftrightarrow>
     map_get (actionLifecycle n) i = Some ''written'' \<and> map_option env_key (map_get (actionById n) i) = Some k)"

definition calls_ok :: "envelope list \<Rightarrow> node \<Rightarrow> bool" where
  "calls_ok q n \<longleftrightarrow> distinct (map fst (calls n)) \<and> (\<forall>c \<in> set (calls n). map_get (actionLifecycle n) (fst c) \<noteq> None)
     \<and> fst ` set (calls n) \<inter> env_id ` set q = {}"

definition core :: "envelope list \<Rightarrow> node \<Rightarrow> bool" where
  "core q n \<longleftrightarrow> life_ok q n \<and> pending_ok n \<and> calls_ok q n"

definition flight :: "node \<Rightarrow> envelope list" where
  "flight n = (case in_flight n of Some env \<Rightarrow> [env] | None \<Rightarrow> [])"

definition queue_inv :: "node \<Rightarrow> bool" where
  "queue_inv n \<longleftrightarrow> life_ok (flight n @ dispatchQueue n) n \<and> pending_ok n \<and> calls_ok (dispatchQueue n) n
     \<and> (isDraining n \<longleftrightarrow> in_flight n \<noteq> None) \<and> (in_flight n = None \<longrightarrow> dispatchQueue n = [])
     \<and> (\<forall>env. in_flight n = Some env \<longrightarrow> map_get (memberPendingAction n) (env_key env) = None)"

lemma queue_inv_frame: "queue_of n' = queue_of n \<Longrightarrow> queue_inv n \<Longrightarrow> queue_inv n'"
  by (simp add: queue_inv_def life_ok_def pending_ok_def calls_ok_def flight_def queue_of_sel)

section \<open>The states of the actions\<close>

lemma map_set_fresh: "map_get m k = None \<Longrightarrow> map_set m k v = m @ [(k, v)]"
  by (induction m k v rule: map_set.induct) (auto split: if_splits)

lemma map_set_same: "map_get m k = Some v \<Longrightarrow> map_set m k v = m"
  by (induction m k v rule: map_set.induct) (auto split: if_splits)

lemma queued_ids_set:
  "map_ok m \<Longrightarrow> st \<noteq> ''queued'' \<Longrightarrow> queued_ids (map_set m k st) = filter (\<lambda>i. i \<noteq> k) (queued_ids m)"
proof (induction m k st rule: map_set.induct)
  case (2 k' v' m k v)
  have "k' = k \<Longrightarrow> filter (\<lambda>i. i \<noteq> k) (queued_ids m) = queued_ids m"
    using "2.prems"(1) by (auto simp: map_ok_def queued_ids_def filter_id_conv image_iff)
  then show ?case using 2 by (auto simp: queued_ids_def map_ok_def)
qed (simp add: queued_ids_def)

lemma queued_ids_in: "map_ok m \<Longrightarrow> i \<in> set (queued_ids m) \<longleftrightarrow> map_get m i = Some ''queued''"
  by (auto simp: queued_ids_def map_get_iff image_iff)

lemma queued_ids_distinct: "map_ok m \<Longrightarrow> distinct (queued_ids m)"
  by (auto simp: queued_ids_def map_ok_def distinct_map_filter)

lemma head_queued: "life_ok (env # q) n \<Longrightarrow> map_get (actionLifecycle n) (env_id env) = Some ''queued''"
  using queued_ids_in [of "actionLifecycle n" "env_id env"] by (simp add: life_ok_def)

lemma head_fresh: "life_ok (env # q) n \<Longrightarrow> env_id env \<notin> env_id ` set q"
  using queued_ids_distinct [of "actionLifecycle n"] by (simp add: life_ok_def)

text \<open>An action leaves the queue: for a final state unsent, or once its call has returned.\<close>

lemma life_leave:
  assumes ok: "life_ok (env # q) n" and st: "st \<in> ACTION_STATES" "st \<noteq> ''queued''"
    and same: "actionLifecycle n' = map_set (actionLifecycle n) (env_id env) st" "actionById n' = actionById n"
      "completedActionIds n' = completedActionIds n"
  shows "life_ok q n'"
proof -
  have others: "filter (\<lambda>i. i \<noteq> env_id env) (map env_id q) = map env_id q"
    using head_fresh [OF ok] by (auto simp: filter_id_conv image_iff)
  have "env_id env \<notin> completedActionIds n"
    using ok head_queued [OF ok] by (auto simp: life_ok_def)
  moreover have "env_id env \<noteq> []" using ok head_queued [OF ok] unfolding life_ok_def by blast
  ultimately show ?thesis
    using ok st others unfolding life_ok_def same by (auto simp: queued_ids_set map_get_set)
qed

lemma pending_other:
  assumes "pending_ok n" and "map_get (actionLifecycle n) i \<noteq> Some ''written''" and "st \<noteq> ''written''"
    and same: "actionLifecycle n' = map_set (actionLifecycle n) i st" "actionById n' = actionById n"
      "memberPendingAction n' = memberPendingAction n"
  shows "pending_ok n'"
proof -
  have "(map_get (actionLifecycle n') k = Some ''written'') = (map_get (actionLifecycle n) k = Some ''written'')" for k
    using assms(2,3) by (auto simp: same map_get_set)
  then show ?thesis using assms(1) by (simp add: pending_ok_def same(2,3))
qed

lemma refuse_core:
  assumes "core (env # q) n" and "st \<in> {''failed'', ''superseded''}"
  shows "core q (appendActionLifecycleEvent now env st extra n)"
proof -
  let ?n = "appendActionLifecycleEvent now env st extra n"
  have h: "map_get (actionLifecycle n) (env_id env) = Some ''queued''"
    using assms(1) by (auto simp: core_def intro: head_queued)
  have "life_ok q ?n"
    by (rule life_leave [of env q n st]) (use assms in \<open>auto simp: core_def ACTION_STATES_def\<close>)
  moreover have "pending_ok ?n"
    by (rule pending_other [of n "env_id env" st]) (use assms h in \<open>auto simp: core_def\<close>)
  moreover have "calls_ok q ?n"
    using assms(1) unfolding core_def calls_ok_def by (auto simp: map_get_set)
  ultimately show ?thesis by (simp add: core_def)
qed

lemma refused_state: "drain_check n env = Refused st extra \<Longrightarrow> st \<in> {''failed'', ''superseded''}"
proof -
  have "case drain_check n env of Refused st extra \<Rightarrow> st = ''failed'' \<or> st = ''superseded'' | Send job \<Rightarrow> True"
    unfolding drain_check_def Let_def by (cases "map_get (node_members n) (a_member (env_action env))") simp_all
  then show "drain_check n env = Refused st extra \<Longrightarrow> ?thesis" by simp
qed

text \<open>What is sent is addressed at the member's present generation, which has nothing pending.\<close>

lemma send_free:
  assumes "core (env # q) n" and "drain_check n env = Send job"
  shows "map_get (memberPendingAction n) (env_key env) = None"
proof (rule ccontr)
  assume "map_get (memberPendingAction n) (env_key env) \<noteq> None"
  then obtain i where i: "map_get (memberPendingAction n) (env_key env) = Some i" by auto
  then have w: "map_get (actionLifecycle n) i = Some ''written''"
    using assms(1) by (auto simp: core_def pending_ok_def)
  then have "i \<notin> completedActionIds n" "i \<noteq> []" using assms(1) by (auto simp: core_def life_ok_def)
  then show False
    using assms(2) i by (auto simp: drain_check_def Let_def env_key_def getMemberPendingActionForGeneration_def truthy_def
        split: option.splits if_splits)
qed

lemma core_frame:
  "\<lbrakk>core q n; queue_of n' = queue_of n\<rbrakk> \<Longrightarrow> core q n'"
  by (simp add: core_def life_ok_def pending_ok_def calls_ok_def queue_of_sel)

lemma drain_inv: "core q n \<Longrightarrow> in_flight n = None \<Longrightarrow> isDraining n \<Longrightarrow> queue_inv (drain_from now q n)"
proof (induction q arbitrary: n)
  case Nil
  then show ?case
    by (simp add: queue_inv_def flight_def core_def life_ok_def pending_ok_def calls_ok_def)
next
  case (Cons env q)
  show ?case
  proof (cases "drain_check n env")
    case (Refused st extra)
    let ?n = "appendActionLifecycleEvent now env st extra n"
    have "core q ?n" by (rule refuse_core [OF Cons.prems(1) refused_state [OF Refused]])
    then have "core q (?n\<lparr>queuedActionKeys := queuedActionKeys ?n - {getActionKey (env_action env)}\<rparr>)"
      by (rule core_frame) (simp add: queue_of_def)
    from Cons.IH [OF this] Cons.prems Refused show ?thesis by (simp add: Let_def)
  next
    case (Send job)
    have ids: "env_id env \<notin> fst ` set (calls n)" "env_id env \<notin> env_id ` set q"
        "map_get (actionLifecycle n) (env_id env) = Some ''queued''"
      using Cons.prems(1) head_fresh [of env q n] head_queued [of env q n] by (auto simp: core_def calls_ok_def)
    then show ?thesis
      using Cons.prems send_free [OF Cons.prems(1) Send] Send
      by (auto simp: queue_inv_def flight_def core_def life_ok_def pending_ok_def calls_ok_def)
  qed
qed

section \<open>Every operation keeps the invariant\<close>

lemma nextActionId_frame: "snd (nextActionId now n) = n\<lparr>nextActionSequence := nextActionSequence n + 1\<rparr>"
  by (simp add: nextActionId_def Let_def)

definition pushed :: "nat \<Rightarrow> envelope \<Rightarrow> node \<Rightarrow> node" where
  "pushed k env n = n\<lparr>nextActionSequence := k, dispatchQueue := dispatchQueue n @ [env],
     actionById := map_set (actionById n) (env_id env) env,
     queuedActionKeys := insert (getActionKey (env_action env)) (queuedActionKeys n)\<rparr>"

lemma enqueue_some:
  assumes "enqueue now usage a n = (Some env, n')"
  shows "env_id env = id_given now a n \<and> env_depends env = a_depends a
     \<and> env_action env = a\<lparr>a_id := Some (env_id env), a_generation := Some (env_generation env)\<rparr>
     \<and> (\<exists>k. n' = appendActionLifecycleEvent now env ''queued'' [(''action'', action_json_of (env_action env))] (pushed k env n))"
proof (cases "a_id a")
  case None
  obtain i n1 where i: "nextActionId now n = (i, n1)" by fastforce
  have n1: "n1 = n\<lparr>nextActionSequence := nextActionSequence n + 1\<rparr>"
    using nextActionId_frame [of now n] i by simp
  show ?thesis
    using assms None i by (auto simp: enqueue_def Let_def id_given_def pushed_def n1 split: if_splits)
next
  case (Some i)
  have "n\<lparr>nextActionSequence := nextActionSequence n\<rparr> = n" by simp
  then show ?thesis
    using assms Some
    by (auto simp: enqueue_def Let_def id_given_def pushed_def split: if_splits intro!: exI [of _ "nextActionSequence n"])
qed

lemma enqueue_none: "enqueue now usage a n = (None, n') \<Longrightarrow> queue_of n' = queue_of n"
proof -
  have drop: "queue_of (drop_action now a r x g m) = queue_of m" for r x g m
    by (simp add: drop_action_def)
  have next_id: "queue_of (m\<lparr>nextActionSequence := k\<rparr>) = queue_of m" for m k
    by (simp add: queue_of_def)
  obtain i n1 where i: "nextActionId now n = (i, n1)" by fastforce
  have n1: "n1 = n\<lparr>nextActionSequence := nextActionSequence n + 1\<rparr>"
    using nextActionId_frame [of now n] i by simp
  assume "enqueue now usage a n = (None, n')"
  then show ?thesis
    by (cases "a_id a") (auto simp: enqueue_def Let_def i n1 drop next_id split: if_splits)
qed

lemma life_enter:
  assumes ok: "life_ok q n" and fresh: "map_get (actionLifecycle n) (env_id env) = None" "env_id env \<noteq> []"
    and same: "actionLifecycle n' = map_set (actionLifecycle n) (env_id env) ''queued''"
      "actionById n' = map_set (actionById n) (env_id env) env" "completedActionIds n' = completedActionIds n"
  shows "life_ok (q @ [env]) n'"
proof -
  have "env_id env \<notin> env_id ` set q"
  proof
    assume "env_id env \<in> env_id ` set q"
    then show False using ok fresh(1) queued_ids_in [of "actionLifecycle n" "env_id env"] by (auto simp: life_ok_def)
  qed
  moreover have "queued_ids (map_set (actionLifecycle n) (env_id env) ''queued'') = queued_ids (actionLifecycle n) @ [env_id env]"
    by (simp add: map_set_fresh [OF fresh(1)] queued_ids_def)
  moreover have "env_id env \<notin> completedActionIds n" using ok fresh(1) by (auto simp: life_ok_def)
  ultimately show ?thesis
    using ok fresh(2) unfolding life_ok_def same by (auto simp: map_get_set ACTION_STATES_def)
qed

lemma enqueue_inv:
  assumes inv: "queue_inv n" and e: "enqueue now usage a n = (Some env, n1)"
    and fresh: "id_given now a n \<noteq> []" "map_get (actionLifecycle n) (id_given now a n) = None"
  shows "life_ok (flight n @ dispatchQueue n @ [env]) n1" "pending_ok n1" "calls_ok (dispatchQueue n1) n1"
    "dispatchQueue n1 = dispatchQueue n @ [env]" "in_flight n1 = in_flight n" "isDraining n1 = isDraining n"
    "memberPendingAction n1 = memberPendingAction n"
proof -
  note es = enqueue_some [OF e]
  obtain k where n1: "n1 = appendActionLifecycleEvent now env ''queued'' [(''action'', action_json_of (env_action env))] (pushed k env n)"
    using es by blast
  have i: "env_id env = id_given now a n" using es by blast
  have fields [simp]: "actionLifecycle n1 = map_set (actionLifecycle n) (env_id env) ''queued''"
      "actionById n1 = map_set (actionById n) (env_id env) env" "completedActionIds n1 = completedActionIds n"
      "calls n1 = calls n"
    by (simp_all add: n1 pushed_def)
  show "dispatchQueue n1 = dispatchQueue n @ [env]" "in_flight n1 = in_flight n" "isDraining n1 = isDraining n"
      and p: "memberPendingAction n1 = memberPendingAction n"
    by (simp_all add: n1 pushed_def)
  have f: "map_get (actionLifecycle n) (env_id env) = None" "env_id env \<noteq> []" using fresh i by simp_all
  have "life_ok ((flight n @ dispatchQueue n) @ [env]) n1"
    using inv f by (intro life_enter [of _ n]) (simp_all add: queue_inv_def)
  then show "life_ok (flight n @ dispatchQueue n @ [env]) n1" by simp
  show "pending_ok n1"
  proof -
    have "pending_ok n" using inv by (simp add: queue_inv_def)
    moreover have "map_get (actionLifecycle n1) j = Some ''written'' \<and> map_option env_key (map_get (actionById n1) j) = Some k
        \<longleftrightarrow> map_get (actionLifecycle n) j = Some ''written'' \<and> map_option env_key (map_get (actionById n) j) = Some k" for j k
      using f(1) by (auto simp: map_get_set)
    ultimately show ?thesis by (simp add: pending_ok_def p)
  qed
  have "dispatchQueue n1 = dispatchQueue n @ [env]" by (simp add: n1 pushed_def)
  then show "calls_ok (dispatchQueue n1) n1"
    using inv f(1) unfolding queue_inv_def calls_ok_def by (auto simp: map_get_set)
qed

lemma dispatch_inv:
  assumes inv: "queue_inv n" and fresh: "id_given now a n \<noteq> []" "map_get (actionLifecycle n) (id_given now a n) = None"
  shows "queue_inv (snd (dispatch_begin now usage a n))"
proof (cases "enqueue now usage a n")
  case (Pair r n1)
  show ?thesis
  proof (cases r)
    case None
    then show ?thesis using queue_inv_frame [OF enqueue_none inv] Pair by (simp add: dispatch_begin_def)
  next
    case (Some env)
    then have e: "enqueue now usage a n = (Some env, n1)" using Pair by simp
    note n1 = enqueue_inv [OF inv e fresh]
    show ?thesis
    proof (cases "isDraining n")
      case True
      then show ?thesis
        using inv n1 by (simp add: e dispatch_begin_def drainDispatchQueue_def queue_inv_def flight_def)
    next
      case False
      then have idle: "in_flight n = None" using inv by (auto simp: queue_inv_def)
      then have "core (dispatchQueue n1) n1" using n1 by (simp add: core_def flight_def)
      then have "core (dispatchQueue n1) (n1\<lparr>isDraining := True\<rparr>)"
        by (simp add: core_def life_ok_def pending_ok_def calls_ok_def)
      from drain_inv [OF this] show ?thesis
        using False idle n1 by (simp add: e dispatch_begin_def drainDispatchQueue_def)
    qed
  qed
qed

lemma returned_core:
  fixes result :: "string + unit" and now :: int
  assumes inv: "queue_inv n" and f: "in_flight n = Some env"
  defines "n1 \<equiv> (case result of
      Inr _ \<Rightarrow> appendActionLifecycleEvent now env ''written'' []
        (setMemberPendingActionForGeneration (a_member (env_action env)) (env_generation env) (env_id env) n)
    | Inl msg \<Rightarrow> appendActionLifecycleEvent now env ''failed'' [(''reason'', JStr msg)] n)"
  defines "n2 \<equiv> n1\<lparr>queuedActionKeys := queuedActionKeys n1 - {getActionKey (env_action env)}, in_flight := None\<rparr>"
  shows "core (dispatchQueue n) n2" "in_flight n2 = None" "isDraining n2 = isDraining n" "dispatchQueue n1 = dispatchQueue n"
proof -
  let ?st = "case result of Inr _ \<Rightarrow> ''written'' | Inl _ \<Rightarrow> ''failed''"
  have fields [simp]: "actionLifecycle n2 = map_set (actionLifecycle n) (env_id env) ?st" "actionById n2 = actionById n"
      "completedActionIds n2 = completedActionIds n" "calls n2 = calls n"
      "memberPendingAction n2 = (case result of Inr _ \<Rightarrow> map_set (memberPendingAction n) (env_key env) (env_id env)
         | Inl _ \<Rightarrow> memberPendingAction n)"
    by (simp_all add: n2_def n1_def setMemberPendingActionForGeneration_def env_key_def split: sum.split)
  show "in_flight n2 = None" "isDraining n2 = isDraining n" "dispatchQueue n1 = dispatchQueue n"
    by (simp_all add: n2_def n1_def setMemberPendingActionForGeneration_def split: sum.split)
  have life: "life_ok (env # dispatchQueue n) n" and free: "map_get (memberPendingAction n) (env_key env) = None"
    and pend: "pending_ok n" using inv f by (auto simp: queue_inv_def flight_def)
  have q: "map_get (actionLifecycle n) (env_id env) = Some ''queued''" by (rule head_queued [OF life])
  have byId: "map_get (actionById n) (env_id env) = Some env" using life by (simp add: life_ok_def)
  have "life_ok (dispatchQueue n) n2"
    by (rule life_leave [OF life, of ?st]) (auto simp: ACTION_STATES_def split: sum.split)
  moreover have "pending_ok n2"
  proof (cases result)
    case (Inl msg)
    show ?thesis by (rule pending_other [OF pend, of "env_id env" "''failed''"]) (simp_all add: Inl q)
  next
    case (Inr u)
    have old: "map_get (memberPendingAction n) k = Some i \<longleftrightarrow>
        map_get (actionLifecycle n) i = Some ''written'' \<and> map_option env_key (map_get (actionById n) i) = Some k" for k i
      using pend by (simp add: pending_ok_def)
    have none: "map_get (actionLifecycle n) i = Some ''written'' \<Longrightarrow> map_get (actionById n) i = Some z \<Longrightarrow> env_key z \<noteq> env_key env" for i z
      using old [of "env_key env" i] free by auto
    show ?thesis
      using byId free q none unfolding pending_ok_def
      by (auto simp: Inr map_get_set old)
  qed
  moreover have "calls_ok (dispatchQueue n) n2"
    using inv unfolding queue_inv_def calls_ok_def by (auto simp: map_get_set)
  ultimately show "core (dispatchQueue n) n2" by (simp add: core_def)
qed

lemma returned_inv: "queue_inv n \<Longrightarrow> queue_inv (call_returned now result n)"
proof (cases "in_flight n")
  case None
  then show "queue_inv n \<Longrightarrow> ?thesis" by (simp add: call_returned_def)
next
  case (Some env)
  assume inv: "queue_inv n"
  note c = returned_core [OF inv Some, of now result]
  have "isDraining n" using inv Some by (simp add: queue_inv_def)
  with drain_inv [OF c(1,2), of now] c(3,4) Some show ?thesis
    by (simp add: call_returned_def Let_def)
qed

lemma life_id: "life_ok q n \<Longrightarrow> map_get (actionLifecycle n) i = Some st \<Longrightarrow> map_get (actionById n) i = Some env \<Longrightarrow> env_id env = i"
  unfolding life_ok_def by (metis option.inject)

lemma life_not_queued: "life_ok q n \<Longrightarrow> map_get (actionLifecycle n) i \<noteq> Some ''queued'' \<Longrightarrow> i \<notin> env_id ` set q"
  using queued_ids_in [of "actionLifecycle n" i] by (auto simp: life_ok_def)

lemma map_set_twice: "map_set (map_set m k a) k b = map_set m k b"
  by (induction m k a rule: map_set.induct) auto

text \<open>The acknowledgement: what it changes, and that it keeps the invariant.\<close>

lemma acknowledge_cases:
  assumes "queue_inv n"
  obtains (none) "maybeAcknowledgeMemberAction now mid n = n"
  | (acked) m env where "map_get (node_members n) mid = Some m"
      "map_get (memberPendingAction n) (env_key env) = Some (env_id env)"
      "env_key env = getMemberPendingActionKey mid (m_generation m)"
      "map_get (actionLifecycle n) (env_id env) = Some ''written''" "map_get (actionById n) (env_id env) = Some env"
      "maybeAcknowledgeMemberAction now mid n
        = (let n1 = appendActionLifecycleEvent now env ''completed'' [] (appendActionLifecycleEvent now env ''observed'' [] n) in
           n1\<lparr>completedActionIds := insert (env_id env) (completedActionIds n), memberPendingAction := map_delete (memberPendingAction n) (env_key env)\<rparr>)"
proof (cases "\<exists>m i env. map_get (node_members n) mid = Some m \<and> map_get (memberPendingAction n) (getMemberPendingActionKey mid (m_generation m)) = Some i
    \<and> map_get (actionById n) i = Some env \<and> map_get (actionLifecycle n) i = Some ''written'' \<and> i \<noteq> []")
  case False
  then have "maybeAcknowledgeMemberAction now mid n = n"
    by (auto simp: maybeAcknowledgeMemberAction_def getMemberPendingActionForGeneration_def truthy_def Let_def split: option.splits)
  then show thesis by (rule none)
next
  case True
  then obtain m i env where h: "map_get (node_members n) mid = Some m"
      "map_get (memberPendingAction n) (getMemberPendingActionKey mid (m_generation m)) = Some i"
      "map_get (actionById n) i = Some env" "map_get (actionLifecycle n) i = Some ''written''" "i \<noteq> []" by blast
  have "env_id env = i" using assms h(3,4) unfolding queue_inv_def by (blast intro: life_id)
  moreover have "env_key env = getMemberPendingActionKey mid (m_generation m)"
    using assms h(2,3) by (auto simp: queue_inv_def pending_ok_def)
  ultimately show thesis
    using h by (intro acked [of m env])
      (simp_all add: maybeAcknowledgeMemberAction_def getMemberPendingActionForGeneration_def
        clearMemberPendingActionForGeneration_def truthy_def Let_def)
qed

lemma acknowledge_inv: "queue_inv n \<Longrightarrow> queue_inv (maybeAcknowledgeMemberAction now mid n)"
proof -
  assume inv: "queue_inv n"
  show ?thesis
  proof (rule acknowledge_cases [OF inv, of now mid])
    assume "maybeAcknowledgeMemberAction now mid n = n"
    then show ?thesis using inv by simp
  next
    fix m env
    assume p: "map_get (memberPendingAction n) (env_key env) = Some (env_id env)"
      and w: "map_get (actionLifecycle n) (env_id env) = Some ''written''" and b: "map_get (actionById n) (env_id env) = Some env"
      and eq: "maybeAcknowledgeMemberAction now mid n
        = (let n1 = appendActionLifecycleEvent now env ''completed'' [] (appendActionLifecycleEvent now env ''observed'' [] n) in
           n1\<lparr>completedActionIds := insert (env_id env) (completedActionIds n), memberPendingAction := map_delete (memberPendingAction n) (env_key env)\<rparr>)"
    let ?n = "maybeAcknowledgeMemberAction now mid n" and ?Q = "flight n @ dispatchQueue n"
    have f [simp]: "actionLifecycle ?n = map_set (actionLifecycle n) (env_id env) ''completed''" "actionById ?n = actionById n"
        "completedActionIds ?n = insert (env_id env) (completedActionIds n)" "dispatchQueue ?n = dispatchQueue n"
        "isDraining ?n = isDraining n" "calls ?n = calls n" "in_flight ?n = in_flight n" "flight ?n = flight n"
        "memberPendingAction ?n = map_delete (memberPendingAction n) (env_key env)"
      by (simp_all add: eq Let_def map_set_twice flight_def)
    have life: "life_ok ?Q n" and pend: "pending_ok n" using inv by (auto simp: queue_inv_def)
    have "env_id env \<notin> set (queued_ids (actionLifecycle n))"
      using life w queued_ids_in [of "actionLifecycle n" "env_id env"] by (auto simp: life_ok_def)
    then have "filter (\<lambda>i. i \<noteq> env_id env) (queued_ids (actionLifecycle n)) = queued_ids (actionLifecycle n)"
      by (auto simp: filter_id_conv)
    then have "life_ok ?Q ?n"
      using life w unfolding life_ok_def by (auto simp: queued_ids_set map_get_set ACTION_STATES_def)
    moreover have "pending_ok ?n"
    proof -
      have old: "map_get (memberPendingAction n) k = Some i \<longleftrightarrow>
          map_get (actionLifecycle n) i = Some ''written'' \<and> map_option env_key (map_get (actionById n) i) = Some k" for k i
        using pend by (simp add: pending_ok_def)
      have uniq: "i = env_id env"
        if "map_get (actionLifecycle n) i = Some ''written''" "map_get (actionById n) i = Some z" "env_key z = env_key env" for i z
      proof -
        have "map_get (memberPendingAction n) (env_key env) = Some i" using that by (simp add: old)
        then show ?thesis using p by simp
      qed
      show ?thesis
        using b unfolding pending_ok_def by (auto simp: map_get_set map_get_delete old dest: uniq)
    qed
    moreover have "calls_ok (dispatchQueue n) ?n"
      using inv unfolding queue_inv_def calls_ok_def by (auto simp: map_get_set)
    ultimately show ?thesis
      using inv by (auto simp: queue_inv_def map_get_delete)
  qed
qed

lemma queue_of_update [simp]:
  "queue_of (n\<lparr>node_members := ms\<rparr>) = queue_of n" "queue_of (n\<lparr>controllers := cs\<rparr>) = queue_of n"
  "queue_of (n\<lparr>queuedActionKeys := ks\<rparr>) = queue_of n" "queue_of (n\<lparr>store_up := b\<rparr>) = queue_of n"
  "queue_of (n\<lparr>n_status := t\<rparr>) = queue_of n" "queue_of (n\<lparr>lastActivityAtMs := x\<rparr>) = queue_of n"
  "queue_of (n\<lparr>pollSequence := p\<rparr>) = queue_of n" "queue_of (n\<lparr>node_row := r\<rparr>) = queue_of n"
  by (simp_all add: queue_of_def)

lemma rebind_frame: "queue_of (snd (rebind now row g m n)) = queue_of n"
  by (simp add: rebind_def Let_def)

lemma observe_inv: "queue_inv n \<Longrightarrow> queue_inv (snd (observe now rd mid m changes n))"
proof -
  assume inv: "queue_inv n"
  have "queue_inv (n\<lparr>node_members := ms\<rparr>)" for ms
    by (rule queue_inv_frame [OF _ inv]) simp
  then show ?thesis
    using inv by (cases "readStatus rd (the (m_job m))") (simp_all add: observe_def Let_def acknowledge_inv)
qed

lemma poll_row_inv: "queue_inv (snd acc) \<Longrightarrow> queue_inv (snd (poll_row now rd row acc))"
proof -
  assume inv: "queue_inv (snd acc)"
  obtain changes n where acc: "acc = (changes, n)" by (cases acc)
  show ?thesis
  proof (cases "map_get (node_members n) (row_member row)")
    case None
    then show ?thesis using inv by (simp add: acc poll_row_def)
  next
    case (Some m)
    let ?g = "case row_generation row of Some g \<Rightarrow> g | None \<Rightarrow> 0"
    obtain m1 n1 where r: "rebind now row ?g m n = (m1, n1)" by fastforce
    have "queue_of n1 = queue_of n" using rebind_frame [of now row ?g m n] by (simp add: r)
    then have "queue_inv n1" using queue_inv_frame inv by (simp add: acc)
    then show ?thesis
      using inv Some by (simp add: acc poll_row_def Let_def r observe_inv)
  qed
qed

lemma poll_inv: "queue_inv n \<Longrightarrow> queue_inv (snd (pollMemberStatuses now rd rows n))"
proof -
  have "queue_inv (snd acc) \<Longrightarrow> queue_inv (snd (fold (poll_row now rd) rows acc))" for acc
    by (induction rows arbitrary: acc) (simp_all add: poll_row_inv)
  moreover assume "queue_inv n"
  then have "queue_inv (n\<lparr>pollSequence := pollSequence n + 1\<rparr>)" by (rule queue_inv_frame [rotated]) simp
  ultimately show ?thesis by (simp add: pollMemberStatuses_def)
qed

lemma step_inv: "node_step flaky n n' \<Longrightarrow> queue_inv n \<Longrightarrow> queue_inv n'"
proof (induction rule: node_step.induct)
  case (Dispatch a now n usage)
  then show ?case by (intro dispatch_inv)
next
  case (Dispatch_end n env)
  then show ?case by (rule queue_inv_frame [rotated]) (simp add: dispatch_end_def split: option.split)
next
  case (Returned n now result)
  then show ?case by (rule returned_inv)
next
  case (Poll n now rd rows)
  then show ?case by (rule poll_inv)
next
  case (Members n ms cs)
  then show ?case by (rule queue_inv_frame [rotated]) (simp add: queue_of_def)
next
  case (Transition n now t reason)
  then show ?case by (rule queue_inv_frame [rotated]) (simp add: transition_def Let_def split: sum.split)
next
  case (Watchdog n now status events)
  then show ?case by (rule queue_inv_frame [rotated]) (simp add: maybeTriggerNoProgressWatchdog_def Let_def)
next
  case (Pace n now k)
  then show ?case by (rule queue_inv_frame [rotated]) (simp add: getNextPollIntervalMs_def Let_def)
next
  case (Store n b)
  from Store(2) show ?case by (rule queue_inv_frame [rotated]) simp
qed

lemma reach_inv: "node_reach flaky n \<Longrightarrow> queue_inv n"
proof (induction rule: node_reach.induct)
  case (Start nid ms now)
  show ?case
    by (simp add: new_node_def queue_inv_def flight_def life_ok_def queued_ids_def pending_ok_def calls_ok_def)
next
  case (Step n n')
  then show ?case by (auto intro: step_inv)
qed

section \<open>The length of the queue\<close>

definition queued_for :: "string \<Rightarrow> envelope list \<Rightarrow> nat" where
  "queued_for mid q = length (filter (\<lambda>e. a_member (env_action e) = mid) q)"

lemma drain_suffix: "\<exists>pre. q = pre @ dispatchQueue (drain_from now q n)"
proof (induction q arbitrary: n)
  case (Cons env q)
  show ?case
  proof (cases "drain_check n env")
    case (Refused st extra)
    let ?n1 = "appendActionLifecycleEvent now env st extra n"
    obtain pre where "q = pre @ dispatchQueue (drain_from now q (?n1\<lparr>queuedActionKeys := queuedActionKeys ?n1 - {getActionKey (env_action env)}\<rparr>))"
      using Cons.IH by blast
    then have "env # q = (env # pre) @ dispatchQueue (drain_from now (env # q) n)"
      by (simp add: Refused Let_def)
    then show ?thesis by blast
  next
    case (Send job)
    then have "env # q = [env] @ dispatchQueue (drain_from now (env # q) n)" by simp
    then show ?thesis by blast
  qed
qed simp

lemma queued_for_suffix: "q = pre @ q' \<Longrightarrow> queued_for mid q' \<le> queued_for mid q"
  by (simp add: queued_for_def)

lemma drain_queued_for: "queued_for mid (dispatchQueue (drain_from now q n)) \<le> queued_for mid q"
  using drain_suffix [of q now n] queued_for_suffix by blast

lemma enqueue_queued_for:
  assumes "enqueue now usage a n = (r, n')" and "\<forall>m. queued_for m (dispatchQueue n) \<le> MAX_QUEUED_ACTIONS_PER_MEMBER"
  shows "queued_for mid (dispatchQueue n') \<le> MAX_QUEUED_ACTIONS_PER_MEMBER"
proof (cases r)
  case None
  then have "dispatchQueue n' = dispatchQueue n"
    using enqueue_none [of now usage a n n'] assms(1) by (simp add: queue_of_def)
  then show ?thesis using assms(2) by simp
next
  case (Some env)
  then have room: "\<not> MAX_QUEUED_ACTIONS_PER_MEMBER \<le> queued_for (a_member a) (dispatchQueue n)"
    using assms(1) by (auto simp: enqueue_def Let_def queued_for_def split: if_splits prod.splits)
  obtain k where "dispatchQueue n' = dispatchQueue n @ [env]" "a_member (env_action env) = a_member a"
    using enqueue_some [of now usage a n env n'] assms(1) Some by (auto simp: pushed_def)
  then show ?thesis
    using room assms(2) by (auto simp: queued_for_def)
qed

lemma poll_row_queue: "dispatchQueue (snd (poll_row now rd row acc)) = dispatchQueue (snd acc)"
proof -
  have ack: "dispatchQueue (maybeAcknowledgeMemberAction now mid n) = dispatchQueue n" for mid n
    by (auto simp: maybeAcknowledgeMemberAction_def clearMemberPendingActionForGeneration_def Let_def split: option.split)
  have "dispatchQueue (snd (observe now rd mid m changes n)) = dispatchQueue n" for mid m changes n
    by (cases "readStatus rd (the (m_job m))") (simp_all add: observe_def Let_def ack)
  moreover have "dispatchQueue (snd (rebind now row g m n)) = dispatchQueue n" for g m n
    using rebind_frame [of now row g m n] by (simp add: queue_of_def)
  ultimately show ?thesis
    by (cases acc; cases "map_get (node_members (snd acc)) (row_member row)")
      (simp_all add: poll_row_def Let_def case_prod_beta)
qed

lemma step_queued_for:
  "node_step flaky n n' \<Longrightarrow> \<forall>m. queued_for m (dispatchQueue n) \<le> MAX_QUEUED_ACTIONS_PER_MEMBER
   \<Longrightarrow> queued_for mid (dispatchQueue n') \<le> MAX_QUEUED_ACTIONS_PER_MEMBER"
proof (induction rule: node_step.induct)
  case (Dispatch a now n usage)
  obtain r n1 where e: "enqueue now usage a n = (r, n1)" by fastforce
  have "queued_for mid (dispatchQueue n1) \<le> MAX_QUEUED_ACTIONS_PER_MEMBER"
    by (rule enqueue_queued_for [OF e Dispatch.prems])
  then show ?case
    using drain_queued_for [of mid now "dispatchQueue n1" "n1\<lparr>isDraining := True\<rparr>"]
    by (cases r) (auto simp: dispatch_begin_def e drainDispatchQueue_def)
next
  case (Dispatch_end n env)
  then show ?case by (simp add: dispatch_end_def split: option.split)
next
  case (Returned n now result)
  show ?case
  proof (cases "in_flight n")
    case None
    then show ?thesis using Returned by (simp add: call_returned_def)
  next
    case (Some env)
    obtain m where "call_returned now result n = drain_from now (dispatchQueue n) m"
      using Some by (cases result) (auto simp: call_returned_def Let_def setMemberPendingActionForGeneration_def)
    then show ?thesis using Returned drain_queued_for [of mid now "dispatchQueue n" m] order_trans by metis
  qed
next
  case (Poll n now rd rows)
  have "dispatchQueue (snd (fold (poll_row now rd) rows acc)) = dispatchQueue (snd acc)" for acc
    by (induction rows arbitrary: acc) (simp_all add: poll_row_queue)
  with Poll show ?case by (simp add: pollMemberStatuses_def)
next
  case (Transition n now t reason)
  then show ?case by (simp add: transition_def Let_def split: sum.split)
next
  case (Watchdog n now status events)
  then show ?case by (simp add: maybeTriggerNoProgressWatchdog_def Let_def)
next
  case (Pace n now k)
  have "dispatchQueue (snd (getNextPollIntervalMs now k n)) = dispatchQueue n"
    by (simp add: getNextPollIntervalMs_def Let_def)
  with Pace show ?case by simp
qed simp_all

lemma reach_queued_for: "node_reach flaky n \<Longrightarrow> queued_for mid (dispatchQueue n) \<le> MAX_QUEUED_ACTIONS_PER_MEMBER"
proof (induction arbitrary: mid rule: node_reach.induct)
  case (Start nid ms now)
  show ?case by (simp add: new_node_def queued_for_def)
next
  case (Step n n')
  then show ?case using step_queued_for by blast
qed

text \<open>Each return of a call shortens what is in flight and queued.\<close>

lemma drain_flight: "length (flight (drain_from now q n)) + length (dispatchQueue (drain_from now q n)) \<le> length q"
  if "in_flight n = None"
  using that
proof (induction q arbitrary: n)
  case (Cons env q)
  show ?case
  proof (cases "drain_check n env")
    case (Refused st extra)
    let ?n1 = "appendActionLifecycleEvent now env st extra n"
    show ?thesis
      using Cons.IH [of "?n1\<lparr>queuedActionKeys := queuedActionKeys ?n1 - {getActionKey (env_action env)}\<rparr>"] Cons.prems
      by (simp add: Refused Let_def)
  qed (simp add: flight_def)
qed (simp add: flight_def)

lemma returned_shorter:
  "length (flight (call_returned now r n)) + length (dispatchQueue (call_returned now r n)) \<le> length (dispatchQueue n)"
proof (cases "in_flight n")
  case None
  then show ?thesis by (simp add: call_returned_def flight_def)
next
  case (Some env)
  obtain m where m: "call_returned now r n = drain_from now (dispatchQueue n) m" "in_flight m = None"
    using Some by (cases r) (auto simp: call_returned_def Let_def setMemberPendingActionForGeneration_def)
  then show ?thesis using drain_flight [OF m(2), of now "dispatchQueue n"] by simp
qed

lemma returns_empty:
  "length (flight n) + length (dispatchQueue n) \<le> length rs \<Longrightarrow> queue_inv n
   \<Longrightarrow> queue_inv (fold (\<lambda>(t, r). call_returned t r) rs n)
     \<and> flight (fold (\<lambda>(t, r). call_returned t r) rs n) @ dispatchQueue (fold (\<lambda>(t, r). call_returned t r) rs n) = []"
proof (induction rs arbitrary: n)
  case Nil
  then show ?case by simp
next
  case (Cons tr rs)
  obtain t r where tr: "tr = (t, r)" by (cases tr)
  have empty: "in_flight n = None \<Longrightarrow> dispatchQueue n = [] \<and> flight n = []"
    using Cons.prems(2) by (simp add: queue_inv_def flight_def)
  have "length (flight (call_returned t r n)) + length (dispatchQueue (call_returned t r n)) \<le> length rs"
    using returned_shorter [of t r n] Cons.prems(1) empty
    by (cases "in_flight n") (simp_all add: flight_def call_returned_def)
  from Cons.IH [OF this returned_inv [OF Cons.prems(2)]] show ?case by (simp add: tr)
qed

lemma none_queued: "queue_inv n \<Longrightarrow> flight n @ dispatchQueue n = [] \<Longrightarrow> map_get (actionLifecycle n) i \<noteq> Some ''queued''"
  using queued_ids_in [of "actionLifecycle n" i] by (auto simp: queue_inv_def life_ok_def)

text \<open>A refusal for a pending action names a written one of the same member and generation.\<close>

lemma refused_for_pending:
  assumes inv: "queue_inv n"
    and r: "drain_check n env = Refused st [(''reason'', JStr ''member_has_pending_action''), (''pending_action_id'', JStr p)]"
  shows "map_get (actionLifecycle n) p = Some ''written''
    \<and> (\<exists>e. map_get (actionById n) p = Some e \<and> a_member (env_action e) = a_member (env_action env) \<and> env_generation e = env_generation env)"
proof -
  have "map_get (memberPendingAction n) (getMemberPendingActionKey (a_member (env_action env)) (env_generation env)) = Some p"
    using r by (auto simp: drain_check_def Let_def getMemberPendingActionForGeneration_def truthy_def
        split: option.splits if_splits)
  then have "map_get (actionLifecycle n) p = Some ''written''"
      "map_option env_key (map_get (actionById n) p) = Some (env_key env)"
    using inv by (auto simp: queue_inv_def pending_ok_def env_key_def)
  then show ?thesis by (auto simp: env_key_def key_inj)
qed

section \<open>Properties\<close>

text \<open>C16. At any moment of any run, store failures included, at most one action per member and
  generation has been written and not acknowledged, none is being sent to a member that has
  one, no action is ever sent to its job twice, and an action is refused for a pending one
  only when a written one of the same member and generation exists.\<close>

theorem one_outstanding:
  assumes "node_reach flaky n"
  shows "(\<forall>i j e f. map_get (actionLifecycle n) i = Some ''written'' \<and> map_get (actionLifecycle n) j = Some ''written''
        \<and> map_get (actionById n) i = Some e \<and> map_get (actionById n) j = Some f
        \<and> a_member (env_action e) = a_member (env_action f) \<and> env_generation e = env_generation f \<longrightarrow> i = j)
    \<and> (\<forall>env i e. in_flight n = Some env \<and> map_get (actionLifecycle n) i = Some ''written'' \<and> map_get (actionById n) i = Some e
        \<longrightarrow> a_member (env_action e) \<noteq> a_member (env_action env) \<or> env_generation e \<noteq> env_generation env)
    \<and> distinct (map fst (calls n))
    \<and> (\<forall>env st p. drain_check n env = Refused st [(''reason'', JStr ''member_has_pending_action''), (''pending_action_id'', JStr p)]
        \<longrightarrow> map_get (actionLifecycle n) p = Some ''written''
          \<and> (\<exists>e. map_get (actionById n) p = Some e \<and> a_member (env_action e) = a_member (env_action env)
               \<and> env_generation e = env_generation env))"
proof -
  have inv: "queue_inv n" by (rule reach_inv [OF assms])
  have pend: "map_get (memberPendingAction n) (env_key e) = Some i"
    if "map_get (actionLifecycle n) i = Some ''written''" "map_get (actionById n) i = Some e" for i e
    using inv that by (simp add: queue_inv_def pending_ok_def)
  have key: "env_key e = env_key f" if "a_member (env_action e) = a_member (env_action f)" "env_generation e = env_generation f" for e f
    using that by (simp add: env_key_def)
  have "i = j" if "map_get (actionLifecycle n) i = Some ''written''" "map_get (actionLifecycle n) j = Some ''written''"
      "map_get (actionById n) i = Some e" "map_get (actionById n) j = Some f"
      "a_member (env_action e) = a_member (env_action f)" "env_generation e = env_generation f" for i j e f
    using pend [OF that(1,3)] pend [OF that(2,4)] key [OF that(5,6)] by simp
  moreover have "a_member (env_action e) \<noteq> a_member (env_action env) \<or> env_generation e \<noteq> env_generation env"
    if "in_flight n = Some env" "map_get (actionLifecycle n) i = Some ''written''" "map_get (actionById n) i = Some e" for env i e
    using pend [OF that(2,3)] key [of e env] inv that(1) by (auto simp: queue_inv_def)
  moreover have "distinct (map fst (calls n))" using inv by (simp add: queue_inv_def calls_ok_def)
  ultimately show ?thesis using refused_for_pending [OF inv] by blast
qed

definition demo_member :: node_member where
  "demo_member = \<lparr>m_job = Some ''j'', m_status = ''waiting'', m_enabled = True, m_hash = None, m_generation = 1\<rparr>"

definition demo_action :: "string \<Rightarrow> string \<Rightarrow> dispatch_action" where
  "demo_action i msg = \<lparr>a_type = ''steer'', a_member = ''m'', a_task = None, a_message = Some msg, a_id = Some i,
     a_generation = None, a_depends = None\<rparr>"

text \<open>A member with a job, an action for it, a second one while the first is in flight, and the
  return of the first call.\<close>

definition demo_node :: node where
  "demo_node = (new_node ''n'' [] 0)\<lparr>node_members := [(''m'', demo_member)], controllers := [''m'']\<rparr>"

definition demo_sent :: node where
  "demo_sent = snd (dispatch_begin 2 (\<lambda>_. None) (demo_action ''b'' ''y'') (snd (dispatch_begin 1 (\<lambda>_. None) (demo_action ''a'' ''x'') demo_node)))"

lemma demo_reach: "node_reach flaky demo_node" "node_reach flaky demo_sent" "node_reach flaky (call_returned 3 (Inr ()) demo_sent)"
proof -
  show n: "node_reach flaky demo_node"
    unfolding demo_node_def by (rule node_reach.Step [OF node_reach.Start node_step.Members])
  have a: "node_reach flaky (snd (dispatch_begin 1 (\<lambda>_. None) (demo_action ''a'' ''x'') demo_node))"
    by (rule node_reach.Step [OF n node_step.Dispatch])
      (simp_all add: well_formed_def demo_action_def id_given_def demo_node_def new_node_def)
  have "map_get (actionLifecycle (snd (dispatch_begin 1 (\<lambda>_. None) (demo_action ''a'' ''x'') demo_node))) ''b'' = None"
    by code_simp
  then show s: "node_reach flaky demo_sent"
    unfolding demo_sent_def
    by (intro node_reach.Step [OF a node_step.Dispatch]) (simp_all add: well_formed_def demo_action_def id_given_def)
  show "node_reach flaky (call_returned 3 (Inr ()) demo_sent)"
    by (rule node_reach.Step [OF s node_step.Returned])
qed

theorem one_outstanding_witness:
  "distinct (map fst (calls (call_returned 3 (Inr ()) demo_sent)))
   \<and> calls (call_returned 3 (Inr ()) demo_sent) = [(''a'', Steer_job ''j'' ''x'')]
   \<and> map_get (actionLifecycle (call_returned 3 (Inr ()) demo_sent)) ''b'' = Some ''failed''"
proof -
  have "calls (call_returned 3 (Inr ()) demo_sent) = [(''a'', Steer_job ''j'' ''x'')]" by code_simp
  moreover have "map_get (actionLifecycle (call_returned 3 (Inr ()) demo_sent)) ''b'' = Some ''failed''" by code_simp
  ultimately show ?thesis using one_outstanding [OF demo_reach(3)] by blast
qed



text \<open>C18. The queue is always being drained and the drain ends: when no call is in flight nothing
  is queued, and once as many calls have returned, with success or error, as actions are in
  flight or queued, every action has been written, refused or has failed.\<close>

theorem queue_drains:
  assumes "node_reach flaky n" and "length (flight n) + length (dispatchQueue n) \<le> length rs"
  shows "(in_flight n = None \<longrightarrow> dispatchQueue n = [] \<and> \<not> isDraining n)
    \<and> (let n' = fold (\<lambda>(t, r). call_returned t r) rs n in
       dispatchQueue n' = [] \<and> in_flight n' = None \<and> (\<forall>i. map_get (actionLifecycle n') i \<noteq> Some ''queued''))"
proof -
  have inv: "queue_inv n" by (rule reach_inv [OF assms(1)])
  note e = returns_empty [OF assms(2) inv]
  have "map_get (actionLifecycle (fold (\<lambda>(t, r). call_returned t r) rs n)) i \<noteq> Some ''queued''" for i
    using e none_queued by blast
  then show ?thesis using e inv by (auto simp: Let_def queue_inv_def flight_def split: option.splits)
qed

theorem queue_drains_witness:
  "let n' = fold (\<lambda>(t, r). call_returned t r) [(3, Inr ()), (4, Inl ''x'')] demo_sent in
   dispatchQueue n' = [] \<and> in_flight n' = None \<and> in_flight demo_sent \<noteq> None"
proof -
  have f: "in_flight demo_sent \<noteq> None" by code_simp
  have l: "length (flight demo_sent) + length (dispatchQueue demo_sent) \<le> length [(3 :: int, Inr ()), (4, Inl ''x'')]"
    by code_simp
  show ?thesis using queue_drains [OF demo_reach(2) l] f by (simp only: Let_def) blast
qed

end
