(* ===== verification/Node_Recovery.thy ===== *)
theory Node_Recovery imports Node_Queue begin

text \<open>
  Restarting a node: what the replay of its events gives back, and the one state a restart
  can leave that no later step repairs.
\<close>

section \<open>A half-recorded acknowledgement\<close>

text \<open>
  The acknowledgement writes the events observed and completed one after the other. After a
  stop between the two, recovery finds the action observed: it is pending, and no step
  completes it.
\<close>

definition half_core :: "string \<Rightarrow> string \<Rightarrow> node \<Rightarrow> bool" where
  "half_core K p n \<longleftrightarrow> p \<noteq> [] \<and> map_get (memberPendingAction n) K = Some p
     \<and> map_get (actionLifecycle n) p = Some ''observed'' \<and> p \<notin> completedActionIds n
     \<and> (\<forall>env \<in> set (dispatchQueue n). env_id env \<noteq> p)
     \<and> (\<forall>env. in_flight n = Some env \<longrightarrow> env_id env \<noteq> p \<and> env_key env \<noteq> K)
     \<and> (\<forall>i env. map_get (actionById n) i = Some env \<longrightarrow> env_id env = i)"

definition half_acknowledged :: "string \<Rightarrow> string \<Rightarrow> node \<Rightarrow> bool" where
  "half_acknowledged K p n \<longleftrightarrow> half_core K p n \<and> (isDraining n \<longleftrightarrow> in_flight n \<noteq> None)"

lemma half_frame: "queue_of n' = queue_of n \<Longrightarrow> half_acknowledged K p n \<Longrightarrow> half_acknowledged K p n'"
  by (simp add: half_acknowledged_def half_core_def queue_of_sel)

lemma half_not_sent: "half_core K p n \<Longrightarrow> env_key env = K \<Longrightarrow> drain_check n env \<noteq> Send job"
  by (auto simp: half_core_def drain_check_def Let_def env_key_def getMemberPendingActionForGeneration_def truthy_def
      split: option.splits if_splits)

lemma half_drain:
  "half_core K p n \<Longrightarrow> in_flight n = None \<Longrightarrow> isDraining n \<Longrightarrow> \<forall>env \<in> set q. env_id env \<noteq> p
   \<Longrightarrow> half_acknowledged K p (drain_from now q n)"
proof (induction q arbitrary: n)
  case Nil
  then show ?case by (simp add: half_acknowledged_def half_core_def)
next
  case (Cons env q)
  show ?case
  proof (cases "drain_check n env")
    case (Refused st extra)
    let ?n1 = "appendActionLifecycleEvent now env st extra n"
    have "half_core K p (?n1\<lparr>queuedActionKeys := queuedActionKeys ?n1 - {getActionKey (env_action env)}\<rparr>)"
      using Cons.prems by (simp add: half_core_def map_get_set)
    from Cons.IH [OF this] Cons.prems Refused show ?thesis by (simp add: Let_def)
  next
    case (Send job)
    then have "env_key env \<noteq> K" using half_not_sent [OF Cons.prems(1)] by auto
    then show ?thesis using Cons.prems Send by (auto simp: half_acknowledged_def half_core_def)
  qed
qed

lemma half_acknowledge:
  assumes h: "half_acknowledged K p n"
  shows "half_acknowledged K p (maybeAcknowledgeMemberAction now mid n)"
proof (cases "\<exists>m i env. map_get (node_members n) mid = Some m \<and> map_get (memberPendingAction n) (getMemberPendingActionKey mid (m_generation m)) = Some i
    \<and> map_get (actionById n) i = Some env \<and> map_get (actionLifecycle n) i = Some ''written'' \<and> i \<noteq> []")
  case False
  then have "maybeAcknowledgeMemberAction now mid n = n"
    by (auto simp: maybeAcknowledgeMemberAction_def getMemberPendingActionForGeneration_def truthy_def Let_def split: option.splits)
  then show ?thesis using h by simp
next
  case True
  then obtain m i env where e: "map_get (node_members n) mid = Some m"
      "map_get (memberPendingAction n) (getMemberPendingActionKey mid (m_generation m)) = Some i"
      "map_get (actionById n) i = Some env" "map_get (actionLifecycle n) i = Some ''written''" "i \<noteq> []" by blast
  then have "i \<noteq> p" "env_id env = i" "getMemberPendingActionKey mid (m_generation m) \<noteq> K"
    using h by (auto simp: half_acknowledged_def half_core_def)
  then show ?thesis
    using h e by (simp add: maybeAcknowledgeMemberAction_def getMemberPendingActionForGeneration_def truthy_def Let_def
        clearMemberPendingActionForGeneration_def half_acknowledged_def half_core_def map_get_set map_get_delete)
qed

lemma half_poll_row: "half_acknowledged K p (snd acc) \<Longrightarrow> half_acknowledged K p (snd (poll_row now rd row acc))"
proof -
  assume h: "half_acknowledged K p (snd acc)"
  have observe: "half_acknowledged K p (snd (observe now rd mid m changes n))" if n: "half_acknowledged K p n" for mid m changes n
  proof -
    have "half_acknowledged K p (n\<lparr>node_members := ms\<rparr>)" for ms
      by (rule half_frame [OF _ n]) simp
    then show ?thesis
      using n by (cases "readStatus rd (the (m_job m))") (simp_all add: observe_def Let_def half_acknowledge)
  qed
  have "half_acknowledged K p (snd (rebind now row g m n))" if "half_acknowledged K p n" for g m n
    by (rule half_frame [OF rebind_frame that])
  then show ?thesis
    using h by (cases acc; cases "map_get (node_members (snd acc)) (row_member row)")
      (simp_all add: poll_row_def Let_def case_prod_beta observe)
qed

lemma half_dispatch:
  assumes h: "half_acknowledged K p n" and fresh: "map_get (actionLifecycle n) (id_given now a n) = None"
  shows "half_acknowledged K p (snd (dispatch_begin now usage a n))"
proof (cases "enqueue now usage a n")
  case (Pair r n1)
  show ?thesis
  proof (cases r)
    case None
    then show ?thesis using half_frame [OF enqueue_none [of now usage a n n1] h] Pair by (simp add: dispatch_begin_def)
  next
    case (Some env)
    have i: "env_id env = id_given now a n" using enqueue_some [of now usage a n env n1] Pair Some by simp
    obtain k where n1: "n1 = appendActionLifecycleEvent now env ''queued'' [(''action'', action_json_of (env_action env))] (pushed k env n)"
      using enqueue_some [of now usage a n env n1] Pair Some by blast
    have "env_id env \<noteq> p" using h fresh i by (auto simp: half_acknowledged_def half_core_def)
    then have h1: "half_acknowledged K p n1"
      using h by (auto simp: half_acknowledged_def half_core_def n1 pushed_def map_get_set)
    have "half_acknowledged K p (drain_from now (dispatchQueue n1) (n1\<lparr>isDraining := True\<rparr>))" if "\<not> isDraining n1"
      by (rule half_drain) (use h1 that in \<open>auto simp: half_acknowledged_def half_core_def\<close>)
    then show ?thesis using h1 by (simp add: dispatch_begin_def Pair Some drainDispatchQueue_def)
  qed
qed

lemma half_returned: "half_acknowledged K p n \<Longrightarrow> half_acknowledged K p (call_returned now result n)"
proof (cases "in_flight n")
  case None
  then show "half_acknowledged K p n \<Longrightarrow> ?thesis" by (simp add: call_returned_def)
next
  case (Some env)
  assume h: "half_acknowledged K p n"
  define n1 where "n1 = (case result of
      Inr _ \<Rightarrow> appendActionLifecycleEvent now env ''written'' []
        (setMemberPendingActionForGeneration (a_member (env_action env)) (env_generation env) (env_id env) n)
    | Inl msg \<Rightarrow> appendActionLifecycleEvent now env ''failed'' [(''reason'', JStr msg)] n)"
  define n2 where "n2 = n1\<lparr>queuedActionKeys := queuedActionKeys n1 - {getActionKey (env_action env)}, in_flight := None\<rparr>"
  have "half_core K p n2" "isDraining n2" "in_flight n2 = None" "\<forall>env \<in> set (dispatchQueue n1). env_id env \<noteq> p"
    using h Some by (cases result; simp add: n2_def n1_def half_acknowledged_def half_core_def map_get_set env_key_def
        setMemberPendingActionForGeneration_def)+
  from half_drain [OF this(1,3,2,4), of now] Some show ?thesis
    by (simp add: call_returned_def Let_def n1_def [symmetric] n2_def [symmetric])
qed

lemma half_step: "node_step flaky n n' \<Longrightarrow> half_acknowledged K p n \<Longrightarrow> half_acknowledged K p n'"
proof (induction rule: node_step.induct)
  case (Dispatch a now n usage)
  then show ?case by (intro half_dispatch)
next
  case (Dispatch_end n env)
  then show ?case by (rule half_frame [rotated]) (simp add: dispatch_end_def split: option.split)
next
  case (Returned n now result)
  then show ?case by (rule half_returned)
next
  case (Poll n now rd rows)
  have "half_acknowledged K p (snd (fold (poll_row now rd) rows acc))" if "half_acknowledged K p (snd acc)" for acc
    using that by (induction rows arbitrary: acc) (simp_all add: half_poll_row)
  moreover have "half_acknowledged K p (n\<lparr>pollSequence := pollSequence n + 1\<rparr>)"
    by (rule half_frame [OF _ Poll]) simp
  ultimately show ?case by (simp add: pollMemberStatuses_def)
next
  case (Members n ms cs)
  then show ?case by (rule half_frame [rotated]) (simp add: queue_of_def)
next
  case (Transition n now t reason)
  then show ?case by (rule half_frame [rotated]) (simp add: transition_def Let_def split: sum.split)
next
  case (Watchdog n now status events)
  then show ?case by (rule half_frame [rotated]) (simp add: maybeTriggerNoProgressWatchdog_def Let_def)
next
  case (Pace n now k)
  then show ?case by (rule half_frame [rotated]) (simp add: getNextPollIntervalMs_def Let_def)
next
  case (Store n b)
  from Store(2) show ?case by (rule half_frame [rotated]) simp
qed

lemma half_steps: "(node_step flaky)\<^sup>*\<^sup>* n n' \<Longrightarrow> half_acknowledged K p n \<Longrightarrow> half_acknowledged K p n'"
  by (induction rule: rtranclp_induct) (auto intro: half_step)

section \<open>Replaying the events\<close>

text \<open>An envelope as \<open>dispatchAction\<close> builds it.\<close>

definition env_wf :: "envelope \<Rightarrow> bool" where
  "env_wf env \<longleftrightarrow> env_id env \<noteq> [] \<and> well_formed (env_action env) \<and> a_id (env_action env) = Some (env_id env)
     \<and> a_generation (env_action env) = Some (env_generation env) \<and> a_depends (env_action env) = env_depends env"

text \<open>The events of an action, with the action itself (\<open>queued\<close>) or without.\<close>

lemma map_get_opt_key: "map_get (opt_key k v @ m) k' = (if k = k' then nullish v (map_get m k') else map_get m k')"
  by (cases v) (auto simp: opt_key_def)

lemma map_get_opt_key_last: "map_get (opt_key k v) k' = (if k = k' then v else None)"
  by (cases v) (auto simp: opt_key_def)

lemma restore_action_json:
  assumes "env_wf env"
  shows "restored (a_type (env_action env)) (a_member (env_action env)) (action_json_of (env_action env)) (env_id env)
      (env_generation env) (env_depends env) = env"
proof -
  have t: "str_field (action_json_of a) ''task'' = a_task a" "str_field (action_json_of a) ''message'' = a_message a" for a
    by (cases "a_task a"; cases "a_message a"; simp add: str_field_def action_json_of_def map_get_opt_key map_get_opt_key_last)+
  show ?thesis
    using assms by (cases env; cases "env_action env") (simp add: restored_def env_wf_def t)
qed

lemma restore_queued:
  assumes "env_wf env"
  shows "restoreActionFromEvent (Text (JObj (set_all (lifecycle_entries n env) [(''action'', action_json_of (env_action env))]))) = Some env"
proof -
  have a: "str_field (action_json_of (env_action env)) ''actionId'' = Some (env_id env)"
      "str_field (action_json_of (env_action env)) ''memberId'' = Some (a_member (env_action env))"
      "str_field (action_json_of (env_action env)) ''type'' = Some (a_type (env_action env))"
      "num_field (action_json_of (env_action env)) ''targetGeneration'' = Some (env_generation env)"
      "str_field (action_json_of (env_action env)) ''dependsOnActionId'' = env_depends env"
    using assms
    by (cases "env_depends env"; simp add: str_field_def num_field_def action_json_of_def map_get_opt_key map_get_opt_key_last env_wf_def)+
  have d: "nullish (env_depends env) (str_field (JObj (set_all (lifecycle_entries n env) [(''action'', action_json_of (env_action env))]))
      ''depends_on_action_id'') = env_depends env"
    by (cases "env_depends env") (simp_all add: str_field_def lifecycle_entries_def null_or_def)
  obtain m where m: "action_json_of (env_action env) = JObj m" by (simp add: action_json_of_def)
  show ?thesis
    using assms a d restore_action_json [OF assms]
    by (auto simp: restoreActionFromEvent_def restore_payload_def lifecycle_entries_def m truthy_def env_wf_def well_formed_def)
qed

definition plain_extra :: "(string \<times> json) list \<Rightarrow> bool" where
  "plain_extra extra \<longleftrightarrow> fst ` set extra
     \<inter> {''action'', ''action_id'', ''member_id'', ''action_type'', ''target_generation'', ''depends_on_action_id''} = {}"

lemma restore_plain:
  assumes "env_wf env" and "plain_extra extra"
  shows "\<exists>e. restoreActionFromEvent (Text (JObj (set_all (lifecycle_entries n env) extra))) = Some e
    \<and> env_id e = env_id env \<and> env_key e = env_key env \<and> a_member (env_action e) = a_member (env_action env)
    \<and> env_generation e = env_generation env"
proof -
  let ?p = "JObj (set_all (lifecycle_entries n env) extra)"
  have f: "field ?p k = map_get (lifecycle_entries n env) k"
    if "k \<in> {''action'', ''action_id'', ''member_id'', ''action_type'', ''target_generation'', ''depends_on_action_id''}" for k
  proof -
    have "k \<notin> fst ` set extra" using assms(2) that unfolding plain_extra_def by blast
    then show ?thesis by (simp add: map_get_set_all_other)
  qed
  have "field ?p ''action'' = None" "str_field ?p ''action_id'' = Some (env_id env)"
      "str_field ?p ''member_id'' = Some (a_member (env_action env))" "str_field ?p ''action_type'' = Some (a_type (env_action env))"
      "num_field ?p ''target_generation'' = Some (env_generation env)"
    unfolding str_field_def num_field_def by (simp_all add: f del: field_JObj) (simp_all add: lifecycle_entries_def)
  then show ?thesis
    using assms(1)
    by (auto simp: restoreActionFromEvent_def restore_payload_def truthy_def env_wf_def well_formed_def restored_def env_key_def
        simp del: field_JObj)
qed

lemma drop_action_prefix: "drop (length ''action_'') (''action_'' @ st) = st" "starts_with ''action_'' (''action_'' @ st)"
  by simp_all

section \<open>The node and its events agree\<close>

text \<open>The replay of all the events of \<open>n\<close> from a fresh node \<open>b\<close>, before the queue is rebuilt.\<close>

definition replayed :: "node \<Rightarrow> node \<Rightarrow> (string, envelope) js_map \<times> node" where
  "replayed b n = fold replay_event (node_events n) ([], b)"

definition agrees :: "envelope list \<Rightarrow> node \<Rightarrow> (string, envelope) js_map \<times> node \<Rightarrow> bool" where
  "agrees q n r \<longleftrightarrow>
     actionLifecycle (snd r) = actionLifecycle n \<and> completedActionIds (snd r) = completedActionIds n
   \<and> memberPendingAction (snd r) = memberPendingAction n \<and> dispatchQueue (snd r) = []
   \<and> map fst (fst r) = map fst (actionLifecycle n)
   \<and> (\<forall>(i, e) \<in> set (fst r). env_id e = i)
   \<and> (\<forall>i. map_option env_key (map_get (fst r) i) = map_option env_key (map_get (actionById n) i))
   \<and> (\<forall>env \<in> set q. map_get (fst r) (env_id env) = Some env)"

definition recoverable :: "node \<Rightarrow> envelope list \<Rightarrow> node \<Rightarrow> bool" where
  "recoverable b q n \<longleftrightarrow> store_up n \<and> agrees q n (replayed b n)
     \<and> (\<forall>i env. map_get (actionById n) i = Some env \<longrightarrow> env_wf env)"

lemma fst_map_set: "map fst (map_set m k v) = (if k \<in> fst ` set m then map fst m else map fst m @ [k])"
  by (induction m k v rule: map_set.induct) auto

lemma in_map_set: "(i, e) \<in> set (map_set m k v) \<Longrightarrow> (i, e) = (k, v) \<or> (i, e) \<in> set m"
  by (induction m k v rule: map_set.induct) (auto split: if_splits)

text \<open>An event that is no action's leaves what is replayed.\<close>

definition other_event :: "node_event \<Rightarrow> bool" where
  "other_event e \<longleftrightarrow> \<not> starts_with ''action_'' (ne_type e) \<or> restoreActionFromEvent (ne_json e) = None"

lemma replay_other: "other_event e \<Longrightarrow> fst (replay_event e r) = fst r \<and> queue_of (snd (replay_event e r)) = queue_of (snd r)"
  by (cases r) (auto simp: other_event_def replay_event_def queue_of_def split: option.splits)

lemma replayed_snoc: "node_events n' = node_events n @ [e] \<Longrightarrow> replayed b n' = replay_event e (replayed b n)"
  by (simp add: replayed_def)

lemma recoverable_other:
  assumes r: "recoverable b q n" and q: "queue_of n' = queue_of n" "store_up n' = store_up n"
    and e: "node_events n' = node_events n \<or> (\<exists>e. other_event e \<and> node_events n' = node_events n @ [e])"
  shows "recoverable b q n'"
proof -
  have "fst (replayed b n') = fst (replayed b n) \<and> queue_of (snd (replayed b n')) = queue_of (snd (replayed b n))"
    using e
  proof
    assume "node_events n' = node_events n"
    then show ?thesis by (simp add: replayed_def)
  next
    assume "\<exists>e. other_event e \<and> node_events n' = node_events n @ [e]"
    then obtain e where "other_event e" "node_events n' = node_events n @ [e]" by blast
    then show ?thesis using replay_other [of e "replayed b n"] replayed_snoc [of n' n e b] by simp
  qed
  then show ?thesis
    using r q by (simp add: recoverable_def agrees_def queue_of_sel)
qed

text \<open>An event of a known action.\<close>

lemma persisted_event:
  "store_up n \<Longrightarrow> node_events (appendActionLifecycleEvent now env st extra n)
     = node_events n @ [\<lparr>ne_t = now, ne_type = ''action_'' @ st, ne_json = Text (JObj (set_all (lifecycle_entries n env) extra))\<rparr>]"
  by (simp add: appendActionLifecycleEvent_def persistNodeEvent_def lifecycle_entries_def)

lemma replay_action_event:
  assumes "restoreActionFromEvent (Text payload) = Some e" and "env_key e = env_key env" "env_id e = env_id env"
    and "r' = replay_event \<lparr>ne_t = now, ne_type = ''action_'' @ st, ne_json = Text payload\<rparr> r"
  shows "fst r' = map_set (fst r) (env_id env) e" "actionLifecycle (snd r') = map_set (actionLifecycle (snd r)) (env_id env) st"
    "dispatchQueue (snd r') = dispatchQueue (snd r)"
    "completedActionIds (snd r') = (if st = ''completed'' then insert (env_id env) else id) (completedActionIds (snd r))"
    "memberPendingAction (snd r') = (if st = ''completed'' then map_delete (memberPendingAction (snd r)) (env_key env)
       else if st = ''written'' then map_set (memberPendingAction (snd r)) (env_key env) (env_id env) else memberPendingAction (snd r))"
  using assms
  by (cases r; simp add: replay_event_def replay_action_def clearMemberPendingActionForGeneration_def
      setMemberPendingActionForGeneration_def env_key_def [symmetric] Let_def)+

lemma recoverable_same:
  "\<lbrakk>recoverable b q n; set q' \<subseteq> set q; actionLifecycle m = actionLifecycle n; completedActionIds m = completedActionIds n;
    memberPendingAction m = memberPendingAction n; actionById m = actionById n; node_events m = node_events n; store_up m = store_up n\<rbrakk>
   \<Longrightarrow> recoverable b q' m"
  by (auto simp: recoverable_def agrees_def replayed_def)

lemma recoverable_lifecycle:
  assumes r: "recoverable b q0 n" and known: "map_get (actionById n) (env_id env) = Some env" "map_get (actionLifecycle n) (env_id env) \<noteq> None"
    and x: "plain_extra extra" and q: "\<forall>e \<in> set q. e \<in> set q0 \<and> env_id e \<noteq> env_id env"
    and ev: "node_events m = node_events n
        @ [\<lparr>ne_t = now, ne_type = ''action_'' @ st, ne_json = Text (JObj (set_all (lifecycle_entries n0 env) extra))\<rparr>]"
    and same: "actionLifecycle m = map_set (actionLifecycle n) (env_id env) st" "actionById m = actionById n" "store_up m"
      "completedActionIds m = (if st = ''completed'' then insert (env_id env) else id) (completedActionIds n)"
      "memberPendingAction m = (if st = ''completed'' then map_delete (memberPendingAction n) (env_key env)
         else if st = ''written'' then map_set (memberPendingAction n) (env_key env) (env_id env) else memberPendingAction n)"
  shows "recoverable b q m"
proof -
  have wf: "env_wf env" and a: "agrees q0 n (replayed b n)" using r known by (auto simp: recoverable_def)
  obtain e where e: "restoreActionFromEvent (Text (JObj (set_all (lifecycle_entries n0 env) extra))) = Some e"
      "env_key e = env_key env" "env_id e = env_id env" using restore_plain [OF wf x] by blast
  let ?r = "replayed b n"
  have m: "replayed b m = replay_event \<lparr>ne_t = now, ne_type = ''action_'' @ st, ne_json = Text (JObj (set_all (lifecycle_entries n0 env) extra))\<rparr> ?r"
    by (rule replayed_snoc [OF ev])
  note f = replay_action_event [OF e m]
  have keys: "map fst (fst ?r) = map fst (actionLifecycle n)" using a by (simp add: agrees_def)
  then have "fst ` set (fst ?r) = fst ` set (actionLifecycle n)" by (metis list.set_map)
  then have "map fst (fst (replayed b m)) = map fst (actionLifecycle m)"
    unfolding f(1) same(1) fst_map_set using keys by simp
  moreover have "\<forall>(i, e) \<in> set (fst (replayed b m)). env_id e = i"
    using a e(3) in_map_set [of _ _ "fst ?r" "env_id env" e] unfolding f(1) agrees_def by blast
  moreover have "map_option env_key (map_get (fst (replayed b m)) i) = map_option env_key (map_get (actionById m) i)" for i
    using a e(2) known(1) by (auto simp: f(1) same(2) map_get_set agrees_def)
  moreover have "\<forall>e \<in> set q. map_get (fst (replayed b m)) (env_id e) = Some e"
    using a q by (auto simp: f(1) map_get_set agrees_def)
  ultimately have "agrees q m (replayed b m)"
    using a f(2-5) same by (simp add: agrees_def)
  then show ?thesis using r same by (simp add: recoverable_def)
qed

lemma recoverable_enter:
  assumes r: "recoverable b q n" and life: "life_ok q n" and fresh: "map_get (actionLifecycle n) (env_id env) = None" and wf: "env_wf env"
  shows "recoverable b (q @ [env])
    (appendActionLifecycleEvent now env ''queued'' [(''action'', action_json_of (env_action env))] (pushed k env n))" (is "recoverable b _ ?m")
proof -
  let ?r = "replayed b n" and ?p = "JObj (set_all (lifecycle_entries (pushed k env n) env) [(''action'', action_json_of (env_action env))])"
  have a: "agrees q n ?r" and up: "store_up n" using r by (auto simp: recoverable_def)
  have ev: "node_events ?m = node_events n @ [\<lparr>ne_t = now, ne_type = ''action_'' @ ''queued'', ne_json = Text ?p\<rparr>]"
    by (subst persisted_event) (simp_all add: pushed_def up)
  have m: "replayed b ?m = replay_event \<lparr>ne_t = now, ne_type = ''action_'' @ ''queued'', ne_json = Text ?p\<rparr> ?r"
    by (rule replayed_snoc [OF ev])
  note f = replay_action_event [OF restore_queued [OF wf] refl refl m]
  have same: "actionLifecycle ?m = map_set (actionLifecycle n) (env_id env) ''queued''"
      "actionById ?m = map_set (actionById n) (env_id env) env" "completedActionIds ?m = completedActionIds n"
      "memberPendingAction ?m = memberPendingAction n" "store_up ?m"
    by (simp_all add: pushed_def up)
  have others: "env_id env \<noteq> env_id e" if "e \<in> set q" for e
    using that life fresh queued_ids_in [of "actionLifecycle n" "env_id e"] by (auto simp: life_ok_def)
  have keys: "map fst (fst ?r) = map fst (actionLifecycle n)" using a by (simp add: agrees_def)
  then have "fst ` set (fst ?r) = fst ` set (actionLifecycle n)" by (metis list.set_map)
  then have "map fst (fst (replayed b ?m)) = map fst (actionLifecycle ?m)"
    unfolding f(1) same(1) fst_map_set using keys by simp
  moreover have "\<forall>(i, e) \<in> set (fst (replayed b ?m)). env_id e = i"
    using a in_map_set [of _ _ "fst ?r" "env_id env" env] unfolding f(1) agrees_def by blast
  moreover have "map_option env_key (map_get (fst (replayed b ?m)) i) = map_option env_key (map_get (actionById ?m) i)" for i
    using a unfolding f(1) same(2) by (simp add: map_get_set agrees_def)
  moreover have "\<forall>e \<in> set (q @ [env]). map_get (fst (replayed b ?m)) (env_id e) = Some e"
    using a others unfolding f(1) by (auto simp: map_get_set agrees_def)
  ultimately have "agrees (q @ [env]) ?m (replayed b ?m)"
    using a f(2-5) same by (simp add: agrees_def)
  moreover have "\<forall>i e. map_get (actionById ?m) i = Some e \<longrightarrow> env_wf e"
    using r wf unfolding same(2) by (auto simp: recoverable_def map_get_set)
  ultimately show ?thesis using same(5) by (simp add: recoverable_def)
qed

lemma refusal_plain: "drain_check n env = Refused st extra \<Longrightarrow> plain_extra extra"
proof -
  have "case drain_check n env of Refused st extra \<Rightarrow> plain_extra extra | Send job \<Rightarrow> True"
    unfolding drain_check_def Let_def
    by (cases "map_get (node_members n) (a_member (env_action env))") (simp_all add: plain_extra_def)
  then show "drain_check n env = Refused st extra \<Longrightarrow> ?thesis" by simp
qed

lemma drain_recoverable:
  "core q n \<Longrightarrow> recoverable b q n \<Longrightarrow> in_flight n = None
   \<Longrightarrow> recoverable b (flight (drain_from now q n) @ dispatchQueue (drain_from now q n)) (drain_from now q n)"
proof (induction q arbitrary: n)
  case Nil
  then show ?case by (auto simp: flight_def intro: recoverable_same)
next
  case (Cons env q)
  show ?case
  proof (cases "drain_check n env")
    case (Refused st extra)
    let ?n1 = "appendActionLifecycleEvent now env st extra n"
    let ?n2 = "?n1\<lparr>queuedActionKeys := queuedActionKeys ?n1 - {getActionKey (env_action env)}\<rparr>"
    have st: "st \<in> {''failed'', ''superseded''}" by (rule refused_state [OF Refused])
    have life: "life_ok (env # q) n" using Cons.prems(1) by (simp add: core_def)
    have up: "store_up n" using Cons.prems(2) by (simp add: recoverable_def)
    have known: "map_get (actionById n) (env_id env) = Some env" using life by (simp add: life_ok_def)
    have queued: "map_get (actionLifecycle n) (env_id env) \<noteq> None" using head_queued [OF life] by simp
    have others: "\<forall>e \<in> set q. e \<in> set (env # q) \<and> env_id e \<noteq> env_id env"
      using head_fresh [OF life] by (metis imageI list.set_intros(2))
    have final: "st \<noteq> ''completed''" "st \<noteq> ''written''" using st by auto
    have "recoverable b q ?n1"
      by (rule recoverable_lifecycle [OF Cons.prems(2) known queued refusal_plain [OF Refused] others persisted_event [OF up]])
        (simp_all add: final up)
    then have "recoverable b q ?n2" by (rule recoverable_same) simp_all
    moreover have "core q ?n2"
      by (rule core_frame [OF refuse_core [OF Cons.prems(1) st]]) simp
    ultimately show ?thesis using Cons.IH [of ?n2] Cons.prems(3) Refused by (simp add: Let_def)
  next
    case (Send job)
    then show ?thesis using Cons.prems(2) by (auto simp: flight_def intro: recoverable_same)
  qed
qed

lemma recoverable_persist:
  "recoverable b q n \<Longrightarrow> other_event \<lparr>ne_t = now, ne_type = ty, ne_json = Text (JObj obj)\<rparr> \<Longrightarrow> recoverable b q (persistNodeEvent now ty obj n)"
  by (rule recoverable_other) (auto simp: persistNodeEvent_def recoverable_def queue_of_def)

lemma not_action [simp]: "\<not> starts_with ''action_'' ty \<Longrightarrow> other_event \<lparr>ne_t = t, ne_type = ty, ne_json = j\<rparr>"
  by (simp add: other_event_def)

definition whole :: "node \<Rightarrow> node \<Rightarrow> bool" where
  "whole b n \<longleftrightarrow> queue_inv n \<and> recoverable b (flight n @ dispatchQueue n) n"

lemma whole_frame:
  assumes w: "whole b n" and q: "queue_of m = queue_of n" "store_up m = store_up n"
    and e: "node_events m = node_events n \<or> (\<exists>e. other_event e \<and> node_events m = node_events n @ [e])"
  shows "whole b m"
proof -
  have same: "flight m @ dispatchQueue m = flight n @ dispatchQueue n" using q(1) by (simp add: flight_def queue_of_sel)
  show ?thesis
    using w queue_inv_frame [OF q(1)] recoverable_other [OF _ q e] unfolding whole_def same by blast
qed

lemma dropped_other: "plain_extra extra \<Longrightarrow> other_event \<lparr>ne_t = now, ne_type = ''action_dropped'', ne_json = Text (JObj
    ([(''node_id'', i), (''member_id'', m), (''action_type'', ty), (''reason'', r)] @ extra @ [(''target_generation'', g)]))\<rparr>"
proof -
  assume x: "plain_extra extra"
  have "map_get (xs @ ys) k = (case map_get xs k of None \<Rightarrow> map_get ys k | v \<Rightarrow> v)" for xs ys :: "(string \<times> json) list" and k
    by (induction xs) auto
  moreover have "map_get extra ''action'' = None" "map_get extra ''action_id'' = None"
    using x by (auto simp: plain_extra_def map_get_None_iff)
  ultimately show ?thesis
    by (simp add: other_event_def restoreActionFromEvent_def restore_payload_def str_field_def truthy_def Let_def)
qed

lemma drop_whole:
  assumes "whole b n" and x: "plain_extra extra"
  shows "whole b (drop_action now a reason extra g n)"
proof (rule whole_frame [OF assms(1)])
  show "node_events (drop_action now a reason extra g n) = node_events n
      \<or> (\<exists>e. other_event e \<and> node_events (drop_action now a reason extra g n) = node_events n @ [e])"
    using dropped_other [OF x] unfolding drop_action_def persistNodeEvent_def by (cases "store_up n") auto
qed (simp_all add: drop_action_def)

lemma enqueue_none_whole:
  assumes w: "whole b n" and e: "enqueue now usage a n = (None, n')"
  shows "whole b n'"
proof -
  obtain i n1 where i: "nextActionId now n = (i, n1)" by fastforce
  have n1: "n1 = n\<lparr>nextActionSequence := nextActionSequence n + 1\<rparr>"
    using nextActionId_frame [of now n] i by simp
  have w1: "whole b n1"
    by (rule whole_frame [OF w]) (simp_all add: n1 queue_of_def)
  have "plain_extra []" "plain_extra [(''queued_for_member'', x), (''queue_limit'', y)]"
      "plain_extra [(''member_status'', x), (''member_enabled'', y)]" for x y
    by (simp_all add: plain_extra_def)
  note drop = drop_whole [OF w this(1)] drop_whole [OF w1 this(1)] drop_whole [OF w this(2)] drop_whole [OF w this(3)]
  show ?thesis
  proof (cases "a_id a")
    case None
    then show ?thesis using e drop by (auto simp: enqueue_def Let_def i split: if_splits)
  next
    case (Some j)
    then show ?thesis using e drop by (auto simp: enqueue_def Let_def split: if_splits)
  qed
qed

lemma dispatch_whole:
  assumes w: "whole b n" and a: "well_formed a" and fresh: "id_given now a n \<noteq> []" "map_get (actionLifecycle n) (id_given now a n) = None"
  shows "whole b (snd (dispatch_begin now usage a n))"
proof (cases "enqueue now usage a n")
  case (Pair r n1)
  show ?thesis
  proof (cases r)
    case None
    then show ?thesis using enqueue_none_whole [OF w] Pair by (simp add: dispatch_begin_def)
  next
    case (Some env)
    have e: "enqueue now usage a n = (Some env, n1)" using Pair Some by simp
    note es = enqueue_some [OF e]
    obtain k where n1: "n1 = appendActionLifecycleEvent now env ''queued'' [(''action'', action_json_of (env_action env))] (pushed k env n)"
      using es by blast
    have i: "env_id env = id_given now a n" "env_depends env = a_depends a"
        "env_action env = a\<lparr>a_id := Some (env_id env), a_generation := Some (env_generation env)\<rparr>"
      using es by blast+
    have wf: "env_wf env" using a fresh(1) i(1,2) by (simp add: env_wf_def well_formed_def i(3))
    have inv: "queue_inv n" and rec: "recoverable b (flight n @ dispatchQueue n) n" using w by (auto simp: whole_def)
    have life: "life_ok (flight n @ dispatchQueue n) n" using inv by (simp add: queue_inv_def)
    have rec1: "recoverable b ((flight n @ dispatchQueue n) @ [env]) n1"
      unfolding n1 by (rule recoverable_enter [OF rec life _ wf]) (simp add: fresh i)
    have inv': "queue_inv (snd (dispatch_begin now usage a n))" by (rule dispatch_inv [OF inv fresh])
    show ?thesis
    proof (cases "isDraining n")
      case True
      then have "snd (dispatch_begin now usage a n) = n1"
        using Pair Some by (simp add: dispatch_begin_def drainDispatchQueue_def n1 pushed_def)
      then show ?thesis using rec1 inv' by (simp add: whole_def n1 pushed_def flight_def)
    next
      case False
      then have idle: "in_flight n = None" "dispatchQueue n = []" using inv by (auto simp: queue_inv_def)
      have fl: "flight n = []" by (simp add: flight_def idle)
      let ?n2 = "n1\<lparr>isDraining := True\<rparr>"
      have d: "snd (dispatch_begin now usage a n) = drain_from now [env] ?n2"
        using Pair Some False idle by (simp add: dispatch_begin_def drainDispatchQueue_def n1 pushed_def)
      note n1' = enqueue_inv [OF inv e fresh]
      have "core [env] n1" using n1' by (simp add: core_def fl idle)
      then have core: "core [env] ?n2" by (simp add: core_def life_ok_def pending_ok_def calls_ok_def)
      have "recoverable b [env] ?n2"
        by (rule recoverable_same [OF rec1]) (simp_all add: fl idle)
      from drain_recoverable [OF core this] idle inv' show ?thesis
        unfolding d whole_def by (simp add: n1 pushed_def)
    qed
  qed
qed

lemma returned_whole:
  assumes w: "whole b n"
  shows "whole b (call_returned now result n)"
proof (cases "in_flight n")
  case None
  then show ?thesis using w by (simp add: call_returned_def)
next
  case (Some env)
  let ?n0 = "setMemberPendingActionForGeneration (a_member (env_action env)) (env_generation env) (env_id env) n"
  define n1 where "n1 = (case result of
      Inr _ \<Rightarrow> appendActionLifecycleEvent now env ''written'' [] ?n0
    | Inl msg \<Rightarrow> appendActionLifecycleEvent now env ''failed'' [(''reason'', JStr msg)] n)"
  define n2 where "n2 = n1\<lparr>queuedActionKeys := queuedActionKeys n1 - {getActionKey (env_action env)}, in_flight := None\<rparr>"
  have inv: "queue_inv n" and fl: "flight n = [env]" using w Some by (auto simp: whole_def flight_def)
  have rec: "recoverable b (env # dispatchQueue n) n" and up: "store_up n"
    using w fl by (auto simp: whole_def recoverable_def)
  have life: "life_ok (env # dispatchQueue n) n" using inv fl by (simp add: queue_inv_def)
  have known: "map_get (actionById n) (env_id env) = Some env" using life by (simp add: life_ok_def)
  have queued: "map_get (actionLifecycle n) (env_id env) \<noteq> None" using head_queued [OF life] by simp
  have others: "\<forall>e \<in> set (dispatchQueue n). e \<in> set (env # dispatchQueue n) \<and> env_id e \<noteq> env_id env"
    using head_fresh [OF life] by (metis imageI list.set_intros(2))
  have "recoverable b (dispatchQueue n) n1"
  proof (cases result)
    case (Inl msg)
    have x: "plain_extra [(''reason'', JStr msg)]" by (simp add: plain_extra_def)
    show ?thesis unfolding n1_def Inl sum.case
      by (rule recoverable_lifecycle [OF rec known queued x others persisted_event [OF up]]) (simp_all add: up)
  next
    case (Inr u)
    have x: "plain_extra []" by (simp add: plain_extra_def)
    have up0: "store_up ?n0" by (simp add: setMemberPendingActionForGeneration_def up)
    have ev: "node_events (appendActionLifecycleEvent now env ''written'' [] ?n0) = node_events n
        @ [\<lparr>ne_t = now, ne_type = ''action_'' @ ''written'', ne_json = Text (JObj (set_all (lifecycle_entries ?n0 env) []))\<rparr>]"
      unfolding persisted_event [OF up0] by (simp add: setMemberPendingActionForGeneration_def)
    show ?thesis unfolding n1_def Inr sum.case
      by (rule recoverable_lifecycle [OF rec known queued x others ev])
        (simp_all add: up setMemberPendingActionForGeneration_def env_key_def)
  qed
  then have rec2: "recoverable b (dispatchQueue n) n2" by (rule recoverable_same) (simp_all add: n2_def)
  have "core (dispatchQueue n) n2 \<and> in_flight n2 = None"
    using returned_core [OF inv Some, of now result] by (simp add: n1_def n2_def)
  then have "recoverable b (flight (drain_from now (dispatchQueue n) n2) @ dispatchQueue (drain_from now (dispatchQueue n) n2))
      (drain_from now (dispatchQueue n) n2)"
    using drain_recoverable rec2 by blast
  moreover have "call_returned now result n = drain_from now (dispatchQueue n) n2"
    using Some by (cases result) (simp_all add: call_returned_def Let_def n2_def n1_def setMemberPendingActionForGeneration_def)
  ultimately show ?thesis using returned_inv [OF inv, of now result] by (simp add: whole_def)
qed

lemma acknowledge_whole:
  assumes w: "whole b n"
  shows "whole b (maybeAcknowledgeMemberAction now mid n)"
proof -
  have inv: "queue_inv n" using w by (simp add: whole_def)
  show ?thesis
  proof (rule acknowledge_cases [OF inv, of now mid])
    assume "maybeAcknowledgeMemberAction now mid n = n"
    then show ?thesis using w by simp
  next
    fix m env
    assume wr: "map_get (actionLifecycle n) (env_id env) = Some ''written''" and known: "map_get (actionById n) (env_id env) = Some env"
      and eq: "maybeAcknowledgeMemberAction now mid n
        = (let n1 = appendActionLifecycleEvent now env ''completed'' [] (appendActionLifecycleEvent now env ''observed'' [] n) in
           n1\<lparr>completedActionIds := insert (env_id env) (completedActionIds n), memberPendingAction := map_delete (memberPendingAction n) (env_key env)\<rparr>)"
    let ?Q = "flight n @ dispatchQueue n" and ?n1 = "appendActionLifecycleEvent now env ''observed'' [] n"
    let ?m = "maybeAcknowledgeMemberAction now mid n"
    have rec: "recoverable b ?Q n" and up: "store_up n" using w by (auto simp: whole_def recoverable_def)
    have life: "life_ok ?Q n" using inv by (simp add: queue_inv_def)
    have "env_id env \<notin> env_id ` set ?Q" by (rule life_not_queued [OF life]) (simp add: wr)
    then have others: "\<forall>e \<in> set ?Q. e \<in> set ?Q \<and> env_id e \<noteq> env_id env" by (metis imageI)
    have x: "plain_extra []" by (simp add: plain_extra_def)
    have "recoverable b ?Q ?n1"
      by (rule recoverable_lifecycle [OF rec known _ x others persisted_event [OF up]]) (simp_all add: wr up)
    then have "recoverable b ?Q ?m"
    proof (rule recoverable_lifecycle [OF _ _ _ x others])
      show "node_events ?m = node_events ?n1
          @ [\<lparr>ne_t = now, ne_type = ''action_'' @ ''completed'', ne_json = Text (JObj (set_all (lifecycle_entries ?n1 env) []))\<rparr>]"
        by (simp add: eq Let_def persisted_event up)
    qed (simp_all add: known eq Let_def up map_get_set)
    moreover have "flight ?m @ dispatchQueue ?m = ?Q" by (simp add: eq Let_def flight_def)
    ultimately show ?thesis using acknowledge_inv [OF inv, of now mid] by (simp add: whole_def)
  qed
qed

lemma rebind_whole: "whole b n \<Longrightarrow> whole b (snd (rebind now row g m n))"
proof (rule whole_frame)
  have "other_event \<lparr>ne_t = now, ne_type = ''member_job_rebound'', ne_json = j\<rparr>" for j by simp
  then show "node_events (snd (rebind now row g m n)) = node_events n
      \<or> (\<exists>e. other_event e \<and> node_events (snd (rebind now row g m n)) = node_events n @ [e])"
    unfolding rebind_def Let_def persistNodeEvent_def by auto
qed (simp_all add: rebind_frame, simp add: rebind_def Let_def)

lemma members_whole: "whole b n \<Longrightarrow> whole b (n\<lparr>node_members := ms\<rparr>)"
  by (erule whole_frame) simp_all

lemma observe_whole: "whole b n \<Longrightarrow> whole b (snd (observe now rd mid m changes n))"
  by (cases "readStatus rd (the (m_job m))") (simp_all add: observe_def Let_def acknowledge_whole members_whole)

lemma poll_row_whole: "whole b (snd acc) \<Longrightarrow> whole b (snd (poll_row now rd row acc))"
  by (cases acc; cases "map_get (node_members (snd acc)) (row_member row)")
    (simp_all add: poll_row_def Let_def case_prod_beta observe_whole rebind_whole)

lemma persist_whole:
  "whole b n \<Longrightarrow> \<not> starts_with ''action_'' ty \<Longrightarrow> whole b (persistNodeEvent now ty obj n)"
proof (erule whole_frame)
  assume "\<not> starts_with ''action_'' ty"
  then show "node_events (persistNodeEvent now ty obj n) = node_events n
      \<or> (\<exists>e. other_event e \<and> node_events (persistNodeEvent now ty obj n) = node_events n @ [e])"
    unfolding persistNodeEvent_def by auto
qed simp_all

lemma transition_whole: "whole b n \<Longrightarrow> whole b (snd (transition now t reason n))"
proof (cases "validateTransition (n_status n) t")
  case (Inr u)
  assume w: "whole b n"
  have "whole b (n\<lparr>n_status := x, node_row := y\<rparr>)" for x y by (rule whole_frame [OF w]) simp_all
  then show ?thesis by (simp add: transition_def Inr Let_def persist_whole)
qed (simp add: transition_def)

lemma step_whole: "node_step False n n' \<Longrightarrow> whole b n \<Longrightarrow> whole b n'"
proof (induction rule: node_step.induct)
  case (Dispatch a now n usage)
  then show ?case by (intro dispatch_whole)
next
  case (Dispatch_end n env)
  then show ?case by (rule whole_frame) (simp_all add: dispatch_end_def split: option.split)
next
  case (Returned n now result)
  then show ?case by (rule returned_whole)
next
  case (Poll n now rd rows)
  have "whole b (snd (fold (poll_row now rd) rows acc))" if "whole b (snd acc)" for acc
    using that by (induction rows arbitrary: acc) (simp_all add: poll_row_whole)
  moreover have "whole b (n\<lparr>pollSequence := pollSequence n + 1\<rparr>)" by (rule whole_frame [OF Poll]) simp_all
  ultimately show ?case by (simp add: pollMemberStatuses_def)
next
  case (Members n ms cs)
  then show ?case by (rule whole_frame) (simp_all add: queue_of_def)
next
  case (Transition n now t reason)
  then show ?case by (rule transition_whole)
next
  case (Watchdog n now status events)
  then show ?case by (simp add: maybeTriggerNoProgressWatchdog_def Let_def persist_whole)
next
  case (Pace n now k)
  then show ?case by (rule whole_frame) (simp_all add: getNextPollIntervalMs_def Let_def)
next
  case (Store n c)
  then show ?case by simp
qed

definition blank :: "node \<Rightarrow> bool" where
  "blank b \<longleftrightarrow> dispatchQueue b = [] \<and> actionLifecycle b = [] \<and> completedActionIds b = {} \<and> memberPendingAction b = []"

lemma reach_whole: "node_reach False n \<Longrightarrow> blank b \<Longrightarrow> whole b n"
proof (induction rule: node_reach.induct)
  case (Start nid ms now)
  have "queue_inv (new_node nid ms now)" by (rule reach_inv [OF node_reach.Start])
  with Start show ?case
    by (simp add: whole_def recoverable_def agrees_def replayed_def new_node_def blank_def flight_def)
next
  case (Step n n')
  then show ?case by (auto intro: step_whole)
qed

section \<open>Rebuilding the queue\<close>

lemma requeue_fold:
  assumes "\<forall>e \<in> set es. \<forall>st. map_get (actionLifecycle n) (env_id e) = Some st \<longrightarrow> st \<in> ACTION_STATES
      \<and> (st = ''written'' \<longrightarrow> map_get (memberPendingAction n) (env_key e) = Some (env_id e))"
  shows "actionLifecycle (fold requeue es n) = actionLifecycle n \<and> completedActionIds (fold requeue es n) = completedActionIds n
    \<and> memberPendingAction (fold requeue es n) = memberPendingAction n
    \<and> dispatchQueue (fold requeue es n) = dispatchQueue n @ filter (\<lambda>e. map_get (actionLifecycle n) (env_id e) = Some ''queued'') es"
  using assms
proof (induction es arbitrary: n)
  case (Cons e es)
  have r: "actionLifecycle (requeue e n) = actionLifecycle n \<and> completedActionIds (requeue e n) = completedActionIds n
      \<and> memberPendingAction (requeue e n) = memberPendingAction n
      \<and> dispatchQueue (requeue e n) = dispatchQueue n @ (if map_get (actionLifecycle n) (env_id e) = Some ''queued'' then [e] else [])"
  proof (cases "map_get (actionLifecycle n) (env_id e)")
    case (Some st)
    then have st: "st \<in> ACTION_STATES" "st = ''written'' \<longrightarrow> map_get (memberPendingAction n) (env_key e) = Some (env_id e)"
      using Cons.prems by auto
    then show ?thesis
      using Some by (auto simp: requeue_def ACTION_STATES_def TERMINAL_ACTION_STATES_def setMemberPendingActionForGeneration_def
          env_key_def [symmetric] map_set_same)
  qed (simp add: requeue_def)
  then have "\<forall>x \<in> set es. \<forall>st. map_get (actionLifecycle (requeue e n)) (env_id x) = Some st \<longrightarrow> st \<in> ACTION_STATES
      \<and> (st = ''written'' \<longrightarrow> map_get (memberPendingAction (requeue e n)) (env_key x) = Some (env_id x))"
    using Cons.prems by simp
  from Cons.IH [OF this] r show ?case by simp
qed simp

text \<open>Two lists that a lookup by id gives back are equal when their ids are.\<close>

lemma same_ids: "\<lbrakk>map f xs = map f ys; \<forall>x \<in> set xs. g (f x) = Some x; \<forall>y \<in> set ys. g (f y) = Some y\<rbrakk> \<Longrightarrow> xs = ys"
proof -
  assume ids: "map f xs = map f ys" and x: "\<forall>x \<in> set xs. g (f x) = Some x" and y: "\<forall>y \<in> set ys. g (f y) = Some y"
  have "xs = map (the \<circ> g \<circ> f) xs" using x by (simp add: map_idI)
  also have "\<dots> = map (the \<circ> g \<circ> f) ys" using arg_cong [OF ids, of "map (the \<circ> g)"] by simp
  also have "\<dots> = ys" using y by (simp add: map_idI)
  finally show ?thesis .
qed

lemma replay_whole:
  assumes w: "whole b n"
  shows "dispatchQueue (replay (node_events n) b) = flight n @ dispatchQueue n
    \<and> actionLifecycle (replay (node_events n) b) = actionLifecycle n
    \<and> memberPendingAction (replay (node_events n) b) = memberPendingAction n
    \<and> completedActionIds (replay (node_events n) b) = completedActionIds n"
proof -
  let ?Q = "flight n @ dispatchQueue n"
  obtain byId n1 where r: "replayed b n = (byId, n1)" by fastforce
  have a: "agrees ?Q n (byId, n1)" and inv: "queue_inv n" using w r by (auto simp: whole_def recoverable_def)
  have life: "life_ok ?Q n" and pend: "pending_ok n" using inv by (auto simp: queue_inv_def)
  have ok: "map_ok byId" using a life by (simp add: agrees_def map_ok_def life_ok_def)
  have id: "env_id e = i" if "(i, e) \<in> set byId" for i e using a that by (auto simp: agrees_def)
  have get: "map_get byId (env_id e) = Some e" if "e \<in> set (map_values byId)" for e
    using that id ok by (force simp: map_values_def map_get_iff)
  have states: "\<forall>e \<in> set (map_values byId). \<forall>st. map_get (actionLifecycle n1) (env_id e) = Some st \<longrightarrow> st \<in> ACTION_STATES
      \<and> (st = ''written'' \<longrightarrow> map_get (memberPendingAction n1) (env_key e) = Some (env_id e))"
  proof (intro ballI allI impI)
    fix e st assume e: "e \<in> set (map_values byId)" and st: "map_get (actionLifecycle n1) (env_id e) = Some st"
    then have st': "map_get (actionLifecycle n) (env_id e) = Some st" using a by (simp add: agrees_def)
    have "map_option env_key (map_get (actionById n) (env_id e)) = Some (env_key e)"
    proof -
      have "map_option env_key (map_get byId (env_id e)) = map_option env_key (map_get (actionById n) (env_id e))"
        using a unfolding agrees_def fst_conv by blast
      then show ?thesis by (simp add: get [OF e])
    qed
    then show "st \<in> ACTION_STATES \<and> (st = ''written'' \<longrightarrow> map_get (memberPendingAction n1) (env_key e) = Some (env_id e))"
      using st' life pend a by (auto simp: life_ok_def pending_ok_def agrees_def)
  qed
  note f = requeue_fold [OF states]
  let ?qs = "filter (\<lambda>e. map_get (actionLifecycle n1) (env_id e) = Some ''queued'') (map_values byId)"
  have "map env_id (map_values byId) = map fst byId"
    using id by (auto simp: map_values_def)
  then have "map env_id ?qs = filter (\<lambda>i. map_get (actionLifecycle n) i = Some ''queued'') (map fst (actionLifecycle n))"
    using a filter_map [of "\<lambda>i. map_get (actionLifecycle n) i = Some ''queued''" env_id "map_values byId"]
    by (simp add: agrees_def comp_def)
  also have "\<dots> = queued_ids (actionLifecycle n)"
    unfolding queued_ids_def filter_map comp_def
    by (rule arg_cong [of _ _ "map fst"], rule filter_cong [OF refl])
      (use life in \<open>auto simp: life_ok_def map_get_iff map_ok_def dest: eq_key_imp_eq_value\<close>)
  also have "\<dots> = map env_id ?Q" using life by (simp add: life_ok_def)
  finally have "?qs = ?Q"
    by (rule same_ids [where g = "map_get byId"]) (use get a in \<open>auto simp: agrees_def\<close>)
  then show ?thesis
    using f a r by (simp add: replay_def agrees_def replayed_def [symmetric])
qed

section \<open>Properties\<close>

text \<open>C17. A restart loses no action: while writes to the store succeed, replaying a node's events
  from a fresh node gives back exactly the queue, with the action whose call had not returned
  in front, the state of every action, the completed set and the pending actions, whatever
  was dispatched, sent, acknowledged, polled or changed before. That first action is sent
  again: its call may have reached the job.\<close>

theorem restart_restores:
  assumes "node_reach False n"
  shows "let r = replay (node_events n) (new_node nid ms now) in
     dispatchQueue r = (case in_flight n of Some env \<Rightarrow> [env] | None \<Rightarrow> []) @ dispatchQueue n
   \<and> actionLifecycle r = actionLifecycle n \<and> memberPendingAction r = memberPendingAction n
   \<and> completedActionIds r = completedActionIds n"
proof -
  have "blank (new_node nid ms now)" by (simp add: blank_def new_node_def)
  then show ?thesis
    using replay_whole [OF reach_whole [OF assms]] by (simp add: Let_def flight_def)
qed

theorem restart_restores_witness:
  "map env_id (dispatchQueue (replay (node_events demo_sent) (new_node ''n'' [] 9))) = [''a'', ''b'']"
proof -
  have "map env_id ((case in_flight demo_sent of Some env \<Rightarrow> [env] | None \<Rightarrow> []) @ dispatchQueue demo_sent) = [''a'', ''b'']"
    by code_simp
  then show ?thesis
    using restart_restores [OF demo_reach(2), of "''n''" "[]" 9] by (simp only: Let_def)
qed

text \<open>An acknowledgement cut between its two events blocks the member for good: after the
  restart the action is pending and observed, and in every later state, whatever is
  dispatched, polled or returned, it stays so, and no action for that member and generation
  passes the checks of the drain.\<close>

theorem half_acknowledgement_blocks:
  assumes "half_acknowledged (getMemberPendingActionKey mid g) p n" and "(node_step flaky)\<^sup>*\<^sup>* n n'"
    and "a_member (env_action env) = mid" and "env_generation env = g"
  shows "getMemberPendingActionForGeneration n' mid g = Some p \<and> map_get (actionLifecycle n') p = Some ''observed''
    \<and> drain_check n' env \<noteq> Send job"
proof -
  have h: "half_acknowledged (getMemberPendingActionKey mid g) p n'" by (rule half_steps [OF assms(2,1)])
  moreover have "drain_check n' env \<noteq> Send job"
    by (rule half_not_sent [of "getMemberPendingActionKey mid g" p]) (use h assms(3,4) in \<open>simp_all add: half_acknowledged_def env_key_def\<close>)
  ultimately show ?thesis
    by (simp add: half_acknowledged_def half_core_def getMemberPendingActionForGeneration_def)
qed

text \<open>An action sent, written and acknowledged, and a stop before the last event was written.\<close>

definition demo_events :: "node_event list" where
  "demo_events = butlast (node_events (maybeAcknowledgeMemberAction 4 ''m'' (call_returned 3 (Inr ())
     (snd (dispatch_begin 1 (\<lambda>_. None) (demo_action ''a'' ''x'') demo_node)))))"

definition demo_restarted :: node where
  "demo_restarted = replay demo_events demo_node"

lemma demo_half: "half_acknowledged (getMemberPendingActionKey ''m'' 1) ''a'' demo_restarted"
proof -
  have "map (\<lambda>(i, e). (i, env_id e)) (actionById demo_restarted) = [(''a'', ''a'')]" by code_simp
  then have "env_id env = i" if "map_get (actionById demo_restarted) i = Some env" for i env
    using map_get_SomeD [OF that] by (metis (no_types, lifting) case_prod_conv image_eqI list.set_map list.simps(15) list.set(1) prod.inject singletonD)
  moreover have "map_get (memberPendingAction demo_restarted) (getMemberPendingActionKey ''m'' 1) = Some ''a''"
      "map_get (actionLifecycle demo_restarted) ''a'' = Some ''observed''" "''a'' \<notin> completedActionIds demo_restarted"
      "dispatchQueue demo_restarted = []" "in_flight demo_restarted = None" "\<not> isDraining demo_restarted"
    by code_simp+
  ultimately show ?thesis by (simp add: half_acknowledged_def half_core_def)
qed

theorem half_acknowledgement_blocks_witness:
  "map ne_type demo_events = [''action_queued'', ''action_written'', ''action_observed'']
   \<and> getMemberPendingActionForGeneration (snd (dispatch_begin 9 (\<lambda>_. None) (demo_action ''b'' ''y'') demo_restarted)) ''m'' 1 = Some ''a''"
proof -
  have s: "node_step True demo_restarted (snd (dispatch_begin 9 (\<lambda>_. None) (demo_action ''b'' ''y'') demo_restarted))"
  proof (rule node_step.Dispatch)
    show "map_get (actionLifecycle demo_restarted) (id_given 9 (demo_action ''b'' ''y'') demo_restarted) = None" by code_simp
  qed (simp_all add: well_formed_def demo_action_def id_given_def)
  have env: "a_member (env_action \<lparr>env_id = ''c'', env_generation = 1, env_depends = None, env_action = demo_action ''c'' ''z''\<rparr>) = ''m''"
      "env_generation \<lparr>env_id = ''c'', env_generation = 1, env_depends = None, env_action = demo_action ''c'' ''z''\<rparr> = 1"
    by (simp_all add: demo_action_def)
  have "map ne_type demo_events = [''action_queued'', ''action_written'', ''action_observed'']" by code_simp
  then show ?thesis
    using half_acknowledgement_blocks [OF demo_half r_into_rtranclp [of "node_step True", OF s] env] by blast
qed

end
