(* ===== verification/Merge_Order.thy ===== *)
theory Merge_Order imports Epic_Readiness begin

text \<open>
  The choice and the order of the branches \<open>src/cli/merge.ts\<close> merges: the newest job of each
  chain, the refusal while one still runs, the guard of the chain's epic, and Kahn's algorithm
  over the dependencies of the chains' beads. What \<open>bd show\<close> answers and the rows of
  \<open>readAllJobStatuses\<close> are parameters.
\<close>

section \<open>Data\<close>

record job_status_record =
  jr_id :: string
  jr_bead :: "string option"
  jr_status :: "string option"
  jr_branch :: "string option"
  jr_worktree :: "string option"
  jr_started :: "int option"

record chain_target =
  ct_bead :: string
  ct_branch :: string
  ct_worktree :: string
  ct_job :: string
  ct_status :: string
  ct_started :: int

record bead_summary =
  bs_id :: string
  bs_type :: "string option"
  bs_parent :: "string option"
  bs_dependencies :: "string option list"

record guard_result =
  gr_blocked :: bool
  gr_epic :: "string option"
  gr_status :: "epic_state option"
  gr_message :: "string option"

definition TERMINAL_STATUSES_merge :: "string list" where
  "TERMINAL_STATUSES_merge = [''done'', ''error'', ''cancelled'']"

section \<open>The arguments\<close>

record merge_cli =
  mc_target :: string
  mc_rebuild :: bool
  mc_branch :: string

fun scan_args :: "string list \<Rightarrow> merge_cli \<Rightarrow> string + merge_cli" where
  "scan_args [] opts = Inr opts"
| "scan_args (a # as) opts =
     (if a = ''--rebuild'' then scan_args as (opts\<lparr>mc_rebuild := True\<rparr>)
      else if a = ''--target-branch'' then
        (case as of
           [] \<Rightarrow> Inl ''Missing value for --target-branch''
         | b # bs \<Rightarrow>
             if b = [] \<or> starts_with ''-'' b then Inl ''Missing value for --target-branch''
             else if mc_branch opts \<noteq> [] then Inl ''Only one target branch is supported''
             else scan_args bs (opts\<lparr>mc_branch := b\<rparr>))
      else if starts_with ''-'' a then Inl (''Unknown option: '' @ a)
      else if mc_target opts \<noteq> [] then Inl ''Only one merge target is supported''
      else scan_args as (opts\<lparr>mc_target := a\<rparr>))"

text \<open>The branch is validated by \<open>git\<close> afterwards, as in the plan.\<close>

definition parseOptions :: "string list \<Rightarrow> string + merge_cli" where
  "parseOptions argv =
     andThen (scan_args argv \<lparr>mc_target = [], mc_rebuild = False, mc_branch = []\<rparr>) (\<lambda>opts.
       if mc_target opts = [] then Inl ''Missing merge target'' else Inr opts)"

section \<open>Choosing the branches\<close>

definition started_or_0 :: "job_status_record \<Rightarrow> int" where
  "started_or_0 j = (case jr_started j of Some t \<Rightarrow> t | None \<Rightarrow> 0)"

definition selectNewestChainRootJob :: "string \<Rightarrow> job_status_record list \<Rightarrow> chain_target option" where
  "selectNewestChainRootJob bead statuses =
     (case sort_key (\<lambda>j. - started_or_0 j)
             (filter (\<lambda>j. jr_bead j = Some bead \<and> truthy (jr_branch j) \<and> truthy (jr_worktree j)) statuses) of
        [] \<Rightarrow> None
      | j # _ \<Rightarrow>
          if \<not> truthy (jr_branch j) \<or> \<not> truthy (jr_status j) \<or> jr_id j = [] \<or> \<not> truthy (jr_worktree j) then None
          else Some \<lparr>ct_bead = bead, ct_branch = the (jr_branch j), ct_worktree = the (jr_worktree j),
                     ct_job = jr_id j, ct_status = the (jr_status j), ct_started = started_or_0 j\<rparr>)"

definition ensureTerminalJobs :: "chain_target list \<Rightarrow> string + unit" where
  "ensureTerminalJobs cs =
     (let running = filter (\<lambda>c. ct_status c \<notin> set TERMINAL_STATUSES_merge) cs in
      if running = [] then Inr ()
      else Inl (''Refusing merge: non-terminal chain jobs'' @ [newline]
             @ join [newline] (map (\<lambda>c. ''- '' @ ct_bead c @ '' ('' @ ct_job c @ ''): '' @ ct_status c) running)))"

section \<open>The order\<close>

definition count_at :: "(string, int) js_map \<Rightarrow> string \<Rightarrow> int" where
  "count_at m k = (case map_get m k of Some n \<Rightarrow> n | None \<Rightarrow> 0)"

definition list_at :: "(string, string list) js_map \<Rightarrow> string \<Rightarrow> string list" where
  "list_at m k = (case map_get m k of Some xs \<Rightarrow> xs | None \<Rightarrow> [])"

text \<open>One edge: the dependency gets the chain as a dependent, the chain one more to wait for.\<close>

definition add_edge ::
  "(string, chain_target) js_map \<Rightarrow> string \<Rightarrow> string
   \<Rightarrow> (string, string list) js_map \<times> (string, int) js_map \<Rightarrow> (string, string list) js_map \<times> (string, int) js_map" where
  "add_edge byId bead dep st =
     (let (adj, ind) = st in
      if \<not> map_has byId dep then (adj, ind)
      else ((case map_get adj dep of Some ds \<Rightarrow> map_set adj dep (ds @ [bead]) | None \<Rightarrow> adj),
            map_set ind bead (count_at ind bead + 1)))"

definition chain_graph ::
  "chain_target list \<Rightarrow> (string, string list) js_map
   \<Rightarrow> (string, string list) js_map \<times> (string, int) js_map" where
  "chain_graph cs deps =
     (let byId = fold (\<lambda>c m. map_set m (ct_bead c) c) cs [];
          ind0 = fold (\<lambda>c m. map_set m (ct_bead c) 0) cs [];
          adj0 = fold (\<lambda>c m. map_set m (ct_bead c) []) cs [] in
      fold (\<lambda>c st. fold (add_edge byId (ct_bead c)) (list_at deps (ct_bead c)) st) cs (adj0, ind0))"

text \<open>The dependents of a chain that is placed: each waits for one less, and joins the queue at 0.\<close>

fun release_dependents ::
  "string list \<Rightarrow> string list \<times> (string, int) js_map \<Rightarrow> string list \<times> (string, int) js_map" where
  "release_dependents [] st = st"
| "release_dependents (d # ds) (q, ind) =
     (let n = count_at ind d - 1 in release_dependents ds (if n = 0 then q @ [d] else q, map_set ind d n))"

definition waiting_count :: "(string, int) js_map \<Rightarrow> nat" where
  "waiting_count ind = length (filter (\<lambda>kn. 0 < snd kn) ind)"

lemma waiting_count_set:
  "waiting_count (map_set ind d n) + (if 0 < count_at ind d then 1 else 0)
     = waiting_count ind + (if 0 < n then 1 else 0)"
  by (induction ind d n rule: map_set.induct) (auto simp: waiting_count_def count_at_def split: option.splits)

lemma release_shrinks:
  "release_dependents ds (q, ind) = (q', ind')
     \<Longrightarrow> length q' + waiting_count ind' \<le> length q + waiting_count ind"
proof (induction ds arbitrary: q ind)
  case Nil
  then show ?case by simp
next
  case (Cons d ds)
  let ?n = "count_at ind d - 1"
  have "length q' + waiting_count ind'
      \<le> length (if ?n = 0 then q @ [d] else q) + waiting_count (map_set ind d ?n)"
    using Cons.prems by (intro Cons.IH) (simp add: Let_def)
  moreover have "length (if ?n = 0 then q @ [d] else q) + waiting_count (map_set ind d ?n)
      \<le> length q + waiting_count ind"
    using waiting_count_set [of ind d ?n] by (cases "?n = 0") (auto split: if_splits)
  ultimately show ?case by linarith
qed

function kahn ::
  "(string, chain_target) js_map \<Rightarrow> (string, string list) js_map \<Rightarrow> string list \<Rightarrow> (string, int) js_map
   \<Rightarrow> chain_target list \<Rightarrow> chain_target list" where
  "kahn byId adj [] ind ordered = ordered"
| "kahn byId adj (b # q) ind ordered =
     (if b = [] then kahn byId adj q ind ordered
      else
        let st = release_dependents (list_at adj b) (q, ind) in
        kahn byId adj (fst st) (snd st)
          (case map_get byId b of Some c \<Rightarrow> ordered @ [c] | None \<Rightarrow> ordered))"
  by pat_completeness auto

termination
proof (relation "measure (\<lambda>(byId, adj, q, ind, ordered). length q + waiting_count ind)", goal_cases)
  case 1
  then show ?case by simp
next
  case (2 byId adj b q ind ordered)
  then show ?case by simp
next
  case (3 byId adj b q ind ordered x)
  then show ?case
    using release_shrinks [of "list_at adj b" q ind "fst x" "snd x"] by simp
qed

definition topologicallySortChains ::
  "chain_target list \<Rightarrow> (string, string list) js_map \<Rightarrow> string + chain_target list" where
  "topologicallySortChains cs deps =
     (let byId = fold (\<lambda>c m. map_set m (ct_bead c) c) cs [];
          (adj, ind) = chain_graph cs deps;
          queue = map ct_bead (sort_key ct_started (filter (\<lambda>c. count_at ind (ct_bead c) = 0) cs));
          ordered = kahn byId adj queue ind [] in
      if length ordered \<noteq> length cs
      then Inl ''Unable to compute merge order: dependency cycle detected'' else Inr ordered)"


section \<open>The graph\<close>

definition ids_of :: "chain_target list \<Rightarrow> string set" where
  "ids_of cs = ct_bead ` set cs"

text \<open>The dependencies of a bead among the chains, as often as they are listed.\<close>

definition waits_for :: "chain_target list \<Rightarrow> (string, string list) js_map \<Rightarrow> string \<Rightarrow> string list" where
  "waits_for cs deps b = filter (\<lambda>d. d \<in> ids_of cs) (list_at deps b)"

definition by_id :: "chain_target list \<Rightarrow> (string, chain_target) js_map" where
  "by_id cs = fold (\<lambda>c m. map_set m (ct_bead c) c) cs []"

lemma map_get_fold_set:
  "map_get (fold (\<lambda>c m. map_set m (key c) (f c)) cs m) k =
     (if k \<in> key ` set cs then Some (f (last (filter (\<lambda>c. key c = k) cs))) else map_get m k)"
  by (induction cs arbitrary: m) (auto simp: map_get_set filter_empty_conv)

lemma by_id_has: "map_has (by_id cs) = (\<lambda>d. d \<in> ids_of cs)"
  by (rule ext) (simp add: by_id_def map_has_def map_get_fold_set ids_of_def)

lemma only_with_id: "distinct (map ct_bead cs) \<Longrightarrow> c \<in> set cs \<Longrightarrow> filter (\<lambda>x. ct_bead x = ct_bead c) cs = [c]"
  by (induction cs) (auto simp: filter_empty_conv image_iff)

lemma by_id_get:
  assumes "distinct (map ct_bead cs)"
  shows "map_get (by_id cs) d = Some c \<longleftrightarrow> c \<in> set cs \<and> ct_bead c = d"
  using only_with_id [OF assms] assms by (auto simp: by_id_def map_get_fold_set distinct_map inj_on_def)

lemma add_edge_step:
  assumes "\<And>d. map_has adj d = map_has byId d" and "add_edge byId b dep (adj, ind) = (adj', ind')"
  shows "map_has adj' d = map_has byId d"
    and "count_list (list_at adj' d) x
       = count_list (list_at adj d) x + (if x = b \<and> d = dep \<and> map_has byId d then 1 else 0)"
    and "count_at ind' x = count_at ind x + (if x = b \<and> map_has byId dep then 1 else 0)"
  using assms(1) [of dep] assms(1) [of d] assms(2)
  by (auto simp: add_edge_def map_has_def list_at_def count_at_def map_get_set split: if_splits option.splits)

lemma add_edges:
  assumes "\<And>d. map_has adj d = map_has byId d" and "fold (add_edge byId b) ds (adj, ind) = (adj', ind')"
  shows "(\<forall>d. map_has adj' d = map_has byId d)
     \<and> (\<forall>d x. count_list (list_at adj' d) x
          = count_list (list_at adj d) x + (if x = b \<and> map_has byId d then count_list ds d else 0))
     \<and> (\<forall>x. count_at ind' x = count_at ind x + (if x = b then int (length (filter (map_has byId) ds)) else 0))"
  using assms
proof (induction ds arbitrary: adj ind)
  case Nil
  then show ?case by simp
next
  case (Cons dep ds)
  obtain adj1 ind1 where one: "add_edge byId b dep (adj, ind) = (adj1, ind1)"
    by (cases "add_edge byId b dep (adj, ind)")
  note step = add_edge_step [OF Cons.prems(1) one]
  have "fold (add_edge byId b) ds (adj1, ind1) = (adj', ind')" using Cons.prems(2) one by simp
  from Cons.IH [OF step(1) this] show ?case by (auto simp: step(2,3))
qed

lemma graph_edges:
  assumes "distinct (map ct_bead cs)" and "\<And>d. map_has adj d = map_has byId d"
    and "fold (\<lambda>c st. fold (add_edge byId (ct_bead c)) (list_at deps (ct_bead c)) st) cs (adj, ind) = (adj', ind')"
  shows "(\<forall>d x. count_list (list_at adj' d) x = count_list (list_at adj d) x
            + (if x \<in> ids_of cs \<and> map_has byId d then count_list (list_at deps x) d else 0))
     \<and> (\<forall>x. count_at ind' x = count_at ind x
            + (if x \<in> ids_of cs then int (length (filter (map_has byId) (list_at deps x))) else 0))"
  using assms
proof (induction cs arbitrary: adj ind)
  case Nil
  then show ?case by (simp add: ids_of_def)
next
  case (Cons c cs)
  obtain adj1 ind1 where one: "fold (add_edge byId (ct_bead c)) (list_at deps (ct_bead c)) (adj, ind) = (adj1, ind1)"
    by (cases "fold (add_edge byId (ct_bead c)) (list_at deps (ct_bead c)) (adj, ind)")
  note step = add_edges [OF Cons.prems(2) one]
  have rest: "fold (\<lambda>c st. fold (add_edge byId (ct_bead c)) (list_at deps (ct_bead c)) st) cs (adj1, ind1) = (adj', ind')"
    using Cons.prems(3) one by simp
  have new: "ct_bead c \<notin> ids_of cs" using Cons.prems(1) by (simp add: ids_of_def)
  have dist: "distinct (map ct_bead cs)" using Cons.prems(1) by simp
  have has: "\<And>d. map_has adj1 d = map_has byId d" using step by simp
  show ?case using Cons.IH [OF dist has rest] step new by (auto simp: ids_of_def)
qed

lemma chain_graph_counts:
  assumes "distinct (map ct_bead cs)" and "chain_graph cs deps = (adj, ind)"
  shows "b \<in> ids_of cs \<Longrightarrow> count_at ind b = int (length (waits_for cs deps b))"
    and "d \<in> ids_of cs \<Longrightarrow> count_list (list_at adj d) b = (if b \<in> ids_of cs then count_list (list_at deps b) d else 0)"
proof -
  let ?adj0 = "fold (\<lambda>c m. map_set m (ct_bead c) ([] :: string list)) cs []"
  let ?ind0 = "fold (\<lambda>c m. map_set m (ct_bead c) (0 :: int)) cs []"
  have has: "map_has ?adj0 d = map_has (by_id cs) d" for d
    by (simp add: map_has_def map_get_fold_set by_id_def)
  have zero: "list_at ?adj0 d = []" "count_at ?ind0 d = 0" for d
    by (simp_all add: list_at_def count_at_def map_get_fold_set)
  have run: "fold (\<lambda>c st. fold (add_edge (by_id cs) (ct_bead c)) (list_at deps (ct_bead c)) st) cs (?adj0, ?ind0) = (adj, ind)"
    using assms(2) by (simp add: chain_graph_def by_id_def Let_def)
  note edges = graph_edges [OF assms(1) has run]
  show "b \<in> ids_of cs \<Longrightarrow> count_at ind b = int (length (waits_for cs deps b))"
    using edges by (simp add: zero waits_for_def by_id_has)
  show "d \<in> ids_of cs \<Longrightarrow> count_list (list_at adj d) b = (if b \<in> ids_of cs then count_list (list_at deps b) d else 0)"
    using edges by (simp add: zero by_id_has)
qed


section \<open>The loop\<close>

lemma release_counts:
  assumes "release_dependents ds (q, ind) = (q', ind')" and "distinct q" and "set q \<inter> set ds = {}"
    and "\<And>x. x \<in> set ds \<Longrightarrow> int (count_list ds x) \<le> count_at ind x"
  shows "(\<forall>x. count_at ind' x = count_at ind x - int (count_list ds x)) \<and> distinct q'
     \<and> set q' = set q \<union> {x \<in> set ds. count_at ind x = int (count_list ds x)}"
  using assms
proof (induction ds arbitrary: q ind)
  case Nil
  then show ?case by simp
next
  case (Cons d ds)
  let ?n = "count_at ind d - 1"
  let ?q = "if ?n = 0 then q @ [d] else q"
  let ?ind = "map_set ind d ?n"
  have at: "count_at ?ind x = (if x = d then ?n else count_at ind x)" for x
    by (simp add: count_at_def map_get_set)
  have room: "int (count_list (d # ds) d) \<le> count_at ind d" using Cons.prems(4) [of d] by simp
  then have last_one: "d \<notin> set ds" if "?n = 0"
    using that by (auto simp: count_list_0_iff)
  have run: "release_dependents ds (?q, ?ind) = (q', ind')" using Cons.prems(1) by (simp add: Let_def)
  have dist: "distinct ?q" using Cons.prems(2,3) by auto
  have apart: "set ?q \<inter> set ds = {}" using Cons.prems(3) last_one by auto
  have fits: "int (count_list ds x) \<le> count_at ?ind x" if "x \<in> set ds" for x
    using Cons.prems(4) [of x] that room by (auto simp: at split: if_splits)
  have IH: "(\<forall>x. count_at ind' x = count_at ?ind x - int (count_list ds x)) \<and> distinct q'
     \<and> set q' = set ?q \<union> {x \<in> set ds. count_at ?ind x = int (count_list ds x)}"
    by (rule Cons.IH [OF run dist apart fits])
  have now: "?n = 0 \<longleftrightarrow> d \<notin> set ds \<and> count_at ind d = 1 + int (count_list ds d)"
    using last_one by (auto simp: count_notin)
  show ?case using IH now by (auto simp: at)
qed

definition kahn_inv ::
  "chain_target list \<Rightarrow> (string, string list) js_map \<Rightarrow> string list \<Rightarrow> string list \<Rightarrow> (string, int) js_map \<Rightarrow> bool" where
  "kahn_inv cs deps done_ids q ind \<longleftrightarrow>
     distinct (done_ids @ q) \<and> set (done_ids @ q) \<subseteq> ids_of cs
   \<and> (\<forall>b \<in> ids_of cs. count_at ind b = int (length (filter (\<lambda>d. d \<notin> set done_ids) (waits_for cs deps b))))
   \<and> (\<forall>b \<in> ids_of cs. b \<in> set (done_ids @ q) \<longleftrightarrow> count_at ind b = 0)
   \<and> (\<forall>xs b ys. done_ids = xs @ b # ys \<longrightarrow> set (waits_for cs deps b) \<subseteq> set xs)"

lemma kahn_invD:
  assumes "kahn_inv cs deps os q ind"
  shows "b \<in> ids_of cs \<Longrightarrow> count_at ind b = int (length (filter (\<lambda>d. d \<notin> set os) (waits_for cs deps b)))"
    and "b \<in> ids_of cs \<Longrightarrow> b \<in> set (os @ q) \<longleftrightarrow> count_at ind b = 0"
    and "os = xs @ b # ys \<Longrightarrow> set (waits_for cs deps b) \<subseteq> set xs"
  using assms unfolding kahn_inv_def by blast+

lemma filter_one_less:
  "b \<notin> A \<Longrightarrow> length (filter (\<lambda>d. d \<notin> A) xs) = length (filter (\<lambda>d. d \<notin> insert b A) xs) + count_list xs b"
  by (induction xs) auto

lemma count_list_filter: "P x \<Longrightarrow> count_list (filter P xs) x = count_list xs x"
  by (induction xs) auto

lemma kahn_step:
  assumes inv: "kahn_inv cs deps done_ids (b # q) ind"
    and adj: "\<And>x. count_list (list_at adj b) x = (if x \<in> ids_of cs then count_list (list_at deps x) b else 0)"
    and rel: "release_dependents (list_at adj b) (q, ind) = (q', ind')"
  shows "kahn_inv cs deps (done_ids @ [b]) q' ind'"
proof -
  let ?W = "waits_for cs deps"
  have b: "b \<in> ids_of cs" "b \<notin> set done_ids" "b \<notin> set q" "distinct done_ids" "distinct q" "set done_ids \<inter> set q = {}"
    using inv by (auto simp: kahn_inv_def)
  have cnt: "count_at ind x = int (length (filter (\<lambda>d. d \<notin> set done_ids) (?W x)))" if "x \<in> ids_of cs" for x
    by (rule kahn_invD(1) [OF inv that])
  have "x \<in> set (done_ids @ b # q) \<longleftrightarrow> count_at ind x = 0" if "x \<in> ids_of cs" for x
    by (rule kahn_invD(2) [OF inv that])
  then have zero: "x \<in> set done_ids \<or> x = b \<or> x \<in> set q \<longleftrightarrow> count_at ind x = 0" if "x \<in> ids_of cs" for x
    using that by auto
  have adjW: "count_list (list_at adj b) x = (if x \<in> ids_of cs then count_list (?W x) b else 0)" for x
    using b(1) by (simp add: adj waits_for_def count_list_filter)
  have split: "length (filter (\<lambda>d. d \<notin> set done_ids) (?W x))
      = length (filter (\<lambda>d. d \<notin> set (done_ids @ [b])) (?W x)) + count_list (?W x) b" for x
    using filter_one_less [OF b(2), of "?W x"] by simp
  have mem: "x \<in> set (list_at adj b) \<longleftrightarrow> x \<in> ids_of cs \<and> b \<in> set (?W x)" for x
    using adjW [of x] by (metis count_list_0_iff)
  have placed: "set (?W x) \<subseteq> set done_ids" if "x \<in> ids_of cs" "count_at ind x = 0" for x
    using cnt [OF that(1)] that(2) by (auto simp: filter_empty_conv)
  have apart: "set q \<inter> set (list_at adj b) = {}"
    using placed zero mem b(2) by blast
  have fits: "int (count_list (list_at adj b) x) \<le> count_at ind x" if "x \<in> set (list_at adj b)" for x
    using that mem [of x] cnt [of x] split [of x] adjW [of x] by simp
  note out = release_counts [OF rel b(5) apart fits]
  have cnt': "count_at ind' x = int (length (filter (\<lambda>d. d \<notin> set (done_ids @ [b])) (?W x)))" if "x \<in> ids_of cs" for x
    using out cnt [OF that] split [of x] adjW [of x] that by simp
  have q': "set q' = set q \<union> {x \<in> set (list_at adj b). count_at ind' x = 0}"
    using out by auto
  have kept: "count_at ind' x = count_at ind x" if "x \<notin> set (list_at adj b)" for x
    using out that by (simp add: count_notin)
  have never: "x \<notin> set (list_at adj b)" if "x \<in> set done_ids \<or> x = b \<or> x \<in> set q" for x
    using that placed [of x] zero [of x] mem [of x] b(2) by blast
  have "distinct ((done_ids @ [b]) @ q')"
    using out b never q' by auto
  moreover have "set ((done_ids @ [b]) @ q') \<subseteq> ids_of cs"
  proof -
    have "set (done_ids @ b # q) \<subseteq> ids_of cs" using inv unfolding kahn_inv_def by blast
    then show ?thesis using mem by (auto simp: q')
  qed
  moreover have "x \<in> set ((done_ids @ [b]) @ q') \<longleftrightarrow> count_at ind' x = 0" if "x \<in> ids_of cs" for x
  proof (cases "x \<in> set (list_at adj b)")
    case True
    then have "x \<notin> set done_ids" "x \<noteq> b" "x \<notin> set q" using never [of x] by blast+
    with True show ?thesis by (simp add: q')
  next
    case False
    then show ?thesis using zero [OF that] kept [OF False] by (simp add: q' disj_ac)
  qed
  moreover have "set (?W y) \<subseteq> set xs" if "done_ids @ [b] = xs @ y # ys" for xs y ys
  proof (cases ys rule: rev_cases)
    case Nil
    then have "xs = done_ids" "y = b" using that by auto
    then show ?thesis using placed [OF b(1)] zero [OF b(1)] by simp
  next
    case (snoc ys' z)
    then have "done_ids = xs @ y # ys'" using that by auto
    then show ?thesis by (rule kahn_invD(3) [OF inv])
  qed
  ultimately show ?thesis using cnt' unfolding kahn_inv_def by blast
qed


lemma kahn_ends:
  assumes "distinct (map ct_bead cs)" and "[] \<notin> ids_of cs"
    and "\<And>b x. b \<in> ids_of cs \<Longrightarrow>
           count_list (list_at adj b) x = (if x \<in> ids_of cs then count_list (list_at deps x) b else 0)"
    and "kahn_inv cs deps (map ct_bead ordered) q ind" and "set ordered \<subseteq> set cs"
  shows "\<exists>ind'. kahn_inv cs deps (map ct_bead (kahn (by_id cs) adj q ind ordered)) [] ind'
     \<and> set (kahn (by_id cs) adj q ind ordered) \<subseteq> set cs"
  using assms
proof (induction "by_id cs" adj q ind ordered rule: kahn.induct)
  case (1 adj ind ordered)
  then show ?case by auto
next
  case (2 adj b q ind ordered)
  have b: "b \<in> ids_of cs" using 2 by (simp add: kahn_inv_def)
  then have ne: "b \<noteq> []" using 2 by auto
  obtain c where c: "map_get (by_id cs) b = Some c" "ct_bead c = b" "c \<in> set cs"
    using b by_id_get [OF 2(3)] by (auto simp: ids_of_def)
  obtain q' ind' where rel: "release_dependents (list_at adj b) (q, ind) = (q', ind')"
    by (cases "release_dependents (list_at adj b) (q, ind)")
  have "kahn_inv cs deps (map ct_bead (ordered @ [c])) q' ind'"
    using kahn_step [OF 2(6) 2(5) [OF b] rel] c(2) by simp
  then show ?case
    using 2(2) [OF ne] 2(3-5,7) ne c rel by simp
qed

lemma topological_result:
  assumes "distinct (map ct_bead cs)" and "[] \<notin> ids_of cs"
  shows "\<exists>os ind. topologicallySortChains cs deps =
       (if length os \<noteq> length cs then Inl ''Unable to compute merge order: dependency cycle detected'' else Inr os)
     \<and> kahn_inv cs deps (map ct_bead os) [] ind \<and> set os \<subseteq> set cs"
proof -
  obtain adj ind where g: "chain_graph cs deps = (adj, ind)" by (cases "chain_graph cs deps")
  note counts = chain_graph_counts [OF assms(1) g]
  let ?q = "map ct_bead (sort_key ct_started (filter (\<lambda>c. count_at ind (ct_bead c) = 0) cs))"
  have "distinct ?q" and sub: "set ?q = {b \<in> ids_of cs. count_at ind b = 0}"
    using assms(1) by (auto simp: distinct_map ids_of_def intro: inj_on_subset)
  then have "kahn_inv cs deps (map ct_bead []) ?q ind"
    by (auto simp: kahn_inv_def counts(1))
  from kahn_ends [OF assms counts(2) this] show ?thesis
    using g by (auto simp: topologicallySortChains_def by_id_def Let_def)
qed

definition waits_rel :: "chain_target list \<Rightarrow> (string, string list) js_map \<Rightarrow> (string \<times> string) set" where
  "waits_rel cs deps = {(b, d). b \<in> ids_of cs \<and> d \<in> set (waits_for cs deps b)}"

lemma takeWhile_first: "b \<notin> set xs \<Longrightarrow> takeWhile (\<lambda>x. x \<noteq> b) (xs @ b # ys) = xs"
  by (induction xs) auto

lemma order_acyclic:
  assumes "kahn_inv cs deps os [] ind" and "ids_of cs \<subseteq> set os"
  shows "acyclic (waits_rel cs deps)"
proof -
  let ?f = "\<lambda>b. length (takeWhile (\<lambda>x. x \<noteq> b) os)"
  have "?f d < ?f b" if "(b, d) \<in> waits_rel cs deps" for b d
  proof -
    have "b \<in> set os" "d \<in> set (waits_for cs deps b)" using that assms(2) by (auto simp: waits_rel_def)
    then obtain xs ys where os: "os = xs @ b # ys" "b \<notin> set xs" by (metis split_list_first)
    then have "d \<in> set xs"
      using kahn_invD(3) [OF assms(1) os(1)] \<open>d \<in> set (waits_for cs deps b)\<close> by auto
    then obtain us vs where "xs = us @ d # vs" "d \<notin> set us" by (metis split_list_first)
    then show ?thesis
      using os takeWhile_first [of b xs ys] takeWhile_first [of d us "vs @ b # ys"] by simp
  qed
  then show ?thesis by (rule acyclicI_order)
qed

lemma stuck_cyclic:
  assumes "kahn_inv cs deps os [] ind" and "\<not> ids_of cs \<subseteq> set os"
  shows "\<not> acyclic (waits_rel cs deps)"
proof
  assume "acyclic (waits_rel cs deps)"
  moreover have "waits_rel cs deps \<subseteq> ids_of cs \<times> ids_of cs"
    by (auto simp: waits_rel_def waits_for_def)
  then have "finite (waits_rel cs deps)" by (rule finite_subset) (simp add: ids_of_def)
  ultimately have wf: "wf ((waits_rel cs deps)\<inverse>)" by (simp add: finite_acyclic_wf_converse)
  obtain b where "b \<in> ids_of cs - set os" using assms(2) by auto
  with wf obtain z where z: "z \<in> ids_of cs - set os"
    and low: "\<And>y. (y, z) \<in> (waits_rel cs deps)\<inverse> \<Longrightarrow> y \<notin> ids_of cs - set os"
    by (metis wfE_min)
  then have "count_at ind z \<noteq> 0" using kahn_invD(2) [OF assms(1), of z] by simp
  then obtain d where "d \<in> set (waits_for cs deps z)" "d \<notin> set os"
    using kahn_invD(1) [OF assms(1), of z] z by (auto simp: filter_empty_conv)
  then show False using low [of d] z by (auto simp: waits_rel_def waits_for_def)
qed

lemma all_placed_iff:
  assumes "distinct (map ct_bead cs)" and "kahn_inv cs deps (map ct_bead os) [] ind" and "set os \<subseteq> set cs"
  shows "length os = length cs \<longleftrightarrow> ids_of cs \<subseteq> set (map ct_bead os)"
    and "length os = length cs \<Longrightarrow> set os = set cs"
proof -
  have d: "distinct os" "distinct cs" using assms(1,2) by (auto simp: kahn_inv_def distinct_map)
  show eq: "set os = set cs" if "length os = length cs"
    using that d assms(3) by (intro card_subset_eq) (simp_all add: distinct_card)
  show "length os = length cs \<longleftrightarrow> ids_of cs \<subseteq> set (map ct_bead os)"
  proof
    assume all: "ids_of cs \<subseteq> set (map ct_bead os)"
    have inj: "inj_on ct_bead (set cs)" using assms(1) by (simp add: distinct_map)
    have "set cs \<subseteq> set os"
    proof
      fix c assume c: "c \<in> set cs"
      then obtain x where "x \<in> set os" "ct_bead x = ct_bead c" using all by (auto simp: ids_of_def)
      then show "c \<in> set os" using inj_onD [OF inj, of x c] c assms(3) by auto
    qed
    then show "length os = length cs" using assms(3) d by (metis distinct_card subset_antisym)
  qed (use eq in \<open>auto simp: ids_of_def\<close>)
qed

section \<open>The targets of a merge\<close>

text \<open>The dependencies \<open>bd show\<close> names among the chains' beads.\<close>

fun load_dependencies ::
  "(string \<Rightarrow> string + bead_summary) \<Rightarrow> string set \<Rightarrow> string list \<Rightarrow> (string, string list) js_map
   \<Rightarrow> string + (string, string list) js_map" where
  "load_dependencies readBead selected [] m = Inr m"
| "load_dependencies readBead selected (b # bs) m =
     andThen (readBead b) (\<lambda>bead.
       load_dependencies readBead selected bs
         (map_set m b (filter (\<lambda>d. d \<in> selected) (map the (filter truthy (bs_dependencies bead))))))"

definition loadDependenciesFor ::
  "(string \<Rightarrow> string + bead_summary) \<Rightarrow> string list \<Rightarrow> string + (string, string list) js_map" where
  "loadDependenciesFor readBead beadIds = load_dependencies readBead (set beadIds) beadIds []"

definition resolveMergeTargetsForBeadIds ::
  "(string \<Rightarrow> string + bead_summary) \<Rightarrow> job_status_record list \<Rightarrow> string list \<Rightarrow> string + chain_target list" where
  "resolveMergeTargetsForBeadIds readBead statuses beadIds =
     (let cs = List.map_filter (\<lambda>b. selectNewestChainRootJob b statuses) beadIds in
      if cs = [] then Inl ''No mergeable chain branches found for provided bead IDs''
      else andThen (ensureTerminalJobs cs) (\<lambda>_.
        andThen (loadDependenciesFor readBead (map ct_bead cs)) (\<lambda>deps. topologicallySortChains cs deps)))"

text \<open>\<open>sqlite\<close> is the store, \<^term>\<open>None\<close> when there is none.\<close>

definition resolveEpicByChainRootBeadId :: "store \<Rightarrow> string \<Rightarrow> epic_chain option" where
  "resolveEpicByChainRootBeadId db bead = find (\<lambda>c. chain_root_bead c = Some bead) (map_values (chain_rows db))"

definition resolveChainEpicMembership ::
  "(string \<Rightarrow> string + bead_summary) \<Rightarrow> store option \<Rightarrow> string \<Rightarrow> string + string option" where
  "resolveChainEpicMembership readBead sqlite bead =
     (let stored = (case sqlite of
                      None \<Rightarrow> None
                    | Some db \<Rightarrow> map_option chain_epic (resolveEpicByChainRootBeadId db bead)) in
      if truthy stored then Inr stored
      else andThen (readBead bead) (\<lambda>b. Inr (if truthy (bs_parent b) then bs_parent b else None)))"

definition checkEpicUnresolvedGuard ::
  "process_host \<Rightarrow> (string \<Rightarrow> string + bead_summary) \<Rightarrow> store option \<Rightarrow> string \<Rightarrow> string + guard_result" where
  "checkEpicUnresolvedGuard ph readBead sqlite bead =
     andThen (resolveChainEpicMembership readBead sqlite bead) (\<lambda>membership.
       Inr (case membership of
          None \<Rightarrow> \<lparr>gr_blocked = False, gr_epic = None, gr_status = None, gr_message = None\<rparr>
        | Some epic \<Rightarrow>
            (case sqlite of
               None \<Rightarrow> \<lparr>gr_blocked = False, gr_epic = Some epic, gr_status = None,
                 gr_message = Some (''Warning: unable to verify epic '' @ epic
                   @ '' readiness (observability DB unavailable). Proceeding with chain merge.'')\<rparr>
             | Some db \<Rightarrow>
                 (case readEpicRun db epic of
                    None \<Rightarrow> \<lparr>gr_blocked = False, gr_epic = Some epic, gr_status = None,
                      gr_message = Some (''Warning: epic '' @ epic @ '' has no run record. Proceeding with chain merge.'')\<rparr>
                  | Some run \<Rightarrow>
                      let result = (\<lambda>blocked m. \<lparr>gr_blocked = blocked, gr_epic = Some epic,
                                      gr_status = Some (run_status run), gr_message = m\<rparr>) in
                      if \<not> isEpicUnresolvedState (run_status run) then result False None
                      else
                        (case find (\<lambda>c. ch_root_bead c = Some bead \<or> ch_id c = bead)
                                (es_chains (loadEpicReadinessSummary ph db epic)) of
                           None \<Rightarrow> result True (Some (''Chain '' @ bead @ '' belongs to epic '' @ epic
                               @ '' but has no derived readiness record. Use ''
                               @ quoted (''sp epic status '' @ epic) @ '' to inspect migration state.''))
                         | Some c \<Rightarrow>
                             if ch_state c = Chain_pass then result False None
                             else result True (Some (''Chain '' @ bead @ '' blocked by derived readiness: ''
                                 @ (case ch_reason c of Some r \<Rightarrow> r | None \<Rightarrow> chain_state_text (ch_state c))
                                 @ ''.'' @ [newline] @ ''Use '' @ quoted (''sp epic status '' @ epic)
                                 @ '' to inspect epic state.'')))))))"

text \<open>The chains of an epic: those of the store, else the children of its bead.\<close>

definition readEpicChainRootBeadIds :: "store option \<Rightarrow> string \<Rightarrow> string list" where
  "readEpicChainRootBeadIds sqlite epic =
     (case sqlite of
        None \<Rightarrow> []
      | Some db \<Rightarrow> to_set (filter (\<lambda>i. i \<noteq> [])
          (map (\<lambda>c. case chain_root_bead c of Some b \<Rightarrow> b | None \<Rightarrow> chain_key c) (listEpicChains db epic))))"
definition readEpicChildIds :: "(string \<Rightarrow> string + string list) \<Rightarrow> string \<Rightarrow> string + string list" where
  "readEpicChildIds listed epic = andThen (listed epic) (\<lambda>ids. Inr (to_set (filter (\<lambda>i. i \<noteq> []) ids)))"

definition resolveMergeTargets ::
  "process_host \<Rightarrow> (string \<Rightarrow> string + bead_summary) \<Rightarrow> (string \<Rightarrow> string + string list) \<Rightarrow> store option
   \<Rightarrow> job_status_record list \<Rightarrow> string \<Rightarrow> string + chain_target list" where
  "resolveMergeTargets ph readBead listed sqlite statuses target =
     andThen (readBead target) (\<lambda>bead.
       if bs_type bead \<noteq> Some ''epic'' then
         (case selectNewestChainRootJob target statuses of
            None \<Rightarrow> Inl (''No chain-root job with worktree metadata found for bead '' @ quoted target)
          | Some c \<Rightarrow>
              andThen (checkEpicUnresolvedGuard ph readBead sqlite (ct_bead c)) (\<lambda>g.
                if gr_blocked g then Inl (case gr_message g of Some m \<Rightarrow> m | None \<Rightarrow> [])
                else andThen (ensureTerminalJobs [c]) (\<lambda>_. Inr [c])))
       else
         let roots = readEpicChainRootBeadIds sqlite target in
         andThen (if roots \<noteq> [] then Inr roots else readEpicChildIds listed target) (\<lambda>childIds.
           andThen (resolveMergeTargetsForBeadIds readBead statuses childIds) (\<lambda>cs.
             if cs = [] then Inl (''No mergeable chain branches found under epic '' @ quoted target) else Inr cs)))"

section \<open>Lemmas on the targets\<close>

lemma to_set_props: "distinct (foldl set_add ys xs) = distinct ys" "set (foldl set_add ys xs) = set ys \<union> set xs"
  by (induction xs arbitrary: ys) (auto simp: set_add_def)

lemma to_set_distinct [simp]: "distinct (to_set xs)" and set_to_set [simp]: "set (to_set xs) = set xs"
  by (simp_all add: to_set_def to_set_props)

lemma topological_order:
  assumes "distinct (map ct_bead cs)" and "[] \<notin> ct_bead ` set cs"
  shows "acyclic (waits_rel cs deps) \<longleftrightarrow> (\<exists>os. topologicallySortChains cs deps = Inr os)"
    and "topologicallySortChains cs deps = Inr os \<Longrightarrow>
       distinct (map ct_bead os) \<and> set os = set cs
     \<and> (\<forall>xs c ys. os = xs @ c # ys \<longrightarrow>
          (\<forall>d \<in> set (list_at deps (ct_bead c)). d \<in> ct_bead ` set cs \<longrightarrow> d \<in> ct_bead ` set xs))"
proof -
  obtain ps ind where r: "topologicallySortChains cs deps =
       (if length ps \<noteq> length cs then Inl ''Unable to compute merge order: dependency cycle detected'' else Inr ps)"
     "kahn_inv cs deps (map ct_bead ps) [] ind" "set ps \<subseteq> set cs"
    using topological_result [OF assms(1), of deps] assms(2) by (auto simp: ids_of_def)
  note placed = all_placed_iff [OF assms(1) r(2,3)]
  show "acyclic (waits_rel cs deps) \<longleftrightarrow> (\<exists>os. topologicallySortChains cs deps = Inr os)"
    using r(1) placed(1) order_acyclic [OF r(2)] stuck_cyclic [OF r(2)] by auto
  assume "topologicallySortChains cs deps = Inr os"
  then have os: "os = ps" "length ps = length cs" using r(1) by (auto split: if_splits)
  have "d \<in> ct_bead ` set xs"
    if "ps = xs @ c # ys" "d \<in> set (list_at deps (ct_bead c))" "d \<in> ct_bead ` set cs" for xs c ys d
  proof -
    have "map ct_bead ps = map ct_bead xs @ ct_bead c # map ct_bead ys" using that(1) by simp
    from kahn_invD(3) [OF r(2) this] show ?thesis using that(2,3) by (auto simp: waits_for_def ids_of_def)
  qed
  moreover have "distinct (map ct_bead ps)" using r(2) unfolding kahn_inv_def by simp
  ultimately show "distinct (map ct_bead os) \<and> set os = set cs
     \<and> (\<forall>xs c ys. os = xs @ c # ys \<longrightarrow>
          (\<forall>d \<in> set (list_at deps (ct_bead c)). d \<in> ct_bead ` set cs \<longrightarrow> d \<in> ct_bead ` set xs))"
    using os placed(2) by blast
qed

lemma selected_bead: "selectNewestChainRootJob b statuses = Some c \<Longrightarrow> ct_bead c = b"
  by (auto simp: selectNewestChainRootJob_def split: list.splits if_splits)

lemma ensure_terminal: "ensureTerminalJobs cs = Inr () \<longleftrightarrow> (\<forall>c \<in> set cs. ct_status c \<in> {''done'', ''error'', ''cancelled''})"
  by (auto simp: ensureTerminalJobs_def TERMINAL_STATUSES_merge_def filter_empty_conv Let_def)

lemma loaded_dependencies:
  "load_dependencies readBead sel bs m = Inr m' \<Longrightarrow> b \<in> set bs \<Longrightarrow> readBead b = Inr bead \<Longrightarrow>
     list_at m' b = filter (\<lambda>d. d \<in> sel) (map the (filter truthy (bs_dependencies bead)))"
proof (induction bs arbitrary: m)
  case Nil
  then show ?case by simp
next
  case (Cons a bs)
  have keep: "load_dependencies readBead sel bs m = Inr m' \<Longrightarrow> b \<notin> set bs \<Longrightarrow> map_get m' b = map_get m b" for bs m
    by (induction bs arbitrary: m) (auto simp: andThen_Inr_iff map_get_set)
  show ?case
  proof (cases "b \<in> set bs")
    case True
    then show ?thesis using Cons by (auto simp: andThen_Inr_iff)
  next
    case False
    then show ?thesis using Cons.prems keep [OF _ False] by (auto simp: andThen_Inr_iff list_at_def map_get_set)
  qed
qed

lemma chosen_chains:
  assumes "distinct beadIds" and "[] \<notin> set beadIds"
    and "cs = List.map_filter (\<lambda>b. selectNewestChainRootJob b statuses) beadIds"
  shows "distinct (map ct_bead cs)" and "ct_bead ` set cs \<subseteq> set beadIds"
    and "c \<in> set cs \<Longrightarrow> selectNewestChainRootJob (ct_bead c) statuses = Some c"
proof -
  have "map ct_bead cs = filter (\<lambda>b. selectNewestChainRootJob b statuses \<noteq> None) beadIds"
    unfolding assms(3) by (induction beadIds) (auto simp: List.map_filter_simps selected_bead split: option.splits)
  then show "distinct (map ct_bead cs)" "ct_bead ` set cs \<subseteq> set beadIds"
    using assms(1) by (simp, metis filter_is_subset list.set_map)
  show "c \<in> set cs \<Longrightarrow> selectNewestChainRootJob (ct_bead c) statuses = Some c"
    unfolding assms(3) by (auto simp: List.map_filter_def selected_bead)
qed

lemma targets_for_beads:
  assumes "resolveMergeTargetsForBeadIds readBead statuses beadIds = Inr ts"
    and "distinct beadIds" and "[] \<notin> set beadIds"
  shows "ts \<noteq> [] \<and> distinct (map ct_bead ts)
     \<and> (\<forall>c \<in> set ts. ct_status c \<in> {''done'', ''error'', ''cancelled''} \<and> ct_bead c \<in> set beadIds
          \<and> selectNewestChainRootJob (ct_bead c) statuses = Some c)
     \<and> (\<forall>xs c ys bead d. ts = xs @ c # ys \<longrightarrow> readBead (ct_bead c) = Inr bead \<longrightarrow> Some d \<in> set (bs_dependencies bead)
          \<longrightarrow> d \<in> ct_bead ` set ts \<longrightarrow> d \<in> ct_bead ` set xs)"
proof -
  let ?cs = "List.map_filter (\<lambda>b. selectNewestChainRootJob b statuses) beadIds"
  note chosen = chosen_chains [where statuses = statuses and cs = ?cs, OF assms(2,3) refl]
  obtain deps where cs: "?cs \<noteq> []" "ensureTerminalJobs ?cs = Inr ()"
    and deps: "load_dependencies readBead (set (map ct_bead ?cs)) (map ct_bead ?cs) [] = Inr deps"
    and sort: "topologicallySortChains ?cs deps = Inr ts"
    using assms(1) by (auto simp: resolveMergeTargetsForBeadIds_def loadDependenciesFor_def Let_def andThen_Inr_iff
        split: if_splits)
  have ne: "[] \<notin> ct_bead ` set ?cs" using chosen(2) assms(3) by blast
  note order = topological_order(2) [OF chosen(1) ne sort]
  have set_ts: "set ts = set ?cs" using order by simp
  have "d \<in> ct_bead ` set xs"
    if at: "ts = xs @ c # ys" "readBead (ct_bead c) = Inr bead" "Some d \<in> set (bs_dependencies bead)" "d \<in> ct_bead ` set ts"
    for xs c ys bead d
  proof -
    have "c \<in> set ?cs" using at(1) set_ts by auto
    then have "list_at deps (ct_bead c) = filter (\<lambda>d. d \<in> ct_bead ` set ?cs) (map the (filter truthy (bs_dependencies bead)))"
      using loaded_dependencies [OF deps _ at(2)] by simp
    moreover have "d \<noteq> []" using at(4) ne set_ts by metis
    then have "d \<in> set (map the (filter truthy (bs_dependencies bead)))"
      using at(3) by (force simp: truthy_def)
    ultimately show ?thesis using order at(1,4) set_ts by auto
  qed
  then show ?thesis using order cs chosen set_ts by (auto simp: ensure_terminal)
qed

lemma roots_ok: "distinct (readEpicChainRootBeadIds sqlite epic)" "[] \<notin> set (readEpicChainRootBeadIds sqlite epic)"
  by (auto simp: readEpicChainRootBeadIds_def split: option.splits)

lemma guard_passes:
  assumes "checkEpicUnresolvedGuard ph readBead (Some db) bead = Inr g" and "\<not> gr_blocked g"
    and "resolveEpicByChainRootBeadId db bead = Some m" and "chain_epic m \<noteq> []"
    and "readEpicRun db (chain_epic m) = Some run" and "isEpicUnresolvedState (run_status run)"
  shows "\<exists>c \<in> set (es_chains (loadEpicReadinessSummary ph db (chain_epic m))).
    (ch_root_bead c = Some bead \<or> ch_id c = bead) \<and> ch_state c = Chain_pass"
  using assms
  by (auto simp: checkEpicUnresolvedGuard_def resolveChainEpicMembership_def truthy_def Let_def find_Some_iff
      split: option.splits if_splits)

section \<open>Properties\<close>

text \<open>C20. The order of a merge. An order is found exactly when the dependencies among the chains
  have no cycle, and then it holds every chain once, each after all the chains it depends on.\<close>

theorem merge_order_correct:
  assumes "distinct (map ct_bead cs)" and "[] \<notin> ct_bead ` set cs"
  shows "((\<exists>os. topologicallySortChains cs deps = Inr os) \<longleftrightarrow> acyclic (waits_rel cs deps))
    \<and> (\<forall>os. topologicallySortChains cs deps = Inr os \<longrightarrow>
         distinct (map ct_bead os) \<and> set os = set cs
       \<and> (\<forall>xs c ys. os = xs @ c # ys \<longrightarrow>
            (\<forall>d \<in> set (list_at deps (ct_bead c)). d \<in> ct_bead ` set cs \<longrightarrow> d \<in> ct_bead ` set xs)))"
  using topological_order [OF assms] by blast

definition demo_chain :: "string \<Rightarrow> int \<Rightarrow> chain_target" where
  "demo_chain b t = \<lparr>ct_bead = b, ct_branch = ''feature/'' @ b, ct_worktree = ''/w/'' @ b, ct_job = ''j'' @ b,
     ct_status = ''done'', ct_started = t\<rparr>"

theorem merge_order_correct_witness:
  "topologicallySortChains [demo_chain ''a'' 1, demo_chain ''b'' 2] [(''a'', [''b''])]
     = Inr [demo_chain ''b'' 2, demo_chain ''a'' 1]
   \<and> acyclic (waits_rel [demo_chain ''a'' 1, demo_chain ''b'' 2] [(''a'', [''b''])])"
proof -
  have "topologicallySortChains [demo_chain ''a'' 1, demo_chain ''b'' 2] [(''a'', [''b''])]
     = Inr [demo_chain ''b'' 2, demo_chain ''a'' 1]"
    by code_simp
  then show ?thesis
    using merge_order_correct [of "[demo_chain ''a'' 1, demo_chain ''b'' 2]" "[(''a'', [''b''])]"]
    by (simp add: demo_chain_def)
qed

text \<open>What a merge is given. The targets found for a bead are chains whose newest job has ended,
  each once; for an epic each stands after the targets its bead depends on; a chain merged by
  itself whose epic is not resolved yet is one the derived readiness passes.\<close>

theorem merge_targets_sound:
  assumes "resolveMergeTargets ph readBead listed sqlite statuses target = Inr ts"
  shows "ts \<noteq> [] \<and> distinct (map ct_bead ts)
    \<and> (\<forall>c \<in> set ts. ct_status c \<in> {''done'', ''error'', ''cancelled''}
          \<and> selectNewestChainRootJob (ct_bead c) statuses = Some c)
    \<and> (\<forall>b. readBead target = Inr b \<longrightarrow>
         (if bs_type b = Some ''epic'' then
            \<forall>xs c ys bead d. ts = xs @ c # ys \<longrightarrow> readBead (ct_bead c) = Inr bead \<longrightarrow> Some d \<in> set (bs_dependencies bead)
              \<longrightarrow> d \<in> ct_bead ` set ts \<longrightarrow> d \<in> ct_bead ` set xs
          else map ct_bead ts = [target]
            \<and> (\<forall>db m run. sqlite = Some db \<longrightarrow> resolveEpicByChainRootBeadId db target = Some m \<longrightarrow> chain_epic m \<noteq> []
                 \<longrightarrow> readEpicRun db (chain_epic m) = Some run \<longrightarrow> isEpicUnresolvedState (run_status run)
                 \<longrightarrow> (\<exists>c \<in> set (es_chains (loadEpicReadinessSummary ph db (chain_epic m))).
                        (ch_root_bead c = Some target \<or> ch_id c = target) \<and> ch_state c = Chain_pass))))"
proof -
  obtain b where b: "readBead target = Inr b"
    using assms by (auto simp: resolveMergeTargets_def andThen_Inr_iff)
  show ?thesis
  proof (cases "bs_type b = Some ''epic''")
    case False
    then obtain c g where sel: "selectNewestChainRootJob target statuses = Some c" "ts = [c]"
      and ok: "checkEpicUnresolvedGuard ph readBead sqlite (ct_bead c) = Inr g" "\<not> gr_blocked g" "ensureTerminalJobs [c] = Inr ()"
      using assms b by (auto simp: resolveMergeTargets_def andThen_Inr_iff split: option.splits if_splits)
    have "ct_bead c = target" by (rule selected_bead [OF sel(1)])
    then show ?thesis
      using False b sel ok(3) guard_passes [OF _ ok(2)] ok(1) by (auto simp: ensure_terminal)
  next
    case True
    then have "resolveMergeTargetsForBeadIds readBead statuses (readEpicChainRootBeadIds sqlite target) = Inr ts
        \<or> (\<exists>ids. resolveMergeTargetsForBeadIds readBead statuses (to_set (filter (\<lambda>i. i \<noteq> []) ids)) = Inr ts)"
      using assms b
      by (auto simp: resolveMergeTargets_def readEpicChildIds_def andThen_Inr_iff Let_def split: if_splits)
    then obtain beadIds where ids: "distinct beadIds" "[] \<notin> set beadIds"
      and ts: "resolveMergeTargetsForBeadIds readBead statuses beadIds = Inr ts"
    proof (elim disjE exE)
      fix ids
      assume "resolveMergeTargetsForBeadIds readBead statuses (to_set (filter (\<lambda>i. i \<noteq> []) ids)) = Inr ts"
      then show thesis by (intro that [of "to_set (filter (\<lambda>i. i \<noteq> []) ids)"]) simp_all
    qed (use roots_ok [of sqlite target] that in blast)
    show ?thesis using targets_for_beads [OF ts ids] True b by auto
  qed
qed

definition demo_read_bead :: "string \<Rightarrow> string + bead_summary" where
  "demo_read_bead b =
     Inr \<lparr>bs_id = b, bs_type = (if b = ''e'' then Some ''epic'' else Some ''task''), bs_parent = None,
          bs_dependencies = (if b = ''a'' then [Some ''b'', None, Some ''x''] else [])\<rparr>"

definition demo_job_record :: "string \<Rightarrow> int \<Rightarrow> job_status_record" where
  "demo_job_record b t = \<lparr>jr_id = ''j'' @ b, jr_bead = Some b, jr_status = Some ''done'',
     jr_branch = Some (''feature/'' @ b), jr_worktree = Some (''/w/'' @ b), jr_started = Some t\<rparr>"

theorem merge_targets_sound_witness:
  "\<exists>ts. resolveMergeTargets demo_ph demo_read_bead (\<lambda>_. Inr [''a'', ''b'', ''c'', ''a'']) None
      [demo_job_record ''a'' 1, demo_job_record ''b'' 2, demo_job_record ''b'' 1] ''e'' = Inr ts
    \<and> ts = [demo_chain ''b'' 2, demo_chain ''a'' 1] \<and> distinct (map ct_bead ts)"
proof -
  have run: "resolveMergeTargets demo_ph demo_read_bead (\<lambda>_. Inr [''a'', ''b'', ''c'', ''a'']) None
      [demo_job_record ''a'' 1, demo_job_record ''b'' 2, demo_job_record ''b'' 1] ''e''
    = Inr [demo_chain ''b'' 2, demo_chain ''a'' 1]"
    by code_simp
  show ?thesis using run merge_targets_sound [OF run] by blast
qed

end
