(* ===== verification/Merge_Plan.thy ===== *)
theory Merge_Plan imports Merge_Order Epic_Reconciler "HOL-Library.Sublist" begin

text \<open>
  The execution of a merge plan in \<open>src/cli/merge.ts\<close>: shelving what is uncommitted, and for
  each target the test that it is worth merging, the rebase, the merge, the type check and the
  records. Every program the code runs (\<open>git\<close>, \<open>gh\<close>, \<open>bunx\<close>, \<open>bun\<close>) is a parameter,
  \<open>spawn\<close>, with the state of the world it reads and changes; the commands are listed in
  \<open>calls\<close> as they are run, with their exit status. The texts they print are parsed as the code
  parses them. Printing to the console is left out.
\<close>

section \<open>Commands\<close>

record cmd_result =
  exit_status :: "int option"
  out :: string
  err :: string

record call =
  call_cwd :: string
  call_cmd :: string
  call_args :: "string list"
  call_status :: "int option"

record integration_event =
  ie_job :: string
  ie_branch :: string
  ie_worktree :: string
  ie_target :: string
  ie_target_worktree :: string
  ie_commit :: string

record 'w machine =
  world :: 'w
  calls :: "call list"
  sqlite :: "store option"
  integrations :: "integration_event list"

text \<open>\<open>dir_entries\<close> and \<open>package_json\<close> read the file system, \<open>clock\<close> gives the times of the
  three writes of a synchronisation.\<close>

record 'w shell =
  spawn :: "string \<Rightarrow> string \<Rightarrow> string list \<Rightarrow> 'w \<Rightarrow> cmd_result \<times> 'w"
  sh_cwd :: string
  dir_entries :: "'w \<Rightarrow> string \<Rightarrow> string list"
  package_json :: "'w \<Rightarrow> string \<Rightarrow> json_text option"
  host_processes :: process_host
  clock :: "'w \<Rightarrow> int \<times> int \<times> int"

type_synonym ('w, 'a) io = "'w machine \<Rightarrow> (string + 'a) \<times> 'w machine"

definition ret :: "'a \<Rightarrow> ('w, 'a) io" where
  "ret x = (\<lambda>s. (Inr x, s))"

definition throw :: "string \<Rightarrow> ('w, 'a) io" where
  "throw e = (\<lambda>s. (Inl e, s))"

definition bind_io :: "('w, 'a) io \<Rightarrow> ('a \<Rightarrow> ('w, 'b) io) \<Rightarrow> ('w, 'b) io" where
  "bind_io m f = (\<lambda>s. case m s of (Inl e, s') \<Rightarrow> (Inl e, s') | (Inr x, s') \<Rightarrow> f x s')"

definition runCommand :: "'w shell \<Rightarrow> string \<Rightarrow> string \<Rightarrow> string list \<Rightarrow> ('w, cmd_result) io" where
  "runCommand sh cwd cmd args = (\<lambda>s.
     case spawn sh cwd cmd args (world s) of
       (r, w) \<Rightarrow> (Inr r, s\<lparr>world := w,
         calls := calls s @ [\<lparr>call_cwd = cwd, call_cmd = cmd, call_args = args, call_status = exit_status r\<rparr>]\<rparr>))"

definition ok :: "cmd_result \<Rightarrow> bool" where
  "ok r \<longleftrightarrow> exit_status r = Some 0"

text \<open>\<open>stderr.trim() || stdout.trim() || unknown\<close>.\<close>

definition detail_of :: "cmd_result \<Rightarrow> string \<Rightarrow> string" where
  "detail_of r unknown =
     (if trim (err r) \<noteq> [] then trim (err r) else if trim (out r) \<noteq> [] then trim (out r) else unknown)"

definition out_lines :: "cmd_result \<Rightarrow> string list" where
  "out_lines r = map trim (split_on newline (out r))"

definition bullet_list :: "string list \<Rightarrow> string" where
  "bullet_list xs = join [newline] (map (\<lambda>x. ''- '' @ x) xs)"

section \<open>Branches and worktrees\<close>

definition validateTargetBranchRef :: "'w shell \<Rightarrow> string \<Rightarrow> string \<Rightarrow> ('w, string) io" where
  "validateTargetBranchRef sh b cwd =
     bind_io (runCommand sh cwd ''git'' [''rev-parse'', ''--verify'', b @ ''^{commit}'']) (\<lambda>r.
       if \<not> ok r then throw (''Invalid --target-branch '' @ quoted b @ '': '' @ detail_of r ''unknown git ref error'')
       else ret b)"

definition local_head_branch :: "'w shell \<Rightarrow> string \<Rightarrow> ('w, string) io" where
  "local_head_branch sh cwd =
     bind_io (runCommand sh cwd ''git'' [''rev-parse'', ''--abbrev-ref'', ''HEAD'']) (\<lambda>r.
       if ok r \<and> trim (out r) \<noteq> [] \<and> trim (out r) \<noteq> ''HEAD'' then ret (trim (out r))
       else throw ''Unable to resolve repository default branch (origin/HEAD).'')"

definition resolveDefaultBranchName :: "'w shell \<Rightarrow> string \<Rightarrow> string option \<Rightarrow> ('w, string) io" where
  "resolveDefaultBranchName sh cwd override =
     (if truthy override then ret (the override)
      else bind_io (runCommand sh cwd ''git'' [''symbolic-ref'', ''--quiet'', ''--short'', ''refs/remotes/origin/HEAD'']) (\<lambda>r.
        let remote = trim (out r); name = trim (drop (length ''origin/'') remote) in
        if ok r \<and> starts_with ''origin/'' remote \<and> name \<noteq> [] then ret name else local_head_branch sh cwd))"

definition toplevel_root :: "'w shell \<Rightarrow> string \<Rightarrow> ('w, string) io" where
  "toplevel_root sh cwd =
     bind_io (runCommand sh cwd ''git'' [''rev-parse'', ''--show-toplevel'']) (\<lambda>r.
       if ok r \<and> trim (out r) \<noteq> [] then ret (trim (out r)) else throw ''Unable to resolve main worktree root.'')"

definition resolveMainWorktreeRoot :: "'w shell \<Rightarrow> ('w, string) io" where
  "resolveMainWorktreeRoot sh =
     bind_io (runCommand sh (sh_cwd sh) ''git'' [''worktree'', ''list'', ''--porcelain'']) (\<lambda>r.
       case (if ok r then find (starts_with ''worktree '') (out_lines r) else None) of
         Some line \<Rightarrow>
           (let path = trim (drop (length ''worktree '') line) in
            if path \<noteq> [] then ret path else toplevel_root sh (sh_cwd sh))
       | None \<Rightarrow> toplevel_root sh (sh_cwd sh))"

definition getCurrentHeadBranch :: "'w shell \<Rightarrow> string \<Rightarrow> ('w, string) io" where
  "getCurrentHeadBranch sh cwd =
     bind_io (runCommand sh cwd ''git'' [''rev-parse'', ''--abbrev-ref'', ''HEAD'']) (\<lambda>r.
       if \<not> ok r then throw ''Unable to resolve current git branch before rebase.''
       else if trim (out r) = [] \<or> trim (out r) = ''HEAD''
       then throw ''Detached HEAD is not supported during merge-time rebase.''
       else ret (trim (out r)))"

definition getConflictFiles :: "'w shell \<Rightarrow> string \<Rightarrow> ('w, string list) io" where
  "getConflictFiles sh cwd =
     bind_io (runCommand sh cwd ''git'' [''diff'', ''--name-only'', ''--diff-filter=U'']) (\<lambda>r.
       ret (if ok r then filter (\<lambda>l. l \<noteq> []) (out_lines r) else []))"

definition readChangedFilesForLastMerge :: "'w shell \<Rightarrow> string \<Rightarrow> ('w, string list) io" where
  "readChangedFilesForLastMerge sh cwd =
     bind_io (runCommand sh cwd ''git'' [''diff'', ''--name-only'', ''HEAD^1'', ''HEAD'']) (\<lambda>r.
       ret (if ok r then filter (\<lambda>l. l \<noteq> []) (out_lines r) else []))"

section \<open>What is uncommitted\<close>

definition NOISE_PATH_PREFIXES :: "string list" where
  "NOISE_PATH_PREFIXES = [''.xtrm/reports/'', ''.wolf/'', ''.specialists/jobs/'']"

definition MERGE_DIRTY_IGNORE_PREFIXES :: "string list" where
  "MERGE_DIRTY_IGNORE_PREFIXES = NOISE_PATH_PREFIXES @ [''.beads/'', ''.xtrm/skills/active/'', ''dist/'']"

definition isMergeDirtyIgnored :: "string \<Rightarrow> bool" where
  "isMergeDirtyIgnored path = list_ex (\<lambda>p. starts_with p path) MERGE_DIRTY_IGNORE_PREFIXES"

definition isNoisePath :: "string \<Rightarrow> bool" where
  "isNoisePath path = list_ex (\<lambda>p. starts_with p path) NOISE_PATH_PREFIXES"

record dirty_paths =
  tracked :: "string list"
  untracked :: "string list"

text \<open>
  The match of \<open>/^..\s(.+?)(?:\s->\s(.+))?$/\<close>: the shortest first group after which the rest of
  the line is an arrow and a second group, or nothing. \<open>.\<close> is any character but a line end.
\<close>

definition dot_char :: "char \<Rightarrow> bool" where
  "dot_char c \<longleftrightarrow> char_code c \<notin> {10, 13}"

definition arrow_tail :: "string \<Rightarrow> string option" where
  "arrow_tail s = (case s of
     w # a # b # v # t \<Rightarrow>
       if is_space w \<and> a = CHR ''-'' \<and> b = CHR ''>'' \<and> is_space v \<and> t \<noteq> [] \<and> list_all dot_char t
       then Some t else None
   | _ \<Rightarrow> None)"

fun lazy_group :: "string \<Rightarrow> string \<Rightarrow> (string \<times> string option) option" where
  "lazy_group acc [] = Some (acc, None)"
| "lazy_group acc (c # cs) =
     (case arrow_tail (c # cs) of
        Some t \<Rightarrow> Some (acc, Some t)
      | None \<Rightarrow> if dot_char c then lazy_group (acc @ [c]) cs else None)"

definition match_status_line :: "string \<Rightarrow> (string \<times> string option) option" where
  "match_status_line line = (case line of
     a # b # w # c # cs \<Rightarrow>
       if dot_char a \<and> dot_char b \<and> is_space w \<and> dot_char c then lazy_group [c] cs else None
   | _ \<Rightarrow> None)"

definition status_line :: "string \<Rightarrow> dirty_paths \<Rightarrow> dirty_paths" where
  "status_line rawLine d =
     (let line = trim rawLine in
      if line = [] then d
      else if starts_with ''?? '' line then
        (let path = trim (drop 3 line) in
         if path \<noteq> [] \<and> \<not> isMergeDirtyIgnored path then d\<lparr>untracked := untracked d @ [path]\<rparr> else d)
      else
        (let path = (case match_status_line line of
                       Some (p, q) \<Rightarrow> (case q of Some r \<Rightarrow> r | None \<Rightarrow> p)
                     | None \<Rightarrow> trim (drop 3 line)) in
         if path \<noteq> [] \<and> \<not> isMergeDirtyIgnored path then d\<lparr>tracked := tracked d @ [trim path]\<rparr> else d))"

definition parseGitStatusPaths :: "string \<Rightarrow> dirty_paths" where
  "parseGitStatusPaths s = fold status_line (split_on newline s) \<lparr>tracked = [], untracked = []\<rparr>"

definition getMainRepoDirtyPaths :: "'w shell \<Rightarrow> string \<Rightarrow> ('w, dirty_paths) io" where
  "getMainRepoDirtyPaths sh cwd =
     bind_io (runCommand sh cwd ''git'' [''status'', ''--porcelain=v1'']) (\<lambda>r.
       if \<not> ok r then throw (''Unable to read git status in '' @ quoted cwd @ ''.'')
       else ret (parseGitStatusPaths (out r)))"

definition assertMainRepoCleanForMerge :: "'w shell \<Rightarrow> string \<Rightarrow> ('w, unit) io" where
  "assertMainRepoCleanForMerge sh cwd =
     bind_io (getMainRepoDirtyPaths sh cwd) (\<lambda>d.
       let dirty = tracked d @ untracked d in
       if dirty = [] then ret ()
       else throw (''Refusing merge: main repo '' @ quoted cwd
         @ '' has uncommitted changes that could cause spurious conflicts.'' @ [newline]
         @ ''Dirty files (tracked + untracked, non-dist/wolf/xtrm):'' @ [newline] @ bullet_list dirty @ [newline]
         @ ''Resolve by committing, stashing, or reverting these changes, then retry merge.''))"

section \<open>What a branch brings\<close>

record file_delta =
  fd_status :: string
  fd_path :: string

record merge_preview =
  pv_files :: "file_delta list"
  pv_substantive :: "file_delta list"
  pv_noise :: "file_delta list"

datatype worthiness = Worth_ok | Already_published | Empty_delta | Noise_only_delta

text \<open>The line is trimmed, so it neither starts nor ends with a tab, and splitting at runs of
  tabs gives its non-empty pieces.\<close>

definition tab :: char where
  "tab = char_of (9 :: nat)"

definition parseNameStatusLine :: "string \<Rightarrow> file_delta option" where
  "parseNameStatusLine line =
     (let parts = filter (\<lambda>p. p \<noteq> []) (split_on tab (trim line)) in
      if length parts < 2 then None
      else Some \<lparr>fd_status = hd parts, fd_path = (if 3 \<le> length parts then last parts else parts ! 1)\<rparr>)"

definition isBranchAlreadyPublished :: "'w shell \<Rightarrow> string \<Rightarrow> string \<Rightarrow> string option \<Rightarrow> ('w, bool) io" where
  "isBranchAlreadyPublished sh b cwd target =
     bind_io (resolveDefaultBranchName sh cwd target) (\<lambda>base.
     bind_io (runCommand sh cwd ''git'' [''merge-base'', ''--is-ancestor'', b, base]) (\<lambda>r.
       if ok r then ret True
       else bind_io (runCommand sh cwd ''git''
              [''rev-list'', ''--right-only'', ''--cherry-pick'', ''--no-merges'', ''--count'', base @ ''...'' @ b]) (\<lambda>c.
         ret (ok c \<and> trim (out c) = ''0''))))"

definition previewBranchMergeDelta :: "'w shell \<Rightarrow> string \<Rightarrow> string \<Rightarrow> string option \<Rightarrow> ('w, merge_preview) io" where
  "previewBranchMergeDelta sh b cwd target =
     bind_io (resolveDefaultBranchName sh cwd target) (\<lambda>base.
     bind_io (runCommand sh cwd ''git'' [''merge-base'', base, b]) (\<lambda>r.
       if \<not> ok r \<or> trim (out r) = []
       then throw (''Unable to compute merge base for '' @ quoted base @ '' and '' @ quoted b @ ''.'')
       else bind_io (runCommand sh cwd ''git'' [''diff'', trim (out r) @ ''..'' @ b, ''--name-status'']) (\<lambda>d.
         if \<not> ok d then throw (''Unable to read merge delta for '' @ quoted b @ ''.'')
         else
           let files = List.map_filter parseNameStatusLine (split_on newline (out d)) in
           ret \<lparr>pv_files = files, pv_substantive = filter (\<lambda>f. \<not> isNoisePath (fd_path f)) files,
                pv_noise = filter (\<lambda>f. isNoisePath (fd_path f)) files\<rparr>)))"

definition evaluateMergeWorthiness ::
  "'w shell \<Rightarrow> merge_preview \<Rightarrow> string \<Rightarrow> string \<Rightarrow> string option \<Rightarrow> ('w, worthiness) io" where
  "evaluateMergeWorthiness sh p b cwd target =
     (if pv_files p = [] then
        bind_io (isBranchAlreadyPublished sh b cwd target) (\<lambda>y. ret (if y then Already_published else Empty_delta))
      else if pv_substantive p = [] then
        bind_io (isBranchAlreadyPublished sh b cwd target) (\<lambda>y. ret (if y then Already_published else Noise_only_delta))
      else ret Worth_ok)"

definition worthiness_error :: "chain_target \<Rightarrow> merge_preview \<Rightarrow> worthiness \<Rightarrow> string" where
  "worthiness_error t p w =
     ''Refusing merge for '' @ quoted (ct_branch t) @ '': ''
       @ (if w = Empty_delta then ''empty merge delta'' else ''noise-only merge delta'') @ ''.'' @ [newline]
       @ ''Diagnostics: '' @ join '' '' [''beadId='' @ ct_bead t, ''jobId='' @ ct_job t, ''branch='' @ ct_branch t,
           ''total='' @ show_nat (length (pv_files p)), ''substantive='' @ show_nat (length (pv_substantive p)),
           ''noise='' @ show_nat (length (pv_noise p))]"

definition assertBranchMergeWorthiness :: "'w shell \<Rightarrow> chain_target \<Rightarrow> string \<Rightarrow> string option \<Rightarrow> ('w, worthiness) io" where
  "assertBranchMergeWorthiness sh t cwd target =
     bind_io (previewBranchMergeDelta sh (ct_branch t) cwd target) (\<lambda>p.
     bind_io (evaluateMergeWorthiness sh p (ct_branch t) cwd target) (\<lambda>w.
       if w = Already_published \<or> w = Worth_ok then ret w else throw (worthiness_error t p w)))"

section \<open>Merging one branch\<close>

definition conflict_text :: "string list \<Rightarrow> string" where
  "conflict_text files = (if files = [] then [] else newline # ''Conflicting files:'' @ [newline] @ bullet_list files)"

definition rebaseBranchOntoMaster :: "'w shell \<Rightarrow> string \<Rightarrow> string \<Rightarrow> string option \<Rightarrow> ('w, unit) io" where
  "rebaseBranchOntoMaster sh b worktree target =
     bind_io (resolveDefaultBranchName sh worktree target) (\<lambda>base.
     bind_io (getCurrentHeadBranch sh worktree) (\<lambda>current.
       if current \<noteq> b
       then throw (''Expected branch '' @ quoted b @ '' in worktree '' @ quoted worktree @ '', found '' @ quoted current @ ''.'')
       else bind_io (runCommand sh worktree ''git'' [''rebase'', base]) (\<lambda>r.
         if ok r then ret ()
         else bind_io (getConflictFiles sh worktree) (\<lambda>files.
              bind_io (runCommand sh worktree ''git'' [''rebase'', ''--abort'']) (\<lambda>_.
                throw (''Rebase failed for '' @ quoted b @ '' onto '' @ quoted base @ '' in worktree '' @ quoted worktree @ ''.''
                  @ conflict_text files @ [newline]
                  @ ''Resolve conflicts manually in that worktree, then re-run merge.'' @ [newline]
                  @ ''Details: '' @ detail_of r ''Unknown git rebase error''))))))"

definition merge_args :: "string \<Rightarrow> string list" where
  "merge_args b = [''merge'', b, ''--no-ff'', ''--no-edit'']"

definition mergeBranch :: "'w shell \<Rightarrow> string \<Rightarrow> string \<Rightarrow> ('w, unit) io" where
  "mergeBranch sh b cwd =
     bind_io (runCommand sh cwd ''git'' (merge_args b)) (\<lambda>r.
       if ok r then ret ()
       else bind_io (getConflictFiles sh cwd) (\<lambda>files.
         throw (''Merge conflict while merging '' @ quoted b @ ''.'' @ conflict_text files)))"

definition hasTypeScriptConfig :: "'w shell \<Rightarrow> string \<Rightarrow> 'w \<Rightarrow> bool" where
  "hasTypeScriptConfig sh cwd w =
     (''tsconfig.json'' \<in> set (dir_entries sh w cwd)
      \<or> list_ex (\<lambda>e. starts_with ''tsconfig'' e \<and> ends_with ''.json'' e) (dir_entries sh w cwd))"

definition runTypecheckGate :: "'w shell \<Rightarrow> string \<Rightarrow> ('w, unit) io" where
  "runTypecheckGate sh cwd = (\<lambda>s.
     if \<not> hasTypeScriptConfig sh cwd (world s) then ret () s
     else bind_io (runCommand sh cwd ''bunx'' [''tsc'', ''--noEmit'']) (\<lambda>r.
       if ok r then ret ()
       else throw (''TypeScript gate failed after merge.'' @ [newline] @ detail_of r ''Unknown tsc error'')) s)"

fun has_build :: "json_text option \<Rightarrow> bool" where
  "has_build (Some (Text j)) =
     (case Option.bind (field j ''scripts'') (\<lambda>m. field m ''build'') of Some (JStr b) \<Rightarrow> b \<noteq> [] | _ \<Rightarrow> False)"
| "has_build _ = False"

definition hasNodeBuildScript :: "'w shell \<Rightarrow> string \<Rightarrow> 'w \<Rightarrow> bool" where
  "hasNodeBuildScript sh cwd w = has_build (package_json sh w cwd)"

definition runRebuild :: "'w shell \<Rightarrow> string \<Rightarrow> ('w, unit) io" where
  "runRebuild sh cwd = (\<lambda>s.
     if \<not> hasNodeBuildScript sh cwd (world s) then ret () s
     else bind_io (runCommand sh cwd ''bun'' [''run'', ''build'']) (\<lambda>r.
       if ok r then ret () else throw (''Rebuild failed.'' @ [newline] @ detail_of r ''Unknown build error'')) s)"

definition syncEpicStateAfterMerge :: "'w shell \<Rightarrow> chain_target \<Rightarrow> ('w, unit) io" where
  "syncEpicStateAfterMerge sh t = (\<lambda>s.
     case sqlite s of
       None \<Rightarrow> ret () s
     | Some db \<Rightarrow>
         (case resolveEpicByChainRootBeadId db (ct_bead t) of
            None \<Rightarrow> ret () s
          | Some m \<Rightarrow>
              if chain_epic m = [] then ret () s
              else case clock sh (world s) of (t1, t2, t3) \<Rightarrow>
                (Inr (), s\<lparr>sqlite := Some (snd (syncEpicState (host_processes sh) t1 t2 t3 (chain_epic m) True db))\<rparr>)))"

text \<open>What it throws is caught.\<close>

definition recordBranchIntegrationAfterMerge ::
  "'w shell \<Rightarrow> chain_target \<Rightarrow> string \<Rightarrow> string option \<Rightarrow> ('w, unit) io" where
  "recordBranchIntegrationAfterMerge sh t root target = (\<lambda>s.
     let (r, s') = bind_io (runCommand sh root ''git'' [''rev-parse'', ''HEAD'']) (\<lambda>head.
           if \<not> ok head \<or> trim (out head) = [] then ret ()
           else (\<lambda>s1. if sqlite s1 = None then ret () s1
             else bind_io (case target of Some b \<Rightarrow> ret b | None \<Rightarrow> resolveDefaultBranchName sh root None) (\<lambda>into s2.
               (Inr (), s2\<lparr>integrations := integrations s2 @
                 [\<lparr>ie_job = ct_job t, ie_branch = ct_branch t, ie_worktree = ct_worktree t, ie_target = into,
                   ie_target_worktree = root, ie_commit = trim (out head)\<rparr>]\<rparr>)) s1)) s
     in (Inr (), s'))"

section \<open>Shelving\<close>

definition getIncomingMergePaths :: "'w shell \<Rightarrow> string list \<Rightarrow> string \<Rightarrow> ('w, string list) io" where
  "getIncomingMergePaths sh bs cwd =
     foldr (\<lambda>b rest. bind_io (previewBranchMergeDelta sh b cwd None) (\<lambda>p.
       bind_io rest (\<lambda>paths. ret (filter (\<lambda>f. \<not> isMergeDirtyIgnored f) (map fd_path (pv_files p)) @ paths)))) bs (ret [])"

definition classifyMainRepoDirtyState ::
  "'w shell \<Rightarrow> string list \<Rightarrow> string \<Rightarrow> ('w, dirty_paths \<times> string list) io" where
  "classifyMainRepoDirtyState sh bs cwd =
     bind_io (getMainRepoDirtyPaths sh cwd) (\<lambda>d.
     bind_io (getIncomingMergePaths sh bs cwd) (\<lambda>incoming.
       ret (d, filter (\<lambda>p. p \<in> set incoming) (tracked d @ untracked d))))"

definition stash_push_args :: "string \<Rightarrow> string list" where
  "stash_push_args label =
     [''stash'', ''push'', ''--include-untracked'', ''--message'', ''sp epic merge '' @ label @ '' auto-shelve'']"

definition shelveMainRepoDirtyState ::
  "'w shell \<Rightarrow> string \<Rightarrow> dirty_paths \<Rightarrow> string \<Rightarrow> ('w, string list option) io" where
  "shelveMainRepoDirtyState sh cwd d label =
     (let dirtyPaths = tracked d @ untracked d in
      if dirtyPaths = [] then ret None
      else bind_io (runCommand sh cwd ''git'' (stash_push_args label)) (\<lambda>r.
        if \<not> ok r
        then throw (''Unable to shelve dirty main-tree state in '' @ quoted cwd @ ''.'' @ [newline] @ detail_of r ''Unknown git error'')
        else ret (Some dirtyPaths)))"

definition STASH_REF :: string where
  "STASH_REF = ''stash@'' @ [CHR 0x7B] @ ''0}''"

definition restoreShelvedMainState :: "'w shell \<Rightarrow> string \<Rightarrow> string list \<Rightarrow> ('w, unit) io" where
  "restoreShelvedMainState sh cwd dirtyPaths =
     bind_io (runCommand sh cwd ''git'' [''stash'', ''apply'', ''--index'', STASH_REF]) (\<lambda>r.
       if ok r then
         bind_io (runCommand sh cwd ''git'' [''stash'', ''drop'', STASH_REF]) (\<lambda>d.
           if ok d then ret ()
           else throw (''Restored shelved state but failed to drop stash '' @ quoted STASH_REF @ ''.'' @ [newline]
                  @ detail_of d ''Unknown git error''))
       else throw (''Merge succeeded, but restoring shelved dirty state failed for stash '' @ quoted STASH_REF @ ''.'' @ [newline]
         @ join [newline] [''Recovery:'', ''  git status'', ''  git stash list --grep '' @ [CHR 0x22] @ ''sp epic merge'' @ [CHR 0x22],
             ''  git stash apply --index '' @ STASH_REF, ''  git stash drop '' @ STASH_REF, ''Files:'', bullet_list dirtyPaths,
             ''Details: '' @ detail_of r ''Unknown git error'']))"

section \<open>The plan\<close>

datatype publication_mode = Direct | Pr

record merge_options =
  mo_rebuild :: bool
  mo_mode :: "publication_mode option"
  mo_label :: "string option"
  mo_target :: "string option"

record merge_step =
  ms_bead :: string
  ms_branch :: string
  ms_files :: "string list"

text \<open>One round of the loop over the targets.\<close>

definition merge_target :: "'w shell \<Rightarrow> string \<Rightarrow> string option \<Rightarrow> chain_target \<Rightarrow> ('w, merge_step) io" where
  "merge_target sh root target t =
     bind_io (assertBranchMergeWorthiness sh t root target) (\<lambda>w.
       if w = Already_published then ret \<lparr>ms_bead = ct_bead t, ms_branch = ct_branch t, ms_files = []\<rparr>
       else
         bind_io (rebaseBranchOntoMaster sh (ct_branch t) (ct_worktree t) target) (\<lambda>_.
         bind_io (mergeBranch sh (ct_branch t) root) (\<lambda>_.
         bind_io (runTypecheckGate sh root) (\<lambda>_.
         bind_io (syncEpicStateAfterMerge sh t) (\<lambda>_.
         bind_io (recordBranchIntegrationAfterMerge sh t root target) (\<lambda>_.
         bind_io (readChangedFilesForLastMerge sh root) (\<lambda>files.
           ret \<lparr>ms_bead = ct_bead t, ms_branch = ct_branch t, ms_files = files\<rparr>)))))))"

fun merge_each :: "'w shell \<Rightarrow> string \<Rightarrow> string option \<Rightarrow> chain_target list \<Rightarrow> ('w, merge_step list) io" where
  "merge_each sh root target [] = ret []"
| "merge_each sh root target (t # ts) =
     bind_io (merge_target sh root target t) (\<lambda>step.
     bind_io (merge_each sh root target ts) (\<lambda>steps. ret (step # steps)))"

text \<open>\<open>try body finally handler\<close>: what the handler throws replaces the result.\<close>

definition finally_io :: "('w, 'a) io \<Rightarrow> ('w, unit) io \<Rightarrow> ('w, 'a) io" where
  "finally_io m h = (\<lambda>s. case m s of (r, s1) \<Rightarrow> (case h s1 of (Inl e, s2) \<Rightarrow> (Inl e, s2) | (Inr _, s2) \<Rightarrow> (r, s2)))"

definition plan_body ::
  "'w shell \<Rightarrow> string \<Rightarrow> string option \<Rightarrow> merge_options \<Rightarrow> chain_target list \<Rightarrow> ('w, merge_step list) io" where
  "plan_body sh root target opts ts =
     bind_io (merge_each sh root target ts) (\<lambda>steps.
       if mo_rebuild opts then bind_io (runRebuild sh root) (\<lambda>_. ret steps) else ret steps)"

definition shelve_direct ::
  "'w shell \<Rightarrow> string \<Rightarrow> merge_options \<Rightarrow> chain_target list \<Rightarrow> ('w, string list option) io" where
  "shelve_direct sh root opts ts =
     bind_io (classifyMainRepoDirtyState sh (map ct_branch ts) root) (\<lambda>(d, overlap).
       if overlap \<noteq> [] then
         throw (''Refusing merge: main repo '' @ quoted root @ '' has dirty files overlapping incoming epic changes.'' @ [newline]
           @ ''Overlap:'' @ [newline] @ bullet_list overlap @ [newline] @ ''Resolve or move these changes, then retry merge.'')
       else shelveMainRepoDirtyState sh root d
         (case mo_label opts of Some l \<Rightarrow> l
          | None \<Rightarrow> ''epic-'' @ (case ts of [] \<Rightarrow> ''publication'' | t # _ \<Rightarrow> ct_bead t)))"

definition runMergePlan :: "'w shell \<Rightarrow> chain_target list \<Rightarrow> merge_options \<Rightarrow> ('w, merge_step list) io" where
  "runMergePlan sh ts opts =
     bind_io (resolveMainWorktreeRoot sh) (\<lambda>root.
     bind_io (case mo_target opts of
                Some b \<Rightarrow> if b \<noteq> [] then bind_io (validateTargetBranchRef sh b root) (\<lambda>b. ret (Some b)) else ret None
              | None \<Rightarrow> ret None) (\<lambda>target.
     bind_io (if mo_mode opts = Some Direct then shelve_direct sh root opts ts else ret None) (\<lambda>shelved.
       finally_io (plan_body sh root target opts ts)
         (case shelved of Some paths \<Rightarrow> restoreShelvedMainState sh root paths | None \<Rightarrow> ret ()))))"

section \<open>Publication\<close>

definition getCurrentBranchName :: "'w shell \<Rightarrow> ('w, string) io" where
  "getCurrentBranchName sh =
     bind_io (runCommand sh (sh_cwd sh) ''git'' [''rev-parse'', ''--abbrev-ref'', ''HEAD'']) (\<lambda>r.
       if \<not> ok r then throw ''Unable to resolve current git branch.''
       else if trim (out r) = [] \<or> trim (out r) = ''HEAD'' then throw ''Detached HEAD is not supported for PR publication.''
       else ret (trim (out r)))"

definition checkoutNewBranch :: "'w shell \<Rightarrow> string \<Rightarrow> ('w, unit) io" where
  "checkoutNewBranch sh b =
     bind_io (runCommand sh (sh_cwd sh) ''git'' [''checkout'', ''-b'', b]) (\<lambda>r.
       if ok r then ret () else throw (''Failed to create publish branch '' @ quoted b @ '': '' @ detail_of r ''unknown git error''))"

definition checkoutBranch :: "'w shell \<Rightarrow> string \<Rightarrow> ('w, unit) io" where
  "checkoutBranch sh b =
     bind_io (runCommand sh (sh_cwd sh) ''git'' [''checkout'', b]) (\<lambda>r.
       if ok r then ret () else throw (''Failed to checkout branch '' @ quoted b @ '': '' @ detail_of r ''unknown git error''))"

definition createPullRequest :: "'w shell \<Rightarrow> string \<Rightarrow> string \<Rightarrow> string \<Rightarrow> ('w, string) io" where
  "createPullRequest sh base published label =
     bind_io (runCommand sh (sh_cwd sh) ''gh''
       [''pr'', ''create'', ''--base'', base, ''--head'', published, ''--title'', ''[sp] Publish '' @ label, ''--body'',
        join [newline] [''Automated publication for '' @ label @ ''.'', [],
          ''Generated by `sp merge --pr` / `sp epic merge --pr` / `sp end --pr`.'']]) (\<lambda>r.
       if \<not> ok r then throw (''Failed to create PR via gh CLI: '' @ detail_of r ''unknown gh error'')
       else (case find (starts_with ''http'') (out_lines r) of
               Some url \<Rightarrow> ret url
             | None \<Rightarrow> throw ''gh pr create succeeded but did not return a PR URL.''))"

definition plain_char :: "char \<Rightarrow> bool" where
  "plain_char c \<longleftrightarrow> is_lower_letter c \<or> is_upper_letter c \<or> is_digit c \<or> c \<in> {CHR ''.'', CHR ''_'', CHR ''-''}"

definition publish_branch :: "string \<Rightarrow> int \<Rightarrow> string" where
  "publish_branch label now = ''sp/publish-'' @ squeeze (\<lambda>c. \<not> plain_char c) ''-'' False label @ ''-'' @ show_int now"

text \<open>\<open>try m catch (e) \<lbrace> h; throw e \<rbrace>\<close>, with what \<open>h\<close> throws swallowed.\<close>

definition on_error :: "('w, 'a) io \<Rightarrow> ('w, unit) io \<Rightarrow> ('w, 'a) io" where
  "on_error m h = (\<lambda>s. case m s of (Inl e, s1) \<Rightarrow> (Inl e, snd (h s1)) | (Inr x, s1) \<Rightarrow> (Inr x, s1))"

definition executePublicationPlan ::
  "'w shell \<Rightarrow> int \<Rightarrow> chain_target list \<Rightarrow> merge_options \<Rightarrow> ('w, merge_step list \<times> string option) io" where
  "executePublicationPlan sh now ts opts =
     (if mo_mode opts = Some Direct then bind_io (runMergePlan sh ts opts) (\<lambda>steps. ret (steps, None))
      else
        let label = (case mo_label opts of Some l \<Rightarrow> l | None \<Rightarrow> []); published = publish_branch label now in
        bind_io (getCurrentBranchName sh) (\<lambda>base.
        bind_io (checkoutNewBranch sh published) (\<lambda>_.
          on_error
            (bind_io (runMergePlan sh ts (opts\<lparr>mo_target := Some published\<rparr>)) (\<lambda>steps.
             bind_io (createPullRequest sh base published label) (\<lambda>url.
             bind_io (checkoutBranch sh base) (\<lambda>_. ret (steps, Some url)))))
            (checkoutBranch sh base))))"

section \<open>Traces\<close>

text \<open>
  \<open>emits P m\<close>: whatever \<open>m\<close> is run on, the commands it adds and its result satisfy \<open>P\<close>.
\<close>

definition emits :: "((string + 'a) \<Rightarrow> call list \<Rightarrow> bool) \<Rightarrow> ('w, 'a) io \<Rightarrow> bool" where
  "emits P m \<longleftrightarrow> (\<forall>s r s'. m s = (r, s') \<longrightarrow> (\<exists>new. calls s' = calls s @ new \<and> P r new))"

named_theorems trace_rules \<open>rules for the commands an operation runs\<close>

definition is_merge :: "call \<Rightarrow> bool" where
  "is_merge c \<longleftrightarrow> call_cmd c = ''git'' \<and> call_args c \<noteq> [] \<and> hd (call_args c) = ''merge''"

definition is_stash :: "call \<Rightarrow> bool" where
  "is_stash c \<longleftrightarrow> call_cmd c = ''git'' \<and> call_args c \<noteq> [] \<and> hd (call_args c) = ''stash''"

text \<open>No merge, nothing put on the stash or taken from it.\<close>

definition is_quiet :: "call \<Rightarrow> bool" where
  "is_quiet c \<longleftrightarrow> \<not> is_merge c \<and> \<not> is_stash c"

definition quiet :: "('w, 'a) io \<Rightarrow> bool" where
  "quiet m \<longleftrightarrow> emits (\<lambda>r new. list_all is_quiet new) m"

lemma emitsI:
  "(\<And>s r s'. m s = (r, s') \<Longrightarrow> \<exists>new. calls s' = calls s @ new \<and> P r new) \<Longrightarrow> emits P m"
  unfolding emits_def by blast

lemma emits_mono: "emits P m \<Longrightarrow> (\<And>r new. P r new \<Longrightarrow> Q r new) \<Longrightarrow> emits Q m"
  unfolding emits_def by meson

lemma emits_ret: "P (Inr x) [] \<Longrightarrow> emits P (ret x)"
  by (simp add: emits_def ret_def)

lemma emits_throw: "P (Inl e) [] \<Longrightarrow> emits P (throw e)"
  by (simp add: emits_def throw_def)

lemma emits_bind:
  assumes "emits P m" and "\<And>x. emits (Q x) (f x)"
    and "\<And>e new. P (Inl e) new \<Longrightarrow> R (Inl e) new"
    and "\<And>x new r new'. P (Inr x) new \<Longrightarrow> Q x r new' \<Longrightarrow> R r (new @ new')"
  shows "emits R (bind_io m f)"
proof (rule emitsI)
  fix s r s'
  assume run: "bind_io m f s = (r, s')"
  obtain r1 s1 where m: "m s = (r1, s1)" by (cases "m s")
  then obtain new where new: "calls s1 = calls s @ new" "P r1 new" using assms(1) unfolding emits_def by blast
  show "\<exists>new. calls s' = calls s @ new \<and> R r new"
  proof (cases r1)
    case (Inl e)
    then show ?thesis using run m new assms(3) by (auto simp: bind_io_def)
  next
    case (Inr x)
    then have "f x s1 = (r, s')" using run m by (simp add: bind_io_def)
    then obtain new' where "calls s' = calls s1 @ new'" "Q x r new'" using assms(2) unfolding emits_def by blast
    then show ?thesis using new Inr assms(4) by (intro exI [of _ "new @ new'"]) simp
  qed
qed

lemma emits_command:
  assumes "\<And>r st. P (Inr r) [\<lparr>call_cwd = cwd, call_cmd = cmd, call_args = args, call_status = exit_status r\<rparr>]"
  shows "emits P (runCommand sh cwd cmd args)"
  using assms by (auto simp: emits_def runCommand_def split: prod.splits)

lemma quiet_ret [trace_rules]: "quiet (ret x)"
  by (simp add: quiet_def emits_ret)

lemma quiet_throw [trace_rules]: "quiet (throw e)"
  by (simp add: quiet_def emits_throw)

lemma quiet_bind [trace_rules]: "quiet m \<Longrightarrow> (\<And>x. quiet (f x)) \<Longrightarrow> quiet (bind_io m f)"
  unfolding quiet_def by (erule emits_bind) auto

lemma quiet_command [trace_rules]:
  "cmd \<noteq> ''git'' \<or> args = [] \<or> hd args \<notin> {''merge'', ''stash''} \<Longrightarrow> quiet (runCommand sh cwd cmd args)"
  unfolding quiet_def by (rule emits_command) (auto simp: is_quiet_def is_merge_def is_stash_def)

lemma quiet_if [trace_rules]: "(b \<Longrightarrow> quiet m) \<Longrightarrow> (\<not> b \<Longrightarrow> quiet m') \<Longrightarrow> quiet (if b then m else m')"
  by simp

lemma quiet_option [trace_rules]:
  "(x = None \<Longrightarrow> quiet m) \<Longrightarrow> (\<And>y. x = Some y \<Longrightarrow> quiet (f y)) \<Longrightarrow> quiet (case x of None \<Rightarrow> m | Some y \<Rightarrow> f y)"
  by (cases x) simp_all

text \<open>An operation that looks at the state first.\<close>

lemma quiet_branch: "quiet m \<Longrightarrow> quiet m' \<Longrightarrow> quiet (\<lambda>s. if b s then m s else m' s)"
  unfolding quiet_def emits_def by simp

lemma quiet_silent: "(\<And>s. calls (snd (g s)) = calls s) \<Longrightarrow> quiet g"
  unfolding quiet_def emits_def by (metis append_Nil2 list.pred_inject(1) snd_conv)

section \<open>What each operation runs\<close>

lemma quiet_validate [trace_rules]: "quiet (validateTargetBranchRef sh b cwd)"
  unfolding validateTargetBranchRef_def by (intro trace_rules) simp

lemma quiet_local_head [trace_rules]: "quiet (local_head_branch sh cwd)"
  unfolding local_head_branch_def by (intro trace_rules) simp

lemma quiet_default_branch [trace_rules]: "quiet (resolveDefaultBranchName sh cwd override)"
  unfolding resolveDefaultBranchName_def Let_def by (intro trace_rules) simp

lemma quiet_toplevel [trace_rules]: "quiet (toplevel_root sh cwd)"
  unfolding toplevel_root_def by (intro trace_rules) simp

lemma quiet_main_root [trace_rules]: "quiet (resolveMainWorktreeRoot sh)"
  unfolding resolveMainWorktreeRoot_def Let_def by (intro trace_rules) simp

lemma quiet_head_branch [trace_rules]: "quiet (getCurrentHeadBranch sh cwd)"
  unfolding getCurrentHeadBranch_def by (intro trace_rules) simp

lemma quiet_conflicts [trace_rules]: "quiet (getConflictFiles sh cwd)"
  unfolding getConflictFiles_def by (intro trace_rules) simp

lemma quiet_changed [trace_rules]: "quiet (readChangedFilesForLastMerge sh cwd)"
  unfolding readChangedFilesForLastMerge_def by (intro trace_rules) simp

lemma quiet_dirty [trace_rules]: "quiet (getMainRepoDirtyPaths sh cwd)"
  unfolding getMainRepoDirtyPaths_def by (intro trace_rules) simp

lemma quiet_published [trace_rules]: "quiet (isBranchAlreadyPublished sh b cwd target)"
  unfolding isBranchAlreadyPublished_def by (intro trace_rules) simp_all

lemma quiet_preview [trace_rules]: "quiet (previewBranchMergeDelta sh b cwd target)"
  unfolding previewBranchMergeDelta_def Let_def by (intro trace_rules) simp_all

lemma quiet_worthiness [trace_rules]: "quiet (evaluateMergeWorthiness sh p b cwd target)"
  unfolding evaluateMergeWorthiness_def by (intro trace_rules)

lemma quiet_assert_worth [trace_rules]: "quiet (assertBranchMergeWorthiness sh t cwd target)"
  unfolding assertBranchMergeWorthiness_def by (intro trace_rules)

lemma quiet_typecheck [trace_rules]: "quiet (runTypecheckGate sh cwd)"
  unfolding runTypecheckGate_def by (intro quiet_branch trace_rules) simp

lemma quiet_rebuild [trace_rules]: "quiet (runRebuild sh cwd)"
  unfolding runRebuild_def by (intro quiet_branch trace_rules) simp

lemma quiet_sync [trace_rules]: "quiet (syncEpicStateAfterMerge sh t)"
  by (rule quiet_silent) (auto simp: syncEpicStateAfterMerge_def ret_def split: option.splits prod.splits)

lemma quiet_incoming [trace_rules]: "quiet (getIncomingMergePaths sh bs cwd)"
  unfolding getIncomingMergePaths_def by (induction bs) (auto intro!: trace_rules)

lemma quiet_classify [trace_rules]: "quiet (classifyMainRepoDirtyState sh bs cwd)"
  unfolding classifyMainRepoDirtyState_def by (intro trace_rules)

lemma quiet_ignored: "quiet m \<Longrightarrow> quiet (\<lambda>s. let (r, s') = m s in (Inr (), s'))"
  unfolding quiet_def emits_def by (auto split: prod.splits)

lemma quiet_record [trace_rules]: "quiet (recordBranchIntegrationAfterMerge sh t root target)"
  unfolding recordBranchIntegrationAfterMerge_def
proof (rule quiet_ignored, intro trace_rules)
  fix head
  let ?store = "\<lambda>into s2. (Inr (), s2\<lparr>integrations := integrations s2 @
                 [\<lparr>ie_job = ct_job t, ie_branch = ct_branch t, ie_worktree = ct_worktree t, ie_target = into,
                   ie_target_worktree = root, ie_commit = trim (out head)\<rparr>]\<rparr>)"
  have "quiet (bind_io (case target of Some b \<Rightarrow> ret b | None \<Rightarrow> resolveDefaultBranchName sh root None) ?store)"
    by (intro trace_rules) (simp add: quiet_silent)
  then show "quiet (\<lambda>s1. if sqlite s1 = None then ret () s1
             else bind_io (case target of Some b \<Rightarrow> ret b | None \<Rightarrow> resolveDefaultBranchName sh root None) ?store s1)"
    by (rule quiet_branch [OF quiet_ret])
qed simp

text \<open>A quiet prefix, a command, and results with a known shape.\<close>

lemma emits_quiet_bind:
  assumes "quiet m" and "\<And>x. emits Q (f x)" and "\<And>e new. list_all is_quiet new \<Longrightarrow> R (Inl e) new"
    and "\<And>new r new'. list_all is_quiet new \<Longrightarrow> Q r new' \<Longrightarrow> R r (new @ new')"
  shows "emits R (bind_io m f)"
  using assms(1) unfolding quiet_def by (rule emits_bind [where Q = "\<lambda>_. Q"]) (use assms in auto)

lemma emits_command_bind:
  assumes "\<And>r. emits (Q r) (f r)"
    and "\<And>r res new. Q r res new \<Longrightarrow>
      R res (\<lparr>call_cwd = cwd, call_cmd = cmd, call_args = args, call_status = exit_status r\<rparr> # new)"
  shows "emits R (bind_io (runCommand sh cwd cmd args) f)"
  using assms by (fastforce simp: emits_def bind_io_def runCommand_def split: prod.splits)

definition yields :: "('a \<Rightarrow> bool) \<Rightarrow> ('w, 'a) io \<Rightarrow> bool" where
  "yields S m \<longleftrightarrow> emits (\<lambda>r new. list_all is_quiet new \<and> (\<forall>x. r = Inr x \<longrightarrow> S x)) m"

lemma yields_ret: "S x \<Longrightarrow> yields S (ret x)"
  by (simp add: yields_def emits_ret)

lemma yields_throw: "yields S (throw e)"
  by (simp add: yields_def emits_throw)

lemma yields_bind: "quiet m \<Longrightarrow> (\<And>x. yields S (f x)) \<Longrightarrow> yields S (bind_io m f)"
  unfolding yields_def by (erule emits_quiet_bind) auto

lemma yields_never:
  assumes "yields (\<lambda>_. False) m"
  shows "emits (\<lambda>r new. list_all is_quiet new \<and> (\<exists>e. r = Inl e)) m"
  using assms unfolding yields_def
proof (rule emits_mono)
  fix r and new
  assume "list_all is_quiet new \<and> (\<forall>x. r = Inr x \<longrightarrow> False)"
  then show "list_all is_quiet new \<and> (\<exists>e. r = Inl e)" by (cases r) auto
qed

definition rebase_call :: "string \<Rightarrow> string \<Rightarrow> call" where
  "rebase_call wt base = \<lparr>call_cwd = wt, call_cmd = ''git'', call_args = [''rebase'', base], call_status = Some 0\<rparr>"

definition merge_call :: "string \<Rightarrow> string \<Rightarrow> int option \<Rightarrow> call" where
  "merge_call root b st = \<lparr>call_cwd = root, call_cmd = ''git'', call_args = merge_args b, call_status = st\<rparr>"

definition rebased :: "string \<Rightarrow> (string + unit) \<Rightarrow> call list \<Rightarrow> bool" where
  "rebased wt r new \<longleftrightarrow> list_all is_quiet new
     \<and> (r = Inr () \<longrightarrow> (\<exists>pre base. new = pre @ [rebase_call wt base]))"

lemma emits_rebase: "emits (rebased wt) (rebaseBranchOntoMaster sh b wt target)"
proof -
  let ?R = "rebased wt"
  have last: "emits ?R (bind_io (runCommand sh wt ''git'' [''rebase'', base]) (\<lambda>r.
         if ok r then ret ()
         else bind_io (getConflictFiles sh wt) (\<lambda>files.
              bind_io (runCommand sh wt ''git'' [''rebase'', ''--abort'']) (\<lambda>_. throw (g files r)))))" for base and g
  proof (rule emits_command_bind [where Q = "\<lambda>r res new. list_all is_quiet new \<and> (ok r \<longrightarrow> new = []) \<and> (\<not> ok r \<longrightarrow> res \<noteq> Inr ())"])
    fix r
    show "emits (\<lambda>res new. list_all is_quiet new \<and> (ok r \<longrightarrow> new = []) \<and> (\<not> ok r \<longrightarrow> res \<noteq> Inr ()))
      (if ok r then ret () else bind_io (getConflictFiles sh wt) (\<lambda>files.
              bind_io (runCommand sh wt ''git'' [''rebase'', ''--abort'']) (\<lambda>_. throw (g files r))))"
    proof (cases "ok r")
      case True
      then show ?thesis by (simp add: emits_ret)
    next
      case False
      have "yields (\<lambda>_. False) (bind_io (getConflictFiles sh wt) (\<lambda>files.
              bind_io (runCommand sh wt ''git'' [''rebase'', ''--abort'']) (\<lambda>_. throw (g files r))))"
        by (intro yields_bind yields_throw trace_rules) simp
      then show ?thesis using False unfolding yields_def by (auto elim!: emits_mono)
    qed
  next
    fix r and res :: "string + unit" and new
    assume "list_all is_quiet new \<and> (ok r \<longrightarrow> new = []) \<and> (\<not> ok r \<longrightarrow> res \<noteq> Inr ())"
    then show "?R res (\<lparr>call_cwd = wt, call_cmd = ''git'', call_args = [''rebase'', base], call_status = exit_status r\<rparr> # new)"
      by (auto simp: rebased_def is_quiet_def is_merge_def is_stash_def rebase_call_def ok_def)
  qed
  have thrown: "emits ?R (throw e)" for e
    by (rule emits_throw) (simp add: rebased_def)
  show ?thesis
    unfolding rebaseBranchOntoMaster_def
  proof (rule emits_quiet_bind [where Q = ?R], rule quiet_default_branch)
    fix base
    show "emits ?R (bind_io (getCurrentHeadBranch sh wt) (\<lambda>current.
       if current \<noteq> b
       then throw (''Expected branch '' @ quoted b @ '' in worktree '' @ quoted wt @ '', found '' @ quoted current @ ''.'')
       else bind_io (runCommand sh wt ''git'' [''rebase'', base]) (\<lambda>r.
         if ok r then ret ()
         else bind_io (getConflictFiles sh wt) (\<lambda>files.
              bind_io (runCommand sh wt ''git'' [''rebase'', ''--abort'']) (\<lambda>_.
                throw (''Rebase failed for '' @ quoted b @ '' onto '' @ quoted base @ '' in worktree '' @ quoted wt @ ''.''
                  @ conflict_text files @ [newline]
                  @ ''Resolve conflicts manually in that worktree, then re-run merge.'' @ [newline]
                  @ ''Details: '' @ detail_of r ''Unknown git rebase error''))))))"
      by (rule emits_quiet_bind [where Q = ?R], rule quiet_head_branch)
        (auto simp: rebased_def intro: thrown last)
  qed (auto simp: rebased_def)
qed

text \<open>A merge and, when it worked, quiet commands after it.\<close>

definition merged :: "string \<Rightarrow> string \<Rightarrow> (string + 'a) \<Rightarrow> call list \<Rightarrow> bool" where
  "merged root b r new \<longleftrightarrow>
     (\<exists>st q. new = merge_call root b st # q \<and> list_all is_quiet q \<and> (\<forall>x. r = Inr x \<longrightarrow> st = Some 0))"

lemma emits_merge:
  fixes sh :: "'w shell"
  shows "emits (merged root b) (mergeBranch sh b root)"
  unfolding mergeBranch_def
proof (rule emits_command_bind [where Q = "\<lambda>r res new. list_all is_quiet new \<and> (\<not> ok r \<longrightarrow> (\<exists>e. res = Inl e))"])
  fix r
  have "yields (\<lambda>_. False) (bind_io (getConflictFiles sh root) (\<lambda>files.
         (throw (''Merge conflict while merging '' @ quoted b @ ''.'' @ conflict_text files) :: ('w, unit) io)))"
    by (intro yields_bind yields_throw trace_rules)
  then have "emits (\<lambda>res new. list_all is_quiet new \<and> (\<exists>e. res = Inl e)) (bind_io (getConflictFiles sh root) (\<lambda>files.
         (throw (''Merge conflict while merging '' @ quoted b @ ''.'' @ conflict_text files) :: ('w, unit) io)))"
    by (rule yields_never)
  then show "emits (\<lambda>res new. list_all is_quiet new \<and> (\<not> ok r \<longrightarrow> (\<exists>e. res = Inl e)))
      (if ok r then ret () else bind_io (getConflictFiles sh root) (\<lambda>files.
         (throw (''Merge conflict while merging '' @ quoted b @ ''.'' @ conflict_text files) :: ('w, unit) io)))"
    by (simp add: emits_ret)
qed (auto simp: merged_def merge_call_def ok_def)

definition step_of :: "chain_target \<Rightarrow> merge_step \<Rightarrow> bool" where
  "step_of t st \<longleftrightarrow> ms_bead st = ct_bead t \<and> ms_branch st = ct_branch t"

text \<open>What a round runs: quiet commands only, or with a merge right after the rebase of its branch.\<close>

definition round_trace :: "string \<Rightarrow> chain_target \<Rightarrow> (string + merge_step) \<Rightarrow> call list \<Rightarrow> bool" where
  "round_trace root t r new \<longleftrightarrow> (\<forall>x. r = Inr x \<longrightarrow> step_of t x) \<and>
     (list_all is_quiet new
      \<or> (\<exists>q1 base st q2. new = q1 @ [rebase_call (ct_worktree t) base, merge_call root (ct_branch t) st] @ q2
           \<and> list_all is_quiet q1 \<and> list_all is_quiet q2 \<and> (\<forall>x. r = Inr x \<longrightarrow> st = Some 0)))"

lemma round_quiet: "(\<And>x. r = Inr x \<Longrightarrow> step_of t x) \<Longrightarrow> list_all is_quiet new \<Longrightarrow> round_trace root t r new"
  by (auto simp: round_trace_def)

lemma round_merge:
  assumes "\<And>x. r = Inr x \<Longrightarrow> step_of t x" and "list_all is_quiet q1" and "list_all is_quiet q2"
    and "\<And>x. r = Inr x \<Longrightarrow> st = Some 0"
  shows "round_trace root t r (q1 @ [rebase_call (ct_worktree t) base, merge_call root (ct_branch t) st] @ q2)"
  unfolding round_trace_def using assms by blast

lemma round_prefix:
  assumes "list_all is_quiet q" and "round_trace root t r new"
  shows "round_trace root t r (q @ new)"
proof (cases "list_all is_quiet new")
  case True
  then show ?thesis using assms by (auto simp: round_trace_def)
next
  case False
  then obtain q1 base st q2 where
    "new = q1 @ [rebase_call (ct_worktree t) base, merge_call root (ct_branch t) st] @ q2"
    "list_all is_quiet q1" "list_all is_quiet q2" "\<forall>x. r = Inr x \<longrightarrow> st = Some 0" "\<forall>x. r = Inr x \<longrightarrow> step_of t x"
    using assms(2) by (auto simp: round_trace_def)
  then show ?thesis using round_merge [of r t "q @ q1" q2 st root base] assms(1) by simp
qed

lemma emits_round: "emits (round_trace root t) (merge_target sh root target t)"
proof -
  let ?step = "\<lambda>files. \<lparr>ms_bead = ct_bead t, ms_branch = ct_branch t, ms_files = files\<rparr>"
  let ?after = "bind_io (runTypecheckGate sh root) (\<lambda>_.
         bind_io (syncEpicStateAfterMerge sh t) (\<lambda>_.
         bind_io (recordBranchIntegrationAfterMerge sh t root target) (\<lambda>_.
         bind_io (readChangedFilesForLastMerge sh root) (\<lambda>files. ret (?step files)))))"
  have after: "yields (step_of t) ?after"
    by (intro yields_bind yields_ret trace_rules) (simp add: step_of_def)
  have merge: "emits (\<lambda>r new. (\<forall>x. r = Inr x \<longrightarrow> step_of t x) \<and> merged root (ct_branch t) r new)
      (bind_io (mergeBranch sh (ct_branch t) root) (\<lambda>_. ?after))"
    by (rule emits_bind [OF emits_merge, where Q = "\<lambda>_ r new. list_all is_quiet new \<and> (\<forall>x. r = Inr x \<longrightarrow> step_of t x)"])
      (use after in \<open>auto simp: yields_def merged_def\<close>)
  have "emits (round_trace root t)
      (bind_io (rebaseBranchOntoMaster sh (ct_branch t) (ct_worktree t) target) (\<lambda>_.
         bind_io (mergeBranch sh (ct_branch t) root) (\<lambda>_. ?after)))"
  proof (rule emits_bind [OF emits_rebase], rule merge)
    fix e new assume "rebased (ct_worktree t) (Inl e) new"
    then show "round_trace root t (Inl e) new" by (simp add: rebased_def round_trace_def)
  next
    fix x :: unit and new r new'
    assume "rebased (ct_worktree t) (Inr x) new"
      and "(\<forall>x. r = Inr x \<longrightarrow> step_of t x) \<and> merged root (ct_branch t) r new'"
    then obtain pre base st q where "new = pre @ [rebase_call (ct_worktree t) base]"
        "new' = merge_call root (ct_branch t) st # q" "list_all is_quiet q" "list_all is_quiet pre"
        "\<forall>x. r = Inr x \<longrightarrow> st = Some 0" "\<forall>x. r = Inr x \<longrightarrow> step_of t x"
      by (auto simp: rebased_def merged_def)
    then show "round_trace root t r (new @ new')" using round_merge [of r t pre q st root base] by simp
  qed
  then show ?thesis
    unfolding merge_target_def
    by (intro emits_quiet_bind [where Q = "round_trace root t"] trace_rules)
      (auto intro: round_quiet round_prefix simp: step_of_def intro!: emits_ret)
qed

text \<open>What the rounds run together.\<close>

definition rebased_first :: "string \<Rightarrow> chain_target list \<Rightarrow> call list \<Rightarrow> bool" where
  "rebased_first root ts new \<longleftrightarrow>
     (\<forall>i < length new. is_merge (new ! i) \<longrightarrow>
        0 < i \<and> (\<exists>t \<in> set ts. \<exists>st base. new ! i = merge_call root (ct_branch t) st
                   \<and> new ! (i - 1) = rebase_call (ct_worktree t) base))"

definition merges_of :: "call list \<Rightarrow> call list" where
  "merges_of new = filter is_merge new"

definition plan_trace :: "string \<Rightarrow> chain_target list \<Rightarrow> (string + merge_step list) \<Rightarrow> call list \<Rightarrow> bool" where
  "plan_trace root ts r new \<longleftrightarrow>
     list_all (\<lambda>c. \<not> is_stash c) new \<and> rebased_first root ts new
   \<and> subseq (map (\<lambda>c. call_args c ! 1) (merges_of new)) (map ct_branch ts)
   \<and> (\<forall>c \<in> set (butlast (merges_of new)). call_status c = Some 0)
   \<and> (\<forall>steps. r = Inr steps \<longrightarrow> map ms_bead steps = map ct_bead ts \<and> (\<forall>c \<in> set (merges_of new). call_status c = Some 0))"

lemma quiet_facts:
  assumes "list_all is_quiet q"
  shows "merges_of q = []" and "list_all (\<lambda>c. \<not> is_stash c) q" and "rebased_first root ts q"
  using assms by (auto simp: merges_of_def list_all_iff is_quiet_def rebased_first_def filter_empty_conv)

lemma rebased_first_append:
  assumes "rebased_first root A xs" and "rebased_first root B ys" and "set A \<subseteq> set C" and "set B \<subseteq> set C"
  shows "rebased_first root C (xs @ ys)"
  unfolding rebased_first_def
proof (intro allI impI)
  fix i assume i: "i < length (xs @ ys)" "is_merge ((xs @ ys) ! i)"
  show "0 < i \<and> (\<exists>t \<in> set C. \<exists>st base. (xs @ ys) ! i = merge_call root (ct_branch t) st
                   \<and> (xs @ ys) ! (i - 1) = rebase_call (ct_worktree t) base)"
  proof (cases "i < length xs")
    case True
    then show ?thesis using assms(1,3) i unfolding rebased_first_def by (fastforce simp: nth_append)
  next
    case False
    let ?j = "i - length xs"
    have "?j < length ys" "is_merge (ys ! ?j)" using i False by (simp_all add: nth_append)
    then have at: "0 < ?j" "\<exists>t \<in> set B. \<exists>st base. ys ! ?j = merge_call root (ct_branch t) st
                   \<and> ys ! (?j - 1) = rebase_call (ct_worktree t) base"
      using assms(2) unfolding rebased_first_def by blast+
    have "(xs @ ys) ! (i - 1) = ys ! (?j - 1)" using at(1) by (simp add: nth_append)
    then show ?thesis using at assms(4) False by (fastforce simp: nth_append)
  qed
qed

lemma call_kinds [simp]:
  "is_merge (merge_call root b st)" "\<not> is_stash (merge_call root b st)"
  "\<not> is_merge (rebase_call wt base)" "\<not> is_stash (rebase_call wt base)" "call_status (merge_call root b st) = st"
  "call_args (merge_call root b st) ! Suc 0 = b"
  by (simp_all add: is_merge_def is_stash_def merge_call_def rebase_call_def merge_args_def)

lemma rebased_pair: "rebased_first root [t] [rebase_call (ct_worktree t) base, merge_call root (ct_branch t) st]"
  by (auto simp: rebased_first_def less_Suc_eq)

lemma round_facts:
  assumes "round_trace root t r new"
  shows "list_all (\<lambda>c. \<not> is_stash c) new" and "rebased_first root [t] new"
    and "merges_of new = [] \<or> (\<exists>st. merges_of new = [merge_call root (ct_branch t) st] \<and> (\<forall>x. r = Inr x \<longrightarrow> st = Some 0))"
proof -
  consider "list_all is_quiet new"
    | q1 base st q2 where "new = q1 @ [rebase_call (ct_worktree t) base, merge_call root (ct_branch t) st] @ q2"
        "list_all is_quiet q1" "list_all is_quiet q2" "\<forall>x. r = Inr x \<longrightarrow> st = Some 0"
    using assms by (auto simp: round_trace_def)
  then have "list_all (\<lambda>c. \<not> is_stash c) new \<and> rebased_first root [t] new \<and>
    (merges_of new = [] \<or> (\<exists>st. merges_of new = [merge_call root (ct_branch t) st] \<and> (\<forall>x. r = Inr x \<longrightarrow> st = Some 0)))"
  proof cases
    case 1
    then show ?thesis using quiet_facts by blast
  next
    case 2
    have "rebased_first root [t] ([rebase_call (ct_worktree t) base, merge_call root (ct_branch t) st] @ q2)"
      by (rule rebased_first_append [OF rebased_pair quiet_facts(3) [OF 2(3), of _ "[t]"]]) auto
    then have "rebased_first root [t] new"
      unfolding 2(1) by (rule rebased_first_append [where A = "[t]" and B = "[t]", OF quiet_facts(3) [OF 2(2)]]) auto
    moreover have "merges_of new = [merge_call root (ct_branch t) st]"
      using quiet_facts(1) [OF 2(2)] quiet_facts(1) [OF 2(3)] by (simp add: 2(1) merges_of_def)
    moreover have "list_all (\<lambda>c. \<not> is_stash c) new"
      using quiet_facts(2) [OF 2(2)] quiet_facts(2) [OF 2(3)] by (simp add: 2(1))
    ultimately show ?thesis using 2(4) by blast
  qed
  then show "list_all (\<lambda>c. \<not> is_stash c) new" and "rebased_first root [t] new"
    and "merges_of new = [] \<or> (\<exists>st. merges_of new = [merge_call root (ct_branch t) st] \<and> (\<forall>x. r = Inr x \<longrightarrow> st = Some 0))"
    by blast+
qed

lemma plan_stop: "round_trace root t (Inl e) new \<Longrightarrow> plan_trace root (t # ts) (Inl e) new"
  using round_facts [of root t "Inl e" new] rebased_first_append [of root "[t]" new "[]" "[]" "t # ts"]
  by (auto simp: plan_trace_def rebased_first_def)

lemma plan_cons:
  assumes "round_trace root t (Inr x) new" and "plan_trace root ts r new'"
  shows "plan_trace root (t # ts) (case r of Inl e \<Rightarrow> Inl e | Inr steps \<Rightarrow> Inr (x # steps)) (new @ new')"
proof -
  note round = round_facts [OF assms(1)]
  have "merges_of (new @ new') = merges_of new @ merges_of new'" by (simp add: merges_of_def)
  moreover have "rebased_first root (t # ts) (new @ new')"
    by (rule rebased_first_append [OF round(2), of ts]) (use assms(2) in \<open>auto simp: plan_trace_def\<close>)
  moreover have "step_of t x" using assms(1) by (simp add: round_trace_def)
  moreover have "merges_of new = [] \<or> merges_of new = [merge_call root (ct_branch t) (Some 0)]"
    using round(3) by auto
  ultimately show ?thesis
    using assms(2) round(1)
    by (cases r) (auto simp: plan_trace_def step_of_def butlast_append list_emb_Cons split: if_splits)
qed

lemma emits_each: "emits (plan_trace root ts) (merge_each sh root target ts)"
proof (induction ts)
  case Nil
  then show ?case by (auto intro!: emits_ret simp: plan_trace_def rebased_first_def merges_of_def)
next
  case (Cons t ts)
  have rest: "emits (\<lambda>r new. \<forall>x new0. round_trace root t (Inr x) new0 \<longrightarrow> x = step \<longrightarrow> plan_trace root (t # ts) r (new0 @ new))
      (bind_io (merge_each sh root target ts) (\<lambda>steps. ret (step # steps)))" for step
  proof (rule emits_bind [OF Cons.IH, where Q = "\<lambda>steps r new. r = Inr (step # steps) \<and> new = []"])
    show "emits (\<lambda>r new. r = Inr (step # steps) \<and> new = []) (ret (step # steps))" for steps
      by (rule emits_ret) simp
    show "\<forall>x new0. round_trace root t (Inr x) new0 \<longrightarrow> x = step \<longrightarrow> plan_trace root (t # ts) (Inl e) (new0 @ new)"
      if "plan_trace root ts (Inl e) new" for e new
      using plan_cons [OF _ that] by auto
    show "\<forall>x new0. round_trace root t (Inr x) new0 \<longrightarrow> x = step \<longrightarrow> plan_trace root (t # ts) r (new0 @ new @ new')"
      if "plan_trace root ts (Inr steps) new" "r = Inr (step # steps) \<and> new' = []" for steps new r new'
      using plan_cons [OF _ that(1)] that(2) by auto
  qed
  show ?case
    unfolding merge_each.simps
    by (rule emits_bind [OF emits_round rest]) (use plan_stop in auto)
qed

lemma merges_append: "merges_of (xs @ ys) = merges_of xs @ merges_of ys"
  by (simp add: merges_of_def)

lemma plan_suffix:
  assumes "plan_trace root ts (Inr steps) new" and "list_all is_quiet q" and "\<And>x. r = Inr x \<Longrightarrow> x = steps"
  shows "plan_trace root ts r (new @ q)"
proof -
  have "rebased_first root ts (new @ q)"
    by (rule rebased_first_append [where A = ts and B = ts, OF _ quiet_facts(3) [OF assms(2)]])
      (use assms(1) in \<open>auto simp: plan_trace_def\<close>)
  then show ?thesis
    using assms(1,3) quiet_facts(1,2) [OF assms(2)] by (auto simp: plan_trace_def merges_append)
qed

lemma emits_body: "emits (plan_trace root ts) (plan_body sh root target opts ts)"
proof -
  have tail: "yields (\<lambda>x. x = steps)
      (if mo_rebuild opts then bind_io (runRebuild sh root) (\<lambda>_. ret steps) else ret steps)" for steps
    by (cases "mo_rebuild opts") (auto intro!: yields_bind quiet_rebuild yields_ret)
  show ?thesis
    unfolding plan_body_def
    by (rule emits_bind [OF emits_each tail [unfolded yields_def]]) (auto intro: plan_suffix)
qed

section \<open>The shelf\<close>

definition push_call :: "string \<Rightarrow> string \<Rightarrow> int option \<Rightarrow> call" where
  "push_call root label st = \<lparr>call_cwd = root, call_cmd = ''git'', call_args = stash_push_args label, call_status = st\<rparr>"

definition apply_call :: "string \<Rightarrow> int option \<Rightarrow> call" where
  "apply_call root st =
     \<lparr>call_cwd = root, call_cmd = ''git'', call_args = [''stash'', ''apply'', ''--index'', STASH_REF], call_status = st\<rparr>"

definition drop_call :: "string \<Rightarrow> int option \<Rightarrow> call" where
  "drop_call root st =
     \<lparr>call_cwd = root, call_cmd = ''git'', call_args = [''stash'', ''drop'', STASH_REF], call_status = st\<rparr>"

lemma shelf_calls [simp]:
  "is_stash (push_call root label st)" "\<not> is_merge (push_call root label st)"
  "is_stash (apply_call root st)" "\<not> is_merge (apply_call root st)"
  "is_stash (drop_call root st)" "\<not> is_merge (drop_call root st)"
  by (simp_all add: is_stash_def is_merge_def push_call_def apply_call_def drop_call_def stash_push_args_def)

text \<open>The stash applied and dropped; when one of the two fails, so does the plan.\<close>

definition restored_shelf :: "string \<Rightarrow> (string + 'a) \<Rightarrow> call list \<Rightarrow> bool" where
  "restored_shelf root r post \<longleftrightarrow>
     (\<exists>a. post = [apply_call root a] \<and> a \<noteq> Some 0 \<and> isl r)
   \<or> (\<exists>d. post = [apply_call root (Some 0), drop_call root d] \<and> (d = Some 0 \<or> isl r))"

lemma emits_restore: "emits (restored_shelf root) (restoreShelvedMainState sh root paths)"
  unfolding restoreShelvedMainState_def
proof (rule emits_command_bind [where Q = "\<lambda>r res new.
    if ok r then \<exists>d. new = [drop_call root d] \<and> (d = Some 0 \<or> isl res) else new = [] \<and> isl res"], goal_cases)
  case (1 r)
  then show ?case
    by (auto simp: emits_throw drop_call_def ok_def
        intro!: emits_ret emits_throw emits_command_bind [where Q = "\<lambda>d res new. new = [] \<and> (ok d \<or> isl res)"] split: if_splits)
next
  case (2 r res new)
  then show ?case by (auto simp: restored_shelf_def apply_call_def ok_def split: if_splits)
qed

definition shelved :: "string \<Rightarrow> (string + string list option) \<Rightarrow> call list \<Rightarrow> bool" where
  "shelved root r new \<longleftrightarrow>
     (list_all is_quiet new \<and> (\<forall>x. r = Inr x \<longrightarrow> x = None))
   \<or> (\<exists>q label st. new = q @ [push_call root label st] \<and> list_all is_quiet q
        \<and> (if st = Some 0 then \<exists>x. r = Inr (Some x) else isl r))"

lemma emits_shelve: "emits (shelved root) (shelveMainRepoDirtyState sh root d label)"
  unfolding shelveMainRepoDirtyState_def Let_def
  by (auto simp: shelved_def push_call_def ok_def
      intro!: emits_ret emits_throw emits_command_bind [where Q = "\<lambda>r res new. new = [] \<and> (if ok r then \<exists>x. res = Inr (Some x) else isl res)"]
      split: if_splits)

lemma shelved_quiet: "list_all is_quiet new \<Longrightarrow> shelved root (Inl e) new"
  by (simp add: shelved_def)

lemma shelved_prefix:
  assumes "list_all is_quiet p" and "shelved root r new"
  shows "shelved root r (p @ new)"
  using assms(2) unfolding shelved_def
proof (elim disjE exE conjE)
  fix q label st
  assume new: "new = q @ [push_call root label st]" "list_all is_quiet q"
    and r: "if st = Some 0 then \<exists>x. r = Inr (Some x) else isl r"
  then have "p @ new = (p @ q) @ [push_call root label st]" "list_all is_quiet (p @ q)"
    using assms(1) by simp_all
  with r show "(list_all is_quiet (p @ new) \<and> (\<forall>x. r = Inr x \<longrightarrow> x = None))
   \<or> (\<exists>q label st. p @ new = q @ [push_call root label st] \<and> list_all is_quiet q
        \<and> (if st = Some 0 then \<exists>x. r = Inr (Some x) else isl r))" by blast
qed (use assms(1) in simp)

lemma emits_shelve_direct: "emits (shelved root) (shelve_direct sh root opts ts)"
proof -
  have stop: "emits (shelved root) (throw e)" for e
    by (rule emits_throw) (simp add: shelved_def)
  show ?thesis
    unfolding shelve_direct_def
    by (rule emits_quiet_bind [where Q = "shelved root", OF quiet_classify])
      (auto intro: emits_shelve stop shelved_prefix shelved_quiet split: prod.splits)
qed

section \<open>The whole plan\<close>

text \<open>The commands of the plan and, when something was shelved, those that restore it.\<close>

definition full_trace :: "string \<Rightarrow> chain_target list \<Rightarrow> (string + merge_step list) \<Rightarrow> call list \<Rightarrow> bool" where
  "full_trace root ts r new \<longleftrightarrow>
     (\<exists>pre mid post. new = pre @ mid @ post
        \<and> (isl r \<and> mid = [] \<or> (\<exists>r1. plan_trace root ts r1 mid \<and> (\<forall>x. r = Inr x \<longrightarrow> r1 = Inr x)))
        \<and> (list_all is_quiet pre \<and> post = []
           \<or> (\<exists>q label st. pre = q @ [push_call root label st] \<and> list_all is_quiet q
                \<and> (if st = Some 0 then restored_shelf root r post else isl r \<and> mid = [] \<and> post = []))))"

lemma full_prefix: "list_all is_quiet p \<Longrightarrow> full_trace root ts r new \<Longrightarrow> full_trace root ts r (p @ new)"
proof -
  assume p: "list_all is_quiet p" and "full_trace root ts r new"
  then obtain pre mid post where new: "new = pre @ mid @ post"
    and mid: "isl r \<and> mid = [] \<or> (\<exists>r1. plan_trace root ts r1 mid \<and> (\<forall>x. r = Inr x \<longrightarrow> r1 = Inr x))"
    and pre: "list_all is_quiet pre \<and> post = []
           \<or> (\<exists>q label st. pre = q @ [push_call root label st] \<and> list_all is_quiet q
                \<and> (if st = Some 0 then restored_shelf root r post else isl r \<and> mid = [] \<and> post = []))"
    unfolding full_trace_def by blast
  have pre': "list_all is_quiet (p @ pre) \<and> post = []
           \<or> (\<exists>q label st. p @ pre = q @ [push_call root label st] \<and> list_all is_quiet q
                \<and> (if st = Some 0 then restored_shelf root r post else isl r \<and> mid = [] \<and> post = []))"
    using pre
  proof (elim disjE exE conjE)
    fix q label st
    assume "pre = q @ [push_call root label st]" "list_all is_quiet q"
      "if st = Some 0 then restored_shelf root r post else isl r \<and> mid = [] \<and> post = []"
    then show ?thesis using p by (intro disjI2 exI [of _ "p @ q"] exI [of _ label] exI [of _ st]) simp
  qed (use p in simp)
  have "p @ new = (p @ pre) @ mid @ post" using new by simp
  with mid pre' show ?thesis unfolding full_trace_def by blast
qed

lemma full_quiet: "list_all is_quiet new \<Longrightarrow> full_trace root ts (Inl e) new"
  unfolding full_trace_def by (intro exI [of _ new] exI [of _ "[]"]) simp

lemma emits_finally:
  assumes "emits P m" and "emits H h"
  shows "emits (\<lambda>r new. \<exists>r1 r2 n1 n2. new = n1 @ n2 \<and> P r1 n1 \<and> H r2 n2
     \<and> (if isl r2 then isl r else r = r1)) (finally_io m h)"
proof (rule emitsI)
  fix s r s'
  assume run: "finally_io m h s = (r, s')"
  obtain r1 s1 where m: "m s = (r1, s1)" by (cases "m s")
  obtain r2 s2 where h: "h s1 = (r2, s2)" by (cases "h s1")
  obtain n1 where n1: "calls s1 = calls s @ n1" "P r1 n1" using assms(1) m unfolding emits_def by blast
  obtain n2 where n2: "calls s2 = calls s1 @ n2" "H r2 n2" using assms(2) h unfolding emits_def by blast
  have "s' = s2 \<and> (if isl r2 then isl r else r = r1)"
    using run m h by (auto simp: finally_io_def split: sum.splits)
  then show "\<exists>new. calls s' = calls s @ new \<and> (\<exists>r1 r2 n1 n2. new = n1 @ n2 \<and> P r1 n1 \<and> H r2 n2
     \<and> (if isl r2 then isl r else r = r1))"
    using n1 n2 by (intro exI [of _ "n1 @ n2"] conjI exI [of _ r1] exI [of _ r2] exI [of _ n1] exI [of _ n2]) auto
qed

text \<open>The plan and its handler, after the shelving gave \<open>paths\<close>.\<close>

definition after_shelf ::
  "string \<Rightarrow> chain_target list \<Rightarrow> string list option \<Rightarrow> (string + merge_step list) \<Rightarrow> call list \<Rightarrow> bool" where
  "after_shelf root ts paths r new \<longleftrightarrow>
     (\<exists>mid post r1. new = mid @ post \<and> plan_trace root ts r1 mid \<and> (\<forall>x. r = Inr x \<longrightarrow> r1 = Inr x)
        \<and> (if paths = None then post = [] else restored_shelf root r post))"

lemma emits_after_shelf:
  "emits (after_shelf root ts paths) (finally_io (plan_body sh root target opts ts)
     (case paths of Some ps \<Rightarrow> restoreShelvedMainState sh root ps | None \<Rightarrow> ret ()))"
proof (cases paths)
  case None
  have none: "emits (\<lambda>r new. r = Inr () \<and> new = []) (ret ())" by (rule emits_ret) simp
  show ?thesis
    unfolding None option.case
    by (rule emits_mono [OF emits_finally [OF emits_body none]]) (force simp: after_shelf_def)
next
  case (Some ps)
  show ?thesis
    unfolding Some option.case
  proof (rule emits_mono [OF emits_finally [OF emits_body emits_restore]], elim exE conjE)
    fix r :: "string + merge_step list" and new r1 and r2 :: "string + unit" and n1 n2
    assume "new = n1 @ n2" "plan_trace root ts r1 n1" "restored_shelf root r2 n2" "if isl r2 then isl r else r = r1"
    moreover from this have "restored_shelf root r n2" by (auto simp: restored_shelf_def split: if_splits)
    moreover have "\<forall>x. r = Inr x \<longrightarrow> r1 = Inr x"
      using \<open>if isl r2 then isl r else r = r1\<close> by (auto split: if_splits)
    ultimately show "after_shelf root ts (Some ps) r new" unfolding after_shelf_def by auto
  qed
qed

lemma full_intro:
  assumes "shelved root (Inr paths) pre" and "after_shelf root ts paths r new"
  shows "full_trace root ts r (pre @ new)"
proof -
  obtain mid post r1 where new: "new = mid @ post" "plan_trace root ts r1 mid" "\<forall>x. r = Inr x \<longrightarrow> r1 = Inr x"
    "if paths = None then post = [] else restored_shelf root r post"
    using assms(2) unfolding after_shelf_def by blast
  show ?thesis
    using assms(1) new unfolding shelved_def full_trace_def
    by (intro exI [of _ pre] exI [of _ mid] exI [of _ post]) (auto split: if_splits)
qed

lemma full_unshelved: "shelved root (Inl e) new \<Longrightarrow> full_trace root ts (Inl e) new"
  unfolding shelved_def full_trace_def
  by (intro exI [of _ new] exI [of _ "[]"]) (auto split: if_splits)

lemma emits_plan: "emits (\<lambda>r new. \<exists>root. full_trace root ts r new) (runMergePlan sh ts opts)"
proof -
  let ?Q = "\<lambda>r new. \<exists>root. full_trace root ts r new"
  have pre: "?Q (Inl e) new" if "list_all is_quiet new" for e new
    using full_quiet [OF that] by blast
  have app: "?Q r (new @ new')" if "list_all is_quiet new" "?Q r new'" for r new new'
    using full_prefix [OF that(1)] that(2) by blast
  have shelf: "emits (shelved root) (if mo_mode opts = Some Direct then shelve_direct sh root opts ts else ret None)" for root
    by (cases "mo_mode opts = Some Direct") (auto simp: shelved_def intro: emits_ret emits_shelve_direct)
  have target: "quiet (case mo_target opts of
                Some b \<Rightarrow> if b \<noteq> [] then bind_io (validateTargetBranchRef sh b root) (\<lambda>b. ret (Some b)) else ret None
              | None \<Rightarrow> ret None)" for root
    by (intro trace_rules)
  have tail: "emits ?Q (bind_io (if mo_mode opts = Some Direct then shelve_direct sh root opts ts else ret None) (\<lambda>paths.
       finally_io (plan_body sh root target opts ts)
         (case paths of Some ps \<Rightarrow> restoreShelvedMainState sh root ps | None \<Rightarrow> ret ())))" for root target
    by (rule emits_bind [OF shelf emits_after_shelf]) (blast intro: full_unshelved full_intro)+
  have rest: "emits ?Q (bind_io (case mo_target opts of
                Some b \<Rightarrow> if b \<noteq> [] then bind_io (validateTargetBranchRef sh b root) (\<lambda>b. ret (Some b)) else ret None
              | None \<Rightarrow> ret None) (\<lambda>target.
     bind_io (if mo_mode opts = Some Direct then shelve_direct sh root opts ts else ret None) (\<lambda>paths.
       finally_io (plan_body sh root target opts ts)
         (case paths of Some ps \<Rightarrow> restoreShelvedMainState sh root ps | None \<Rightarrow> ret ()))))" for root
    by (rule emits_quiet_bind [OF target tail]) (use pre app in auto)
  show ?thesis
    unfolding runMergePlan_def
    by (rule emits_quiet_bind [OF quiet_main_root rest]) (use pre app in auto)
qed

lemma no_merges:
  assumes "list_all (\<lambda>c. \<not> is_merge c) q"
  shows "merges_of q = []" and "rebased_first root ts q"
  using assms by (auto simp: merges_of_def list_all_iff rebased_first_def filter_empty_conv)

lemma restored_no_merges: "restored_shelf root r post \<Longrightarrow> list_all (\<lambda>c. \<not> is_merge c) post"
  by (auto simp: restored_shelf_def)

lemma full_merges:
  assumes "full_trace root ts r new"
  shows "rebased_first root ts new"
    and "\<exists>mid. merges_of new = merges_of mid \<and>
       (isl r \<and> mid = [] \<or> (\<exists>r1. plan_trace root ts r1 mid \<and> (\<forall>x. r = Inr x \<longrightarrow> r1 = Inr x)))"
proof -
  obtain pre mid post where new: "new = pre @ mid @ post"
    and mid: "isl r \<and> mid = [] \<or> (\<exists>r1. plan_trace root ts r1 mid \<and> (\<forall>x. r = Inr x \<longrightarrow> r1 = Inr x))"
    and ends: "list_all is_quiet pre \<and> post = []
           \<or> (\<exists>q label st. pre = q @ [push_call root label st] \<and> list_all is_quiet q
                \<and> (if st = Some 0 then restored_shelf root r post else isl r \<and> mid = [] \<and> post = []))"
    using assms unfolding full_trace_def by blast
  have "list_all (\<lambda>c. \<not> is_merge c) q" if "list_all is_quiet q" for q
    using that by (simp add: list_all_iff is_quiet_def)
  then have "list_all (\<lambda>c. \<not> is_merge c) pre" "list_all (\<lambda>c. \<not> is_merge c) post"
    using ends restored_no_merges by (auto split: if_splits)
  note quiet_ends = no_merges [OF this(1)] no_merges [OF this(2)]
  have "rebased_first root ts mid" using mid by (auto simp: plan_trace_def no_merges)
  then have "rebased_first root ts (mid @ post)"
    by (rule rebased_first_append [where A = ts and B = ts, OF _ quiet_ends(4)]) simp_all
  then show "rebased_first root ts new"
    unfolding new by (rule rebased_first_append [where A = ts and B = ts, OF quiet_ends(2)]) simp_all
  show "\<exists>mid. merges_of new = merges_of mid \<and>
       (isl r \<and> mid = [] \<or> (\<exists>r1. plan_trace root ts r1 mid \<and> (\<forall>x. r = Inr x \<longrightarrow> r1 = Inr x)))"
    using mid quiet_ends(1,3) by (intro exI [of _ mid]) (simp add: new merges_append)
qed

lemma plan_runs:
  assumes "runMergePlan sh ts opts s = (r, s')"
  shows "\<exists>root new. calls s' = calls s @ new \<and> full_trace root ts r new"
  using emits_plan assms unfolding emits_def by blast

section \<open>Properties\<close>

text \<open>C21. What a plan merges. Whatever the commands answer, the branches merged are among the
  targets, in their order, each at most as often as it is a target; every merge runs in one
  main worktree right after a rebase of that branch, in its own worktree, that worked; every
  merge but the last one worked; and when the plan succeeds all its merges worked and it
  reports every target.\<close>

theorem merge_plan_disciplined:
  assumes "runMergePlan sh ts opts s = (r, s')"
  shows "\<exists>root new. calls s' = calls s @ new
    \<and> (\<forall>i < length new. is_merge (new ! i) \<longrightarrow>
         0 < i \<and> (\<exists>t \<in> set ts. \<exists>st base. new ! i = merge_call root (ct_branch t) st
                    \<and> new ! (i - 1) = rebase_call (ct_worktree t) base))
    \<and> subseq (map (\<lambda>c. call_args c ! 1) (filter is_merge new)) (map ct_branch ts)
    \<and> (\<forall>c \<in> set (butlast (filter is_merge new)). call_status c = Some 0)
    \<and> (\<forall>steps. r = Inr steps \<longrightarrow> map ms_bead steps = map ct_bead ts
         \<and> (\<forall>c \<in> set (filter is_merge new). call_status c = Some 0))"
proof -
  obtain root new where new: "calls s' = calls s @ new" "full_trace root ts r new"
    using plan_runs [OF assms] by blast
  note merges = full_merges [OF new(2)]
  obtain mid where eq: "filter is_merge new = merges_of mid"
    and mid: "isl r \<and> mid = [] \<or> (\<exists>r1. plan_trace root ts r1 mid \<and> (\<forall>x. r = Inr x \<longrightarrow> r1 = Inr x))"
    using merges(2) unfolding merges_of_def [of new] by blast
  show ?thesis
  proof (intro exI [of _ root] exI [of _ new] conjI)
    show "\<forall>i < length new. is_merge (new ! i) \<longrightarrow>
         0 < i \<and> (\<exists>t \<in> set ts. \<exists>st base. new ! i = merge_call root (ct_branch t) st
                    \<and> new ! (i - 1) = rebase_call (ct_worktree t) base)"
      using merges(1) unfolding rebased_first_def .
  qed (unfold eq, use new(1) mid in \<open>auto simp: plan_trace_def no_merges\<close>)
qed

text \<open>C22. What is shelved comes back. When a plan puts uncommitted work on the stash, it does so
  once, and whatever happens after it applies the stash as the last thing it does, and drops it
  when that worked; a plan that succeeds has done both. A plan that shelves nothing does not
  touch the stash.\<close>

theorem shelf_restored:
  assumes "runMergePlan sh ts opts s = (r, s')"
  shows "\<exists>root new. calls s' = calls s @ new
    \<and> (list_all (\<lambda>c. \<not> is_stash c) new
       \<or> (\<exists>pre label st mid post. new = pre @ push_call root label st # mid @ post
            \<and> list_all (\<lambda>c. \<not> is_stash c) (pre @ mid)
            \<and> (if st \<noteq> Some 0 then isl r \<and> mid = [] \<and> post = []
               else (\<exists>a. a \<noteq> Some 0 \<and> post = [apply_call root a] \<and> isl r)
                  \<or> (\<exists>d. post = [apply_call root (Some 0), drop_call root d] \<and> (d = Some 0 \<or> isl r)))))"
proof -
  obtain root new where run: "calls s' = calls s @ new" "full_trace root ts r new"
    using plan_runs [OF assms] by blast
  then obtain pre mid post where new: "new = pre @ mid @ post"
    and mid: "isl r \<and> mid = [] \<or> (\<exists>r1. plan_trace root ts r1 mid \<and> (\<forall>x. r = Inr x \<longrightarrow> r1 = Inr x))"
    and ends: "list_all is_quiet pre \<and> post = []
           \<or> (\<exists>q label st. pre = q @ [push_call root label st] \<and> list_all is_quiet q
                \<and> (if st = Some 0 then restored_shelf root r post else isl r \<and> mid = [] \<and> post = []))"
    unfolding full_trace_def by blast
  have quiet: "list_all (\<lambda>c. \<not> is_stash c) q" if "list_all is_quiet q" for q
    by (rule quiet_facts(2) [OF that])
  have mid_quiet: "list_all (\<lambda>c. \<not> is_stash c) mid" using mid by (auto simp: plan_trace_def)
  show ?thesis
    using ends
  proof (elim disjE exE conjE)
    assume "list_all is_quiet pre" "post = []"
    then show ?thesis using run(1) new quiet mid_quiet by (intro exI [of _ root] exI [of _ new]) simp
  next
    fix q label st
    assume push: "pre = q @ [push_call root label st]" "list_all is_quiet q"
      and after: "if st = Some 0 then restored_shelf root r post else isl r \<and> mid = [] \<and> post = []"
    have "new = q @ push_call root label st # mid @ post" using new push(1) by simp
    moreover have "list_all (\<lambda>c. \<not> is_stash c) (q @ mid)" using quiet [OF push(2)] mid_quiet by simp
    ultimately show ?thesis using run(1) after unfolding restored_shelf_def by (metis (no_types, lifting))
  qed
qed

section \<open>What the status parser reads\<close>

lemma trim_space: "is_space c \<Longrightarrow> trim (c # s) = trim s"
  by (simp add: trim_def)

lemma dropWhile_none: "\<not> P (hd s) \<Longrightarrow> dropWhile P s = s"
  by (cases s) auto

lemma trim_id: "s \<noteq> [] \<Longrightarrow> \<not> is_space (hd s) \<Longrightarrow> \<not> is_space (last s) \<Longrightarrow> trim s = s"
  using dropWhile_none [of is_space s] dropWhile_none [of is_space "rev s"] by (simp add: trim_def hd_rev)

lemma solid_chars:
  assumes "\<not> is_space x"
  shows "dot_char x" and "x \<noteq> newline"
  using assms by (auto simp: is_space_def dot_char_def newline_def)

lemma arrow_tail_solid: "\<not> is_space c \<Longrightarrow> arrow_tail (c # s) = None"
  by (auto simp: arrow_tail_def split: list.splits)

lemma lazy_group_solid: "\<forall>x \<in> set p. \<not> is_space x \<Longrightarrow> lazy_group acc p = Some (acc @ p, None)"
  by (induction p arbitrary: acc) (auto simp: arrow_tail_solid solid_chars)

lemma space_codes: "is_space CHR '' ''" "\<not> is_space CHR ''M''" "dot_char CHR '' ''" "dot_char CHR ''M''"
  "CHR '' '' \<noteq> newline" "CHR ''M'' \<noteq> newline"
  by code_simp+

text \<open>A file changed but not staged is misread. \<open>git status --porcelain\<close> prints a space, an
  \<open>M\<close>, a space and the path; the parser trims the line first and then cuts its first three
  characters, so it reports the path without its first character, while the same file staged
  is reported whole.\<close>

theorem unstaged_path_misread:
  assumes "\<forall>x \<in> set (c # p). \<not> is_space x" and "p \<noteq> []"
    and "\<not> isMergeDirtyIgnored p" and "\<not> isMergeDirtyIgnored (c # p)"
  shows "parseGitStatusPaths ('' M '' @ (c # p) @ [newline]) = \<lparr>tracked = [p], untracked = []\<rparr>
    \<and> parseGitStatusPaths (''M  '' @ (c # p) @ [newline]) = \<lparr>tracked = [c # p], untracked = []\<rparr>"
proof -
  have solid: "\<not> is_space c" "\<forall>x \<in> set p. \<not> is_space x" using assms(1) by auto
  have no_nl: "newline \<notin> set (c # p)" using assms(1) solid_chars(2) by blast
  have "trim p = p" using solid(2) assms(2) by (intro trim_id) auto
  moreover have "trim (c # p) = c # p" using assms(1) by (intro trim_id) auto
  moreover have unstaged: "trim ('' M '' @ c # p) = ''M '' @ c # p"
  proof -
    have "trim ('' M '' @ c # p) = trim (''M '' @ c # p)" by (simp add: trim_space space_codes)
    also have "\<dots> = ''M '' @ c # p" using assms(1) by (intro trim_id) (auto simp: space_codes)
    finally show ?thesis .
  qed
  moreover have staged: "trim (''M  '' @ c # p) = ''M  '' @ c # p"
    using assms(1) by (intro trim_id) (auto simp: space_codes)
  moreover have "match_status_line (''M '' @ c # p) = None"
    using solid assms(2) by (cases p) (auto simp: match_status_line_def)
  moreover have "match_status_line (''M  '' @ c # p) = Some (c # p, None)"
    using solid lazy_group_solid [of p "[c]"] by (simp add: match_status_line_def space_codes solid_chars)
  moreover have "split_on newline ('' M '' @ (c # p) @ [newline]) = ['' M '' @ c # p, []]"
  proof -
    have "newline \<notin> set ('' M '' @ c # p)" using no_nl space_codes(5,6) by auto
    from split_on_sep [OF this, of "[]"] show ?thesis by (simp only: append_assoc split_on.simps(1))
  qed
  moreover have "split_on newline (''M  '' @ (c # p) @ [newline]) = [''M  '' @ c # p, []]"
  proof -
    have "newline \<notin> set (''M  '' @ c # p)" using no_nl space_codes(5,6) by auto
    from split_on_sep [OF this, of "[]"] show ?thesis by (simp only: append_assoc split_on.simps(1))
  qed
  moreover have "trim [] = []" by (simp add: trim_def)
  ultimately show ?thesis
    using assms(2-4) by (simp add: parseGitStatusPaths_def status_line_def Let_def)
qed

theorem unstaged_path_misread_witness:
  "parseGitStatusPaths ('' M src/main.ts'' @ [newline]) = \<lparr>tracked = [''rc/main.ts''], untracked = []\<rparr>"
proof -
  have "\<forall>x \<in> set ''src/main.ts''. \<not> is_space x" "\<not> isMergeDirtyIgnored ''rc/main.ts''" "\<not> isMergeDirtyIgnored ''src/main.ts''"
    by code_simp+
  then show ?thesis
    using unstaged_path_misread [of "CHR ''s''" "''rc/main.ts''"] by simp
qed

section \<open>A plan that runs\<close>

definition demo_answer :: "string list \<Rightarrow> string" where
  "demo_answer args =
     (if args = [''worktree'', ''list'', ''--porcelain''] then ''worktree /r''
      else if args = [''status'', ''--porcelain=v1''] then ''M  notes.txt'' @ [newline]
      else if hd args = ''symbolic-ref'' then ''origin/main''
      else if hd args = ''merge-base'' then ''abc''
      else if last args = ''--name-status'' then ''M'' @ [tab] @ ''src/x''
      else if args = [''rev-parse'', ''--abbrev-ref'', ''HEAD''] then ''feature/b''
      else [])"

definition demo_shell :: "unit shell" where
  "demo_shell = \<lparr>spawn = (\<lambda>cwd cmd args w. (\<lparr>exit_status = Some 0, out = demo_answer args, err = []\<rparr>, w)),
     sh_cwd = ''/r'', dir_entries = (\<lambda>w cwd. [''tsconfig.json'']), package_json = (\<lambda>w cwd. None),
     host_processes = demo_ph, clock = (\<lambda>w. (0, 0, 0))\<rparr>"

definition demo_machine :: "unit machine" where
  "demo_machine = \<lparr>world = (), calls = [], sqlite = None, integrations = []\<rparr>"

definition git_ok :: "string \<Rightarrow> string list \<Rightarrow> call" where
  "git_ok cwd args = \<lparr>call_cwd = cwd, call_cmd = ''git'', call_args = args, call_status = Some 0\<rparr>"

definition demo_after :: "call list \<Rightarrow> unit machine" where
  "demo_after cs = demo_machine\<lparr>calls := cs\<rparr>"

lemma demo_root:
  "resolveMainWorktreeRoot demo_shell demo_machine = (Inr ''/r'', demo_after [git_ok ''/r'' [''worktree'', ''list'', ''--porcelain'']])"
  by code_simp

lemma demo_status:
  "getMainRepoDirtyPaths demo_shell ''/r'' (demo_after cs)
     = (Inr \<lparr>tracked = [''notes.txt''], untracked = []\<rparr>, demo_after (cs @ [git_ok ''/r'' [''status'', ''--porcelain=v1'']]))"
  by code_simp

lemma demo_push:
  "shelveMainRepoDirtyState demo_shell ''/r'' \<lparr>tracked = [''notes.txt''], untracked = []\<rparr> ''e'' (demo_after cs)
     = (Inr (Some [''notes.txt'']), demo_after (cs @ [push_call ''/r'' ''e'' (Some 0)]))"
  by code_simp

lemma demo_worth:
  "assertBranchMergeWorthiness demo_shell (demo_chain ''b'' 2) ''/r'' (Some ''main'') (demo_after cs)
     = (Inr Worth_ok, demo_after ((cs @ [git_ok ''/r'' [''merge-base'', ''main'', ''feature/b'']])
          @ [git_ok ''/r'' [''diff'', ''abc..feature/b'', ''--name-status'']]))"
  by code_simp

lemma demo_rebase:
  "rebaseBranchOntoMaster demo_shell ''feature/b'' ''/w/b'' (Some ''main'') (demo_after cs)
     = (Inr (), demo_after ((cs @ [git_ok ''/w/b'' [''rev-parse'', ''--abbrev-ref'', ''HEAD'']]) @ [rebase_call ''/w/b'' ''main'']))"
  by code_simp

lemma demo_validate:
  "validateTargetBranchRef demo_shell ''main'' ''/r'' (demo_after cs)
     = (Inr ''main'', demo_after (cs @ [git_ok ''/r'' [''rev-parse'', ''--verify'', ''main^{commit}'']]))"
  by code_simp

lemma demo_merge: "mergeBranch demo_shell ''feature/b'' ''/r'' (demo_after cs)
     = (Inr (), demo_after (cs @ [merge_call ''/r'' ''feature/b'' (Some 0)]))"
  by code_simp

lemma demo_typecheck: "runTypecheckGate demo_shell ''/r'' (demo_after cs)
     = (Inr (), demo_after (cs @ [(git_ok ''/r'' [''tsc'', ''--noEmit''])\<lparr>call_cmd := ''bunx''\<rparr>]))"
  by code_simp

lemma demo_sync: "syncEpicStateAfterMerge demo_shell t (demo_after cs) = (Inr (), demo_after cs)"
  by (simp add: syncEpicStateAfterMerge_def demo_after_def demo_machine_def ret_def)

lemma demo_record: "recordBranchIntegrationAfterMerge demo_shell (demo_chain ''b'' 2) ''/r'' (Some ''main'') (demo_after cs)
     = (Inr (), demo_after (cs @ [git_ok ''/r'' [''rev-parse'', ''HEAD'']]))"
  by code_simp

lemma demo_changed: "readChangedFilesForLastMerge demo_shell ''/r'' (demo_after cs)
     = (Inr [], demo_after (cs @ [git_ok ''/r'' [''diff'', ''--name-only'', ''HEAD^1'', ''HEAD'']]))"
  by code_simp

lemma demo_restore: "restoreShelvedMainState demo_shell ''/r'' [''notes.txt''] (demo_after cs)
     = (Inr (), demo_after ((cs @ [apply_call ''/r'' (Some 0)]) @ [drop_call ''/r'' (Some 0)]))"
  by code_simp

lemma bind_run: "bind_io m f s = (case m s of (Inl e, s') \<Rightarrow> (Inl e, s') | (Inr x, s') \<Rightarrow> f x s')"
  by (simp add: bind_io_def)

lemma ret_run: "ret x s = (Inr x, s)"
  by (simp add: ret_def)

lemma demo_target: "ct_branch (demo_chain ''b'' 2) = ''feature/b''" "ct_worktree (demo_chain ''b'' 2) = ''/w/b''"
  "ct_bead (demo_chain ''b'' 2) = ''b''"
  by (simp_all add: demo_chain_def)

definition demo_options :: "publication_mode option \<Rightarrow> merge_options" where
  "demo_options m = \<lparr>mo_rebuild = False, mo_mode = m, mo_label = Some ''e'', mo_target = Some ''main''\<rparr>"

lemma demo_round: "\<exists>cs'. merge_target demo_shell ''/r'' (Some ''main'') (demo_chain ''b'' 2) (demo_after cs)
    = (Inr \<lparr>ms_bead = ''b'', ms_branch = ''feature/b'', ms_files = []\<rparr>, demo_after cs')"
  by (simp only: merge_target_def bind_run demo_worth demo_target prod.case sum.case worthiness.distinct if_False
      demo_rebase demo_merge demo_typecheck demo_sync demo_record demo_changed ret_run) (rule exI, rule refl)

lemma demo_plain_run: "\<exists>steps s'. runMergePlan demo_shell [demo_chain ''b'' 2] (demo_options None) demo_machine = (Inr steps, s')"
proof -
  obtain cs where "merge_target demo_shell ''/r'' (Some ''main'') (demo_chain ''b'' 2)
      (demo_after ([git_ok ''/r'' [''worktree'', ''list'', ''--porcelain'']] @ [git_ok ''/r'' [''rev-parse'', ''--verify'', ''main^{commit}'']]))
    = (Inr \<lparr>ms_bead = ''b'', ms_branch = ''feature/b'', ms_files = []\<rparr>, demo_after cs)"
    using demo_round by blast
  note round = this
  show ?thesis
    by (simp add: runMergePlan_def bind_run demo_root demo_options_def demo_validate ret_run finally_io_def plan_body_def round
        [simplified])
qed

lemma demo_direct_run:
  "runMergePlan demo_shell [] (demo_options (Some Direct)) demo_machine
     = (Inr [], demo_after ([git_ok ''/r'' [''worktree'', ''list'', ''--porcelain''],
          git_ok ''/r'' [''rev-parse'', ''--verify'', ''main^{commit}''], git_ok ''/r'' [''status'', ''--porcelain=v1''],
          push_call ''/r'' ''e'' (Some 0), apply_call ''/r'' (Some 0), drop_call ''/r'' (Some 0)]))"
  by (simp add: runMergePlan_def bind_run demo_root demo_options_def demo_validate ret_run finally_io_def plan_body_def
      shelve_direct_def classifyMainRepoDirtyState_def demo_status getIncomingMergePaths_def
      demo_push [simplified] demo_restore [simplified])

theorem merge_plan_disciplined_witness:
  "\<exists>steps s'. runMergePlan demo_shell [demo_chain ''b'' 2] (demo_options None) demo_machine = (Inr steps, s')
     \<and> map ms_bead steps = [''b'']"
proof -
  obtain steps s' where run: "runMergePlan demo_shell [demo_chain ''b'' 2] (demo_options None) demo_machine = (Inr steps, s')"
    using demo_plain_run by blast
  then show ?thesis using merge_plan_disciplined [OF run] by (auto simp: demo_chain_def)
qed

theorem shelf_restored_witness:
  "\<exists>root label pre mid. calls (snd (runMergePlan demo_shell [] (demo_options (Some Direct)) demo_machine))
     = pre @ push_call root label (Some 0) # mid @ [apply_call root (Some 0), drop_call root (Some 0)]"
proof -
  let ?cs = "[git_ok ''/r'' [''worktree'', ''list'', ''--porcelain''],
          git_ok ''/r'' [''rev-parse'', ''--verify'', ''main^{commit}''], git_ok ''/r'' [''status'', ''--porcelain=v1''],
          push_call ''/r'' ''e'' (Some 0), apply_call ''/r'' (Some 0), drop_call ''/r'' (Some 0)]"
  have "\<not> list_all (\<lambda>c. \<not> is_stash c) ?cs" by simp
  moreover have "calls demo_machine = []" "calls (demo_after ?cs) = ?cs"
    by (simp_all add: demo_machine_def demo_after_def)
  ultimately show ?thesis
    using shelf_restored [OF demo_direct_run] unfolding demo_direct_run by (auto split: if_splits)
qed

end
