(* ===== verification/Peer_Roster.thy ===== *)
theory Peer_Roster imports Json_Value begin

text \<open>
  \<open>src/activation/transport/roster.ts\<close> and \<open>peer-registration.ts\<close>: the directory in which
  sessions announce themselves, the test that a row names a live process, this runtime's own
  row, and the removal of the rows it left behind. A directory lists its files with their
  texts (\<open>Malformed\<close> when reading or parsing throws). A row is whatever JSON another program
  wrote: reading a property of \<open>null\<close> throws, and so does trimming what is not a string.

  Parameters: the probe of a process, \<open>Number(s)\<close> of a non-blank string and \<open>Date.parse\<close>
  (\<^term>\<open>None\<close> when it is not finite). Start times are in milliseconds, which the code compares
  in seconds. Paths are normal, and no row names a file of the roster directory as its socket.
\<close>

section \<open>Data\<close>

record process_start =
  ticks_since_boot :: int
  epoch_ms :: int

datatype js_number = Whole int | Fraction | Not_finite

record peer_env =
  start_of :: "json option \<Rightarrow> process_start option"
  number_of :: "string \<Rightarrow> js_number"
  date_parse :: "string \<Rightarrow> int option"

type_synonym directory = "(string, json_text) js_map"

datatype route_rejection =
    Unparsable
  | No_proc_entry
  | Missing_proc_start
  | Proc_start_mismatch
  | Unsupported_peer_protocol
  | No_socket_path

record live_route =
  rt_ref :: string
  rt_pid :: "json option"
  rt_session :: "json option"
  rt_socket :: json
  rt_cwd :: "json option"
  rt_name :: "json option"
  rt_status :: "json option"

record rejected_route =
  rj_pid :: "json option"
  rj_file :: string
  rj_reason :: route_rejection

record roster_scan =
  scan_live :: "live_route list"
  scan_rejected :: "rejected_route list"

definition SUPPORTED_PEER_PROTOCOL :: int where
  "SUPPORTED_PEER_PROTOCOL = 1"

definition PROC_START_TOLERANCE_MS :: int where
  "PROC_START_TOLERANCE_MS = 2000"

text \<open>\<open>v.k\<close>: throws on \<open>null\<close>.\<close>

definition get_prop :: "json \<Rightarrow> string \<Rightarrow> string + json option" where
  "get_prop j k = (if j = JNull then Inl ''TypeError'' else Inr (field j k))"

text \<open>\<open>`${v}`\<close>, where inside an array \<open>null\<close> is empty.\<close>

fun json_string :: "json \<Rightarrow> string" where
  "json_string JNull = ''null''"
| "json_string (JBool b) = (if b then ''true'' else ''false'')"
| "json_string (JNum n) = show_int n"
| "json_string (JStr s) = s"
| "json_string (JArr js) = join '','' (map (\<lambda>j. if j = JNull then [] else json_string j) js)"
| "json_string (JObj m) = ''[object Object]''"

definition prop_string :: "json option \<Rightarrow> string" where
  "prop_string v = (case v of Some j \<Rightarrow> json_string j | None \<Rightarrow> ''undefined'')"

section \<open>Liveness of a row\<close>

fun procStartMatches :: "peer_env \<Rightarrow> json \<Rightarrow> process_start \<Rightarrow> string + bool" where
  "procStartMatches e (JNum n) a = Inr (n = ticks_since_boot a)"
| "procStartMatches e (JStr s) a =
     (case (if trim s \<noteq> [] then number_of e s else Not_finite) of
        Whole n \<Rightarrow> Inr (n = ticks_since_boot a)
      | Fraction \<Rightarrow> Inr False
      | Not_finite \<Rightarrow>
          (case date_parse e s of
             None \<Rightarrow> Inr False
           | Some ms \<Rightarrow> Inr (\<bar>epoch_ms a - ms\<bar> \<le> PROC_START_TOLERANCE_MS)))"
| "procStartMatches e _ a = Inl ''TypeError''"

definition route_of :: "json \<Rightarrow> live_route" where
  "route_of j =
     \<lparr>rt_ref = ''pid:'' @ prop_string (field j ''pid'') @ ''/session:'' @ prop_string (field j ''sessionId''),
      rt_pid = field j ''pid'', rt_session = field j ''sessionId'', rt_socket = the (field j ''messagingSocketPath''),
      rt_cwd = field j ''cwd'', rt_name = field j ''name'', rt_status = field j ''status''\<rparr>"

definition evaluateRegistration :: "peer_env \<Rightarrow> json \<Rightarrow> string + (route_rejection + live_route)" where
  "evaluateRegistration e j =
     andThen (get_prop j ''peerProtocol'') (\<lambda>protocol.
       if protocol \<noteq> Some (JNum SUPPORTED_PEER_PROTOCOL) then Inr (Inl Unsupported_peer_protocol)
       else if \<not> (case field j ''messagingSocketPath'' of Some p \<Rightarrow> truthy_json p | None \<Rightarrow> False)
       then Inr (Inl No_socket_path)
       else
         (case field j ''procStart'' of
            None \<Rightarrow> Inr (Inl Missing_proc_start)
          | Some claim \<Rightarrow>
              if claim = JNull \<or> claim = JStr [] then Inr (Inl Missing_proc_start)
              else
                (case start_of e (field j ''pid'') of
                   None \<Rightarrow> Inr (Inl No_proc_entry)
                 | Some a \<Rightarrow>
                     andThen (procStartMatches e claim a) (\<lambda>same.
                       Inr (if same then Inr (route_of j) else Inl Proc_start_mismatch)))))"

section \<open>The scan\<close>

fun scan_files :: "peer_env \<Rightarrow> directory \<Rightarrow> roster_scan \<Rightarrow> string + roster_scan" where
  "scan_files e [] acc = Inr acc"
| "scan_files e ((file_name, txt) # files) acc =
     (if \<not> ends_with ''.json'' file_name then scan_files e files acc
      else
        (case parse_json txt of
           None \<Rightarrow> scan_files e files (acc\<lparr>scan_rejected := scan_rejected acc
                     @ [\<lparr>rj_pid = None, rj_file = file_name, rj_reason = Unparsable\<rparr>]\<rparr>)
         | Some j \<Rightarrow>
             andThen (evaluateRegistration e j) (\<lambda>verdict.
               scan_files e files (case verdict of
                 Inr r \<Rightarrow> acc\<lparr>scan_live := scan_live acc @ [r]\<rparr>
               | Inl why \<Rightarrow> acc\<lparr>scan_rejected := scan_rejected acc
                     @ [\<lparr>rj_pid = field j ''pid'', rj_file = file_name, rj_reason = why\<rparr>]\<rparr>))))"

text \<open>\<^term>\<open>None\<close>: there is no such directory.\<close>

definition scanRoster :: "peer_env \<Rightarrow> directory option \<Rightarrow> string + roster_scan" where
  "scanRoster e dir =
     (case dir of
        None \<Rightarrow> Inr \<lparr>scan_live = [], scan_rejected = []\<rparr>
      | Some files \<Rightarrow> scan_files e files \<lparr>scan_live = [], scan_rejected = []\<rparr>)"

definition selectRoute :: "peer_env \<Rightarrow> directory option \<Rightarrow> string \<Rightarrow> string + live_route option" where
  "selectRoute e dir session =
     andThen (scanRoster e dir) (\<lambda>s. Inr (find (\<lambda>r. rt_session r = Some (JStr session)) (scan_live s)))"

section \<open>This runtime's row\<close>

definition REGISTRATION_VERSION :: string where
  "REGISTRATION_VERSION = ''xtrm-specialists''"

record register_options =
  ro_name :: string
  ro_cwd :: string
  ro_session :: string

record peer_dirs =
  rosterDir :: string
  socketDir :: string

text \<open>The rows of the roster directory, and the paths of the other files: sockets.\<close>

record peer_files =
  roster :: directory
  sockets :: "string list"

definition path_join :: "string \<Rightarrow> string \<Rightarrow> string" where
  "path_join dir name = dir @ ''/'' @ name"

definition registration_file :: "int \<Rightarrow> string" where
  "registration_file pid = show_int pid @ ''.json''"

definition socket_path :: "peer_dirs \<Rightarrow> int \<Rightarrow> string" where
  "socket_path d pid = path_join (socketDir d) (show_int pid @ ''.sock'')"

definition registration_entry ::
  "register_options \<Rightarrow> int \<Rightarrow> int \<Rightarrow> string \<Rightarrow> process_start \<Rightarrow> json" where
  "registration_entry ro pid now socket st = JObj
     [(''pid'', JNum pid), (''sessionId'', JStr (ro_session ro)), (''cwd'', JStr (ro_cwd ro)), (''startedAt'', JNum now),
      (''procStart'', JNum (ticks_since_boot st)), (''version'', JStr REGISTRATION_VERSION),
      (''peerProtocol'', JNum SUPPORTED_PEER_PROTOCOL), (''kind'', JStr ''interactive''),
      (''entrypoint'', JStr ''specialists''), (''messagingSocketPath'', JStr socket), (''name'', JStr (ro_name ro)),
      (''nameSource'', JStr ''derived''), (''status'', JStr ''idle'')]"

text \<open>
  The socket is bound, then the row is written. Binding throws when the socket file is there.
\<close>

definition registerRuntimePeer ::
  "peer_env \<Rightarrow> peer_dirs \<Rightarrow> register_options \<Rightarrow> int \<Rightarrow> int \<Rightarrow> peer_files \<Rightarrow> (string + unit) \<times> peer_files" where
  "registerRuntimePeer e d ro pid now fs =
     (case start_of e (Some (JNum pid)) of
        None \<Rightarrow> (Inl ''cannot read this process start time; refusing to register a peer entry without the PID-reuse guard'', fs)
      | Some st \<Rightarrow>
          if map_has (roster fs) (registration_file pid)
          then (Inl (''refusing to overwrite an existing registration at '' @ path_join (rosterDir d) (registration_file pid)), fs)
          else if socket_path d pid \<in> set (sockets fs) then (Inl ''EADDRINUSE'', fs)
          else (Inr (), fs\<lparr>sockets := sockets fs @ [socket_path d pid],
                 roster := map_set (roster fs) (registration_file pid)
                   (Text (registration_entry ro pid now (socket_path d pid) st))\<rparr>))"

text \<open>\<open>removeFiles\<close>: what \<open>close\<close> and the exit handlers do.\<close>

definition deregister :: "peer_dirs \<Rightarrow> int \<Rightarrow> peer_files \<Rightarrow> peer_files" where
  "deregister d pid fs = fs\<lparr>roster := map_delete (roster fs) (registration_file pid),
     sockets := filter (\<lambda>s. s \<noteq> socket_path d pid) (sockets fs)\<rparr>"

section \<open>Rows left behind\<close>

definition all_digits :: "string \<Rightarrow> bool" where
  "all_digits s \<longleftrightarrow> s \<noteq> [] \<and> list_all is_digit s"

text \<open>The part before \<open>suffix\<close> of a name of digits: \<open>/^(\d+)\.json$/\<close>, \<open>/^(\d+)\.sock$/\<close>.\<close>

definition digits_before :: "string \<Rightarrow> string \<Rightarrow> string option" where
  "digits_before suffix s =
     (let n = length s - length suffix in
      if ends_with suffix s \<and> all_digits (take n s) then Some (take n s) else None)"

definition row_dead :: "peer_env \<Rightarrow> json \<Rightarrow> bool" where
  "row_dead e j =
     (case start_of e (field j ''pid'') of
        None \<Rightarrow> True
      | Some a \<Rightarrow> (case field j ''procStart'' of Some (JNum n) \<Rightarrow> ticks_since_boot a \<noteq> n | _ \<Rightarrow> False))"

record cleanup_state =
  cl_files :: peer_files
  cl_registrations :: "string list"
  cl_sockets :: "string list"
  cl_foreign :: nat
  cl_dead :: "json option list"

text \<open>The path a row names as its socket; removing what is not a string throws, and is caught.\<close>

definition named_socket :: "json \<Rightarrow> string option" where
  "named_socket j =
     (case field j ''messagingSocketPath'' of
        Some (JStr p) \<Rightarrow> if p \<noteq> [] then Some p else None
      | _ \<Rightarrow> None)"

definition unlink_socket :: "string \<Rightarrow> cleanup_state \<Rightarrow> cleanup_state" where
  "unlink_socket p c =
     (if p \<in> set (sockets (cl_files c))
      then c\<lparr>cl_files := (cl_files c)\<lparr>sockets := filter (\<lambda>x. x \<noteq> p) (sockets (cl_files c))\<rparr>,
             cl_sockets := cl_sockets c @ [p]\<rparr>
      else c)"

definition unlink_row :: "peer_dirs \<Rightarrow> string \<Rightarrow> json \<Rightarrow> cleanup_state \<Rightarrow> cleanup_state" where
  "unlink_row d name j c =
     c\<lparr>cl_files := (cl_files c)\<lparr>roster := map_delete (roster (cl_files c)) name\<rparr>,
       cl_registrations := cl_registrations c @ [path_join (rosterDir d) name], cl_dead := cl_dead c @ [field j ''pid'']\<rparr>"

definition cleanup_row :: "peer_env \<Rightarrow> peer_dirs \<Rightarrow> string \<times> json_text \<Rightarrow> cleanup_state \<Rightarrow> string + cleanup_state" where
  "cleanup_row e d row c =
     (if digits_before ''.json'' (fst row) = None then Inr c
      else
        (case parse_json (snd row) of
           None \<Rightarrow> Inr (c\<lparr>cl_foreign := cl_foreign c + 1\<rparr>)
         | Some j \<Rightarrow>
             andThen (get_prop j ''version'') (\<lambda>v.
               if v \<noteq> Some (JStr REGISTRATION_VERSION) then Inr (c\<lparr>cl_foreign := cl_foreign c + 1\<rparr>)
               else if \<not> row_dead e j then Inr c
               else
                 let c1 = unlink_row d (fst row) j c
                 in Inr (case named_socket j of Some p \<Rightarrow> unlink_socket p c1 | None \<Rightarrow> c1))))"

fun cleanup_rows :: "peer_env \<Rightarrow> peer_dirs \<Rightarrow> directory \<Rightarrow> cleanup_state \<Rightarrow> string + cleanup_state" where
  "cleanup_rows e d [] c = Inr c"
| "cleanup_rows e d (row # rows) c = andThen (cleanup_row e d row c) (cleanup_rows e d rows)"

text \<open>The name of a path in a directory.\<close>

definition name_in :: "string \<Rightarrow> string \<Rightarrow> string option" where
  "name_in dir path =
     (let name = drop (length dir + 1) path in
      if starts_with (dir @ ''/'') path \<and> CHR ''/'' \<notin> set name then Some name else None)"

definition sweep_socket :: "peer_dirs \<Rightarrow> string \<Rightarrow> cleanup_state \<Rightarrow> cleanup_state" where
  "sweep_socket d path c =
     (case name_in (socketDir d) path of
        None \<Rightarrow> c
      | Some name \<Rightarrow>
          (case digits_before ''.sock'' name of
             None \<Rightarrow> c
           | Some ds \<Rightarrow>
               if path \<in> set (cl_sockets c) then c
               else if Some (JNum (digits_number ds)) \<notin> set (cl_dead c) then c
               else unlink_socket path c))"

definition cleanupOrphanRegistrations :: "peer_env \<Rightarrow> peer_dirs \<Rightarrow> peer_files \<Rightarrow> string + cleanup_state" where
  "cleanupOrphanRegistrations e d fs =
     andThen (cleanup_rows e d (roster fs)
        \<lparr>cl_files = fs, cl_registrations = [], cl_sockets = [], cl_foreign = 0, cl_dead = []\<rparr>) (\<lambda>c.
       Inr (fold (sweep_socket d) (sockets (cl_files c)) c))"
section \<open>What makes a row a route\<close>

definition live_row :: "peer_env \<Rightarrow> json \<Rightarrow> bool" where
  "live_row e j \<longleftrightarrow>
     field j ''peerProtocol'' = Some (JNum SUPPORTED_PEER_PROTOCOL)
   \<and> (case field j ''messagingSocketPath'' of Some p \<Rightarrow> truthy_json p | None \<Rightarrow> False)
   \<and> (case (field j ''procStart'', start_of e (field j ''pid'')) of
        (Some claim, Some a) \<Rightarrow> claim \<noteq> JNull \<and> claim \<noteq> JStr [] \<and> procStartMatches e claim a = Inr True
      | _ \<Rightarrow> False)"

definition row_route :: "peer_env \<Rightarrow> string \<times> json_text \<Rightarrow> live_route option" where
  "row_route e row =
     (case parse_json (snd row) of
        Some j \<Rightarrow> if ends_with ''.json'' (fst row) \<and> live_row e j then Some (route_of j) else None
      | None \<Rightarrow> None)"

lemma field_JNull [simp]: "field JNull k = None"
  by (simp add: field_def)

lemma evaluate_verdict:
  "evaluateRegistration e j = Inr v \<Longrightarrow> (case v of Inr r \<Rightarrow> live_row e j \<and> r = route_of j | Inl why \<Rightarrow> \<not> live_row e j)"
  by (auto simp: evaluateRegistration_def live_row_def get_prop_def andThen_Inr_iff
      split: if_splits option.splits sum.splits)

lemma live_evaluates: "live_row e j \<Longrightarrow> evaluateRegistration e j = Inr (Inr (route_of j))"
  by (auto simp: evaluateRegistration_def live_row_def get_prop_def split: option.splits)

lemma scan_files_live:
  "scan_files e files acc = Inr s \<Longrightarrow> scan_live s = scan_live acc @ List.map_filter (row_route e) files"
proof (induction e files acc arbitrary: s rule: scan_files.induct)
  case (1 e acc)
  then show ?case by (simp add: List.map_filter_simps)
next
  case (2 e name content files acc)
  show ?case
  proof (cases "ends_with ''.json'' name")
    case False
    then show ?thesis
      using "2.IH"(1) "2.prems" by (auto simp: List.map_filter_simps row_route_def split: option.splits)
  next
    case True
    show ?thesis
    proof (cases "parse_json content")
      case None
      then show ?thesis
        using "2.IH"(2) "2.prems" True by (auto simp: List.map_filter_simps row_route_def)
    next
      case (Some j)
      obtain v where v: "evaluateRegistration e j = Inr v"
        using "2.prems" True Some by (auto simp: andThen_Inr_iff)
      then show ?thesis
        using "2.IH"(3) "2.prems" True Some evaluate_verdict [OF v]
        by (auto simp: List.map_filter_simps row_route_def split: sum.splits)
    qed
  qed
qed

lemma selectRoute_found:
  assumes "selectRoute e (Some files) session = Inr res"
  shows "res = find (\<lambda>r. rt_session r = Some (JStr session)) (List.map_filter (row_route e) files)"
  using assms scan_files_live [of e files]
  by (fastforce simp: selectRoute_def scanRoster_def andThen_Inr_iff)

text \<open>The scan throws exactly when evaluating some row does.\<close>

definition row_throws :: "peer_env \<Rightarrow> string \<times> json_text \<Rightarrow> bool" where
  "row_throws e row \<longleftrightarrow> ends_with ''.json'' (fst row)
     \<and> (case parse_json (snd row) of Some j \<Rightarrow> \<exists>err. evaluateRegistration e j = Inl err | None \<Rightarrow> False)"

lemma scan_files_throws: "(\<exists>err. scan_files e files acc = Inl err) \<longleftrightarrow> (\<exists>row \<in> set files. row_throws e row)"
proof (induction e files acc rule: scan_files.induct)
  case (1 e acc)
  then show ?case by simp
next
  case (2 e name content files acc)
  show ?case
  proof (cases "ends_with ''.json'' name \<and> (\<exists>j. parse_json content = Some j)")
    case False
    then show ?thesis
      using "2.IH"(1,2) by (cases "ends_with ''.json'' name"; cases "parse_json content") (auto simp: row_throws_def)
  next
    case True
    then obtain j where j: "ends_with ''.json'' name" "parse_json content = Some j" by blast
    show ?thesis
      using "2.IH"(3) j by (cases "evaluateRegistration e j") (auto simp: row_throws_def)
  qed
qed

lemma selectRoute_throws:
  "(\<exists>err. selectRoute e (Some files) session = Inl err) \<longleftrightarrow> (\<exists>row \<in> set files. row_throws e row)"
  unfolding scan_files_throws [symmetric, where acc = "\<lparr>scan_live = [], scan_rejected = []\<rparr>"]
  by (cases "scan_files e files \<lparr>scan_live = [], scan_rejected = []\<rparr>") (simp_all add: selectRoute_def scanRoster_def)

text \<open>Two directories whose rows make the same claims of address and start.\<close>

definition same_claims :: "string \<times> json_text \<Rightarrow> string \<times> json_text \<Rightarrow> bool" where
  "same_claims x y \<longleftrightarrow> fst x = fst y
     \<and> (case (parse_json (snd x), parse_json (snd y)) of
          (Some i, Some j) \<Rightarrow> (i = JNull) = (j = JNull)
            \<and> (\<forall>k \<in> set [''pid'', ''sessionId'', ''procStart'', ''peerProtocol'', ''messagingSocketPath'']. field i k = field j k)
        | (None, None) \<Rightarrow> True
        | _ \<Rightarrow> False)"

definition same_address :: "live_route \<Rightarrow> live_route \<Rightarrow> bool" where
  "same_address r r' \<longleftrightarrow> rt_ref r = rt_ref r' \<and> rt_pid r = rt_pid r' \<and> rt_session r = rt_session r' \<and> rt_socket r = rt_socket r'"

lemma same_claims_route: "same_claims x y \<Longrightarrow> rel_option same_address (row_route e x) (row_route e y)"
  by (auto simp: same_claims_def row_route_def live_row_def route_of_def same_address_def split: option.splits)

lemma evaluate_throws:
  "(\<exists>err. evaluateRegistration e j = Inl err) \<longleftrightarrow> j = JNull
     \<or> field j ''peerProtocol'' = Some (JNum SUPPORTED_PEER_PROTOCOL)
       \<and> (case field j ''messagingSocketPath'' of Some p \<Rightarrow> truthy_json p | None \<Rightarrow> False)
       \<and> (case (field j ''procStart'', start_of e (field j ''pid'')) of
            (Some claim, Some a) \<Rightarrow> claim \<noteq> JNull \<and> (\<exists>err. procStartMatches e claim a = Inl err)
          | _ \<Rightarrow> False)"
proof (cases "field j ''procStart''")
  case None
  then show ?thesis by (simp add: evaluateRegistration_def get_prop_def)
next
  case (Some claim)
  have "procStartMatches e (JStr []) a = Inl err \<longleftrightarrow> False" for a err
    by (simp add: trim_def split: option.splits)
  then show ?thesis
    using Some
    by (cases "start_of e (field j ''pid'')"; cases "claim = JStr []"; cases "j = JNull")
       (auto simp: evaluateRegistration_def get_prop_def; metis andThen.simps sum.exhaust sum.distinct)+
qed

lemma same_claims_throws: "same_claims x y \<Longrightarrow> row_throws e x = row_throws e y"
  by (cases "parse_json (snd x)"; cases "parse_json (snd y)") (simp_all add: same_claims_def row_throws_def evaluate_throws)

lemma map_filter_rel:
  "list_all2 R xs ys \<Longrightarrow> (\<And>x y. R x y \<Longrightarrow> rel_option S (f x) (g y)) \<Longrightarrow>
     list_all2 S (List.map_filter f xs) (List.map_filter g ys)"
proof (induction rule: list_all2_induct)
  case Nil
  then show ?case by (simp add: List.map_filter_simps)
next
  case (Cons x xs y ys)
  then show ?case
    using Cons.prems [OF Cons(1)] by (cases "f x"; cases "g y") (simp_all add: List.map_filter_simps)
qed

lemma find_rel:
  "list_all2 S xs ys \<Longrightarrow> (\<And>x y. S x y \<Longrightarrow> P x = Q y) \<Longrightarrow> rel_option S (find P xs) (find Q ys)"
  by (induction rule: list_all2_induct) auto

lemma list_all2_bex: "list_all2 R xs ys \<Longrightarrow> (\<And>x y. R x y \<Longrightarrow> P x = Q y) \<Longrightarrow> (\<exists>x \<in> set xs. P x) = (\<exists>y \<in> set ys. Q y)"
  by (induction rule: list_all2_induct) auto

section \<open>Properties of a route\<close>

text \<open>C37. A route is earned: the coordinator's route is a row of the roster with this protocol,
  that session and a socket, naming a running process whose start is the one the row claims.
  What a session reports of itself besides (its name, its status, its directory) plays no
  part: a roster whose rows make the same claims of address and start gives the same address.\<close>

theorem route_live:
  assumes "selectRoute e (Some files) session = Inr (Some r)"
  shows "(\<exists>name j claim a. (name, Text j) \<in> set files \<and> ends_with ''.json'' name
      \<and> field j ''peerProtocol'' = Some (JNum SUPPORTED_PEER_PROTOCOL)
      \<and> field j ''sessionId'' = Some (JStr session) \<and> field j ''messagingSocketPath'' = Some (rt_socket r)
      \<and> start_of e (field j ''pid'') = Some a \<and> field j ''procStart'' = Some claim \<and> procStartMatches e claim a = Inr True
      \<and> rt_pid r = field j ''pid'' \<and> rt_session r = Some (JStr session))
    \<and> (list_all2 same_claims files files' \<longrightarrow>
        (\<exists>r'. selectRoute e (Some files') session = Inr (Some r') \<and> same_address r r'))"
proof (intro conjI impI)
  have r: "Some r = find (\<lambda>r. rt_session r = Some (JStr session)) (List.map_filter (row_route e) files)"
    by (rule selectRoute_found [OF assms])
  then have r_mem: "r \<in> set (List.map_filter (row_route e) files)" and sess: "rt_session r = Some (JStr session)"
    by (metis (mono_tags, lifting) find_Some_iff nth_mem)+
  then obtain row where row: "row \<in> set files" "row_route e row = Some r"
    by (auto simp: List.map_filter_def)
  then obtain j where j: "snd row = Text j" "ends_with ''.json'' (fst row)" "live_row e j" "r = route_of j"
    by (cases "snd row") (auto simp: row_route_def split: if_splits)
  then show "\<exists>name j claim a. (name, Text j) \<in> set files \<and> ends_with ''.json'' name
      \<and> field j ''peerProtocol'' = Some (JNum SUPPORTED_PEER_PROTOCOL)
      \<and> field j ''sessionId'' = Some (JStr session) \<and> field j ''messagingSocketPath'' = Some (rt_socket r)
      \<and> start_of e (field j ''pid'') = Some a \<and> field j ''procStart'' = Some claim \<and> procStartMatches e claim a = Inr True
      \<and> rt_pid r = field j ''pid'' \<and> rt_session r = Some (JStr session)"
    using row(1) sess by (cases row) (auto simp: live_row_def route_of_def split: option.splits)
next
  assume same: "list_all2 same_claims files files'"
  have "\<not> (\<exists>row \<in> set files. row_throws e row)"
    using assms selectRoute_throws [of e files session] by simp
  then have "\<not> (\<exists>row \<in> set files'. row_throws e row)"
    using list_all2_bex [OF same, where P = "row_throws e" and Q = "row_throws e"] same_claims_throws by blast
  then obtain res where res: "selectRoute e (Some files') session = Inr res"
    using selectRoute_throws [of e files' session] by (cases "selectRoute e (Some files') session") auto
  have "list_all2 same_address (List.map_filter (row_route e) files) (List.map_filter (row_route e) files')"
    by (rule map_filter_rel [OF same same_claims_route])
  then have "rel_option same_address (Some r) res"
    unfolding selectRoute_found [OF assms] selectRoute_found [OF res]
    by (rule find_rel) (simp add: same_address_def)
  then show "\<exists>r'. selectRoute e (Some files') session = Inr (Some r') \<and> same_address r r'"
    using res by (cases res) auto
qed
definition demo_env :: peer_env where
  "demo_env = \<lparr>start_of = (\<lambda>p. if p = Some (JNum 7) then Some \<lparr>ticks_since_boot = 500, epoch_ms = 9000\<rparr> else None),
     number_of = (\<lambda>s. Not_finite), date_parse = (\<lambda>s. None)\<rparr>"

definition demo_row :: "int \<Rightarrow> string \<Rightarrow> json" where
  "demo_row pid status = JObj [(''pid'', JNum pid), (''sessionId'', JStr ''s''), (''procStart'', JNum 500), (''peerProtocol'', JNum 1),
     (''messagingSocketPath'', JStr ''/run/a.sock''), (''status'', JStr status)]"

theorem route_live_witness:
  "\<exists>r. selectRoute demo_env (Some [(''6.json'', Text (demo_row 6 ''idle'')), (''7.json'', Text (demo_row 7 ''idle''))]) ''s'' = Inr (Some r)
     \<and> rt_pid r = Some (JNum 7)
     \<and> (\<exists>r'. selectRoute demo_env (Some [(''6.json'', Text (demo_row 6 ''idle'')), (''7.json'', Text (demo_row 7 ''gone''))]) ''s'' = Inr (Some r')
          \<and> same_address r r')"
proof -
  let ?files = "\<lambda>st. [(''6.json'', Text (demo_row 6 ''idle'')), (''7.json'', Text (demo_row 7 st))]"
  have sel: "selectRoute demo_env (Some (?files ''idle'')) ''s'' = Inr (Some (route_of (demo_row 7 ''idle'')))"
    by code_simp
  have same: "list_all2 same_claims (?files ''idle'') (?files ''gone'')"
    by code_simp
  have "rt_pid (route_of (demo_row 7 ''idle'')) = Some (JNum 7)" by code_simp
  then show ?thesis
    using sel route_live [OF sel, of "?files ''gone''"] same by blast
qed

section \<open>What a cleanup removes\<close>

definition own_dead :: "peer_env \<Rightarrow> string \<times> json_text \<Rightarrow> bool" where
  "own_dead e row \<longleftrightarrow> digits_before ''.json'' (fst row) \<noteq> None
     \<and> (case parse_json (snd row) of
          Some j \<Rightarrow> field j ''version'' = Some (JStr REGISTRATION_VERSION) \<and> row_dead e j
        | None \<Rightarrow> False)"

definition row_json :: "string \<times> json_text \<Rightarrow> json" where
  "row_json row = (case parse_json (snd row) of Some j \<Rightarrow> j | None \<Rightarrow> JNull)"

definition row_pid :: "string \<times> json_text \<Rightarrow> json option" where
  "row_pid row = field (row_json row) ''pid''"

definition row_socket :: "string \<times> json_text \<Rightarrow> string option" where
  "row_socket row = named_socket (row_json row)"

lemma unlink_socket_simps [simp]:
  "roster (cl_files (unlink_socket p c)) = roster (cl_files c)"
  "sockets (cl_files (unlink_socket p c)) = filter (\<lambda>x. x \<noteq> p) (sockets (cl_files c))"
  "cl_dead (unlink_socket p c) = cl_dead c"
  "set (cl_sockets (unlink_socket p c)) = set (cl_sockets c) \<union> ({p} \<inter> set (sockets (cl_files c)))"
proof -
  have "p \<notin> set (sockets (cl_files c)) \<Longrightarrow> filter (\<lambda>x. x \<noteq> p) (sockets (cl_files c)) = sockets (cl_files c)"
    by (induction "sockets (cl_files c)") (auto simp: filter_id_conv)
  then show "sockets (cl_files (unlink_socket p c)) = filter (\<lambda>x. x \<noteq> p) (sockets (cl_files c))"
    by (simp add: unlink_socket_def)
qed (simp_all add: unlink_socket_def)

lemma unlink_row_simps [simp]:
  "roster (cl_files (unlink_row d name j c)) = map_delete (roster (cl_files c)) name"
  "sockets (cl_files (unlink_row d name j c)) = sockets (cl_files c)"
  "cl_dead (unlink_row d name j c) = cl_dead c @ [field j ''pid'']"
  "cl_sockets (unlink_row d name j c) = cl_sockets c"
  by (simp_all add: unlink_row_def)

text \<open>A socket noted as removed is gone.\<close>

definition tidy :: "cleanup_state \<Rightarrow> bool" where
  "tidy c \<longleftrightarrow> set (cl_sockets c) \<inter> set (sockets (cl_files c)) = {}"

lemma tidy_unlink [simp]: "tidy c \<Longrightarrow> tidy (unlink_socket p c)" "tidy (unlink_row d name j c) = tidy c"
  by (auto simp: tidy_def)

lemma cleanup_row_other:
  assumes "cleanup_row e d row c = Inr c'" and "\<not> own_dead e row"
  shows "cl_files c' = cl_files c \<and> cl_dead c' = cl_dead c \<and> cl_sockets c' = cl_sockets c"
  using assms by (auto simp: cleanup_row_def own_dead_def get_prop_def andThen_Inr_iff split: if_splits option.splits)

lemma cleanup_row_own:
  assumes "own_dead e row"
  shows "cleanup_row e d row c = Inr (let c1 = unlink_row d (fst row) (row_json row) c
           in (case row_socket row of Some p \<Rightarrow> unlink_socket p c1 | None \<Rightarrow> c1))"
proof -
  obtain j where j: "parse_json (snd row) = Some j" "field j ''version'' = Some (JStr REGISTRATION_VERSION)" "row_dead e j"
    using assms by (auto simp: own_dead_def split: option.splits)
  then have "j \<noteq> JNull" by auto
  then show ?thesis
    using assms j by (auto simp: cleanup_row_def own_dead_def get_prop_def row_socket_def row_json_def Let_def)
qed

lemma cleanup_rows_effect:
  "cleanup_rows e d rows c = Inr c' \<Longrightarrow>
     roster (cl_files c') = filter (\<lambda>row. fst row \<notin> fst ` {x \<in> set rows. own_dead e x}) (roster (cl_files c))
   \<and> sockets (cl_files c') = filter (\<lambda>p. Some p \<notin> row_socket ` {x \<in> set rows. own_dead e x}) (sockets (cl_files c))
   \<and> cl_dead c' = cl_dead c @ map row_pid (filter (own_dead e) rows)
   \<and> (tidy c \<longrightarrow> tidy c')"
proof (induction rows arbitrary: c)
  case Nil
  then show ?case by simp
next
  case (Cons row rows)
  obtain c1 where c1: "cleanup_row e d row c = Inr c1" "cleanup_rows e d rows c1 = Inr c'"
    using Cons.prems by (auto simp: andThen_Inr_iff)
  show ?case
  proof (cases "own_dead e row")
    case False
    have "{x \<in> set (row # rows). own_dead e x} = {x \<in> set rows. own_dead e x}" using False by auto
    then show ?thesis
      using Cons.IH [OF c1(2)] cleanup_row_other [OF c1(1) False] False by (simp add: tidy_def [of c1] tidy_def [of c])
  next
    case True
    have eq: "{x \<in> set (row # rows). own_dead e x} = insert row {x \<in> set rows. own_dead e x}" using True by auto
    have "roster (cl_files c1) = filter (\<lambda>x. fst x \<noteq> fst row) (roster (cl_files c))
        \<and> sockets (cl_files c1) = filter (\<lambda>p. Some p \<noteq> row_socket row) (sockets (cl_files c))
        \<and> cl_dead c1 = cl_dead c @ [row_pid row] \<and> (tidy c \<longrightarrow> tidy c1)"
      using c1(1) True
      by (cases "row_socket row") (auto simp: cleanup_row_own Let_def map_delete_def row_pid_def)
    then show ?thesis
      unfolding eq using Cons.IH [OF c1(2)] True by (simp add: conj_commute)
  qed
qed
lemma null_row_stops:
  "(\<exists>err. cleanup_rows e d rows c = Inl err) \<longleftrightarrow>
     (\<exists>name. digits_before ''.json'' name \<noteq> None \<and> (name, Text JNull) \<in> set rows)"
proof (induction rows arbitrary: c)
  case Nil
  then show ?case by simp
next
  case (Cons row rows)
  have row: "(\<exists>err. cleanup_row e d row c = Inl err) \<longleftrightarrow> digits_before ''.json'' (fst row) \<noteq> None \<and> snd row = Text JNull"
  proof (cases "snd row")
    case (Text j)
    then show ?thesis by (auto simp: cleanup_row_def get_prop_def Let_def)
  qed (simp_all add: cleanup_row_def)
  show ?case
  proof (cases "cleanup_row e d row c")
    case (Inl err)
    then show ?thesis using row by (cases row) auto
  next
    case (Inr c1)
    then show ?thesis using row Cons.IH [of c1] by (cases row) auto
  qed
qed

text \<open>The sweep: a socket of the directory that carries the number of a dead process.\<close>

definition swept_by :: "peer_dirs \<Rightarrow> json option list \<Rightarrow> string \<Rightarrow> bool" where
  "swept_by d dead p \<longleftrightarrow>
     (\<exists>name ds. name_in (socketDir d) p = Some name \<and> digits_before ''.sock'' name = Some ds
        \<and> Some (JNum (digits_number ds)) \<in> set dead)"

lemma sweep_socket_frame [simp]:
  "roster (cl_files (sweep_socket d p c)) = roster (cl_files c)" "cl_dead (sweep_socket d p c) = cl_dead c"
  by (auto simp: sweep_socket_def split: option.splits)

lemma sweep_socket_effect:
  assumes "tidy c"
  shows "sockets (cl_files (sweep_socket d p c)) = filter (\<lambda>x. \<not> (x = p \<and> swept_by d (cl_dead c) x)) (sockets (cl_files c))
    \<and> tidy (sweep_socket d p c)"
proof (cases "swept_by d (cl_dead c) p \<and> p \<in> set (sockets (cl_files c))")
  case True
  then have "sweep_socket d p c = unlink_socket p c"
    using assms by (auto simp: sweep_socket_def swept_by_def tidy_def)
  then show ?thesis using True assms by (auto intro: filter_cong)
next
  case False
  have "sweep_socket d p c = c"
  proof (cases "swept_by d (cl_dead c) p")
    case True
    then have "p \<notin> set (sockets (cl_files c))" using False by blast
    then have "unlink_socket p c = c" by (simp add: unlink_socket_def)
    then show ?thesis by (auto simp: sweep_socket_def split: option.splits)
  next
    case False
    then show ?thesis by (auto simp: sweep_socket_def swept_by_def split: option.splits)
  qed
  then show ?thesis using False assms by (auto simp: filter_id_conv)
qed

lemma sweep_sockets_effect:
  "tidy c \<Longrightarrow>
     roster (cl_files (fold (sweep_socket d) ps c)) = roster (cl_files c)
   \<and> sockets (cl_files (fold (sweep_socket d) ps c))
       = filter (\<lambda>x. \<not> (x \<in> set ps \<and> swept_by d (cl_dead c) x)) (sockets (cl_files c))"
proof (induction ps arbitrary: c)
  case Nil
  then show ?case by simp
next
  case (Cons p ps)
  note one = sweep_socket_effect [OF Cons.prems, of d p]
  show ?case using Cons.IH [OF one [THEN conjunct2]] one by (auto intro: filter_cong)
qed

text \<open>C38. Cleaning up removes exactly what a dead process of this runtime left: with one row per
  file, the rows that go are those this runtime wrote whose process is gone or has another
  start; every other row stays, those of live processes and of other programs; and a socket
  goes exactly when such a row names it or it carries the number of such a process. The pass
  throws, before it is through, exactly when some row is \<open>null\<close>.\<close>

theorem cleanup_exact:
  assumes "map_ok (roster fs)"
  shows "case cleanupOrphanRegistrations e d fs of
      Inl err \<Rightarrow> \<exists>name. digits_before ''.json'' name \<noteq> None \<and> (name, Text JNull) \<in> set (roster fs)
    | Inr c \<Rightarrow>
        (\<nexists>name. digits_before ''.json'' name \<noteq> None \<and> (name, Text JNull) \<in> set (roster fs))
      \<and> roster (cl_files c) = filter (\<lambda>row. \<not> own_dead e row) (roster fs)
      \<and> sockets (cl_files c) = filter (\<lambda>p. \<forall>row \<in> set (roster fs). own_dead e row \<longrightarrow>
            row_socket row \<noteq> Some p \<and> \<not> swept_by d [row_pid row] p) (sockets fs)"
proof -
  let ?c0 = "\<lparr>cl_files = fs, cl_registrations = [], cl_sockets = [], cl_foreign = 0, cl_dead = []\<rparr>"
  show ?thesis
  proof (cases "cleanup_rows e d (roster fs) ?c0")
    case (Inl err)
    then have "\<exists>name. digits_before ''.json'' name \<noteq> None \<and> (name, Text JNull) \<in> set (roster fs)"
      using null_row_stops [of e d "roster fs" ?c0] by blast
    then show ?thesis using Inl by (simp add: cleanupOrphanRegistrations_def)
  next
    case (Inr c1)
    note rows = cleanup_rows_effect [OF Inr]
    have "tidy c1" using rows by (simp add: tidy_def [of ?c0])
    note sweep = sweep_sockets_effect [OF this, of d "sockets (cl_files c1)"]
    have "\<not> (\<exists>name. digits_before ''.json'' name \<noteq> None \<and> (name, Text JNull) \<in> set (roster fs))"
      using Inr null_row_stops [of e d "roster fs" ?c0] by simp
    moreover have keep: "row \<in> set (roster fs) \<Longrightarrow> fst row \<notin> fst ` {x \<in> set (roster fs). own_dead e x} \<longleftrightarrow> \<not> own_dead e row" for row
      using assms by (cases row) (auto simp: map_ok_def dest: eq_key_imp_eq_value intro: image_eqI [where x = row])
    have "filter (\<lambda>row. fst row \<notin> fst ` {x \<in> set (roster fs). own_dead e x}) (roster fs) = filter (\<lambda>row. \<not> own_dead e row) (roster fs)"
      by (rule filter_cong [OF refl keep])
    then have "roster (cl_files c1) = filter (\<lambda>row. \<not> own_dead e row) (roster fs)"
      using rows by simp
    moreover have swept: "swept_by d (cl_dead c1) p \<longleftrightarrow> (\<exists>row \<in> set (roster fs). own_dead e row \<and> swept_by d [row_pid row] p)" for p
      using rows by (auto simp: swept_by_def)
    moreover have "sockets (cl_files (fold (sweep_socket d) (sockets (cl_files c1)) c1)) = filter (\<lambda>p. \<forall>row \<in> set (roster fs). own_dead e row \<longrightarrow>
            row_socket row \<noteq> Some p \<and> \<not> swept_by d [row_pid row] p) (sockets fs)"
    proof -
      have "sockets (cl_files (fold (sweep_socket d) (sockets (cl_files c1)) c1)) = filter (\<lambda>p. \<not> swept_by d (cl_dead c1) p) (sockets (cl_files c1))"
        unfolding sweep [THEN conjunct2] by (intro filter_cong) auto
      also have "\<dots> = filter (\<lambda>p. \<forall>row \<in> set (roster fs). own_dead e row \<longrightarrow>
            row_socket row \<noteq> Some p \<and> \<not> swept_by d [row_pid row] p) (sockets fs)"
        unfolding rows [THEN conjunct2, THEN conjunct1] filter_filter image_iff
        by (intro filter_cong) (auto simp: swept eq_commute [of "Some _"])
      finally show ?thesis .
    qed
    ultimately show ?thesis
      using Inr sweep by (simp add: cleanupOrphanRegistrations_def)
  qed
qed
definition demo_dirs :: peer_dirs where
  "demo_dirs = \<lparr>rosterDir = ''/r'', socketDir = ''/s''\<rparr>"

definition demo_own :: "int \<Rightarrow> int \<Rightarrow> json" where
  "demo_own pid ticks = registration_entry \<lparr>ro_name = ''sp'', ro_cwd = ''/w'', ro_session = ''s''\<rparr> pid 1
     (socket_path demo_dirs pid) \<lparr>ticks_since_boot = ticks, epoch_ms = 0\<rparr>"

definition demo_files :: peer_files where
  "demo_files = \<lparr>roster = [(''6.json'', Text (demo_own 6 500)), (''7.json'', Text (demo_own 7 500)), (''8.json'', Text (demo_row 8 ''idle''))],
     sockets = [''/s/6.sock'', ''/s/7.sock'', ''/s/8.sock'']\<rparr>"

theorem cleanup_exact_witness:
  "\<exists>c. cleanupOrphanRegistrations demo_env demo_dirs demo_files = Inr c
     \<and> map fst (roster (cl_files c)) = [''7.json'', ''8.json''] \<and> sockets (cl_files c) = [''/s/7.sock'', ''/s/8.sock'']"
proof -
  have ok: "map_ok (roster demo_files)" by code_simp
  have "list_all (\<lambda>row. snd row \<noteq> Text JNull) (roster demo_files)" by code_simp
  then have none: "\<not> (\<exists>name. digits_before ''.json'' name \<noteq> None \<and> (name, Text JNull) \<in> set (roster demo_files))"
    by (auto simp: list_all_iff)
  have rows: "map fst (filter (\<lambda>row. \<not> own_dead demo_env row) (roster demo_files)) = [''7.json'', ''8.json'']"
    by code_simp
  obtain six seven eight where demo: "roster demo_files = [six, seven, eight]"
      "own_dead demo_env six" "\<not> own_dead demo_env seven" "\<not> own_dead demo_env eight"
      "row_socket six = Some ''/s/6.sock''" "row_pid six = Some (JNum 6)"
  proof (rule that)
    show "roster demo_files = [(''6.json'', Text (demo_own 6 500)), (''7.json'', Text (demo_own 7 500)), (''8.json'', Text (demo_row 8 ''idle''))]"
      by (simp add: demo_files_def)
  qed code_simp+
  have only: "(\<forall>row \<in> set (roster demo_files). own_dead demo_env row \<longrightarrow> row_socket row \<noteq> Some p \<and> \<not> swept_by demo_dirs [row_pid row] p)
      \<longleftrightarrow> p \<noteq> ''/s/6.sock'' \<and> \<not> swept_by demo_dirs [Some (JNum 6)] p" for p
    unfolding demo(1) list.set using demo(2-) by auto
  have names: "name_in (socketDir demo_dirs) ''/s/7.sock'' = Some ''7.sock''" "name_in (socketDir demo_dirs) ''/s/8.sock'' = Some ''8.sock''"
    "digits_before ''.sock'' ''7.sock'' = Some ''7''" "digits_before ''.sock'' ''8.sock'' = Some ''8''"
    "digits_number ''7'' = 7" "digits_number ''8'' = 8"
    by code_simp+
  have "\<not> swept_by demo_dirs [Some (JNum 6)] ''/s/7.sock''" "\<not> swept_by demo_dirs [Some (JNum 6)] ''/s/8.sock''"
    by (simp_all add: swept_by_def names)
  moreover have "sockets demo_files = [''/s/6.sock'', ''/s/7.sock'', ''/s/8.sock'']" by (simp add: demo_files_def)
  ultimately have socks: "filter (\<lambda>p. p \<noteq> ''/s/6.sock'' \<and> \<not> swept_by demo_dirs [Some (JNum 6)] p) (sockets demo_files) = [''/s/7.sock'', ''/s/8.sock'']"
    by simp
  have "case cleanupOrphanRegistrations demo_env demo_dirs demo_files of Inl err \<Rightarrow> False
      | Inr c \<Rightarrow> map fst (roster (cl_files c)) = [''7.json'', ''8.json''] \<and> sockets (cl_files c) = [''/s/7.sock'', ''/s/8.sock'']"
    using cleanup_exact [OF ok, of demo_env demo_dirs] none rows
    unfolding only socks by (cases "cleanupOrphanRegistrations demo_env demo_dirs demo_files") auto
  then show ?thesis by (simp split: sum.splits)
qed

section \<open>Registering\<close>

lemma map_set_new: "\<not> map_has m k \<Longrightarrow> map_set m k v = m @ [(k, v)]"
  by (induction m k v rule: map_set.induct) (auto simp: map_has_def split: if_splits)

lemma map_delete_new: "\<not> map_has m k \<Longrightarrow> map_delete m k = m"
  by (auto simp: map_has_def map_delete_def map_get_None_iff filter_id_conv)

lemma find_append: "find P (xs @ ys) = (case find P xs of None \<Rightarrow> find P ys | Some x \<Rightarrow> Some x)"
  by (induction xs) auto

lemma registration_file_json: "ends_with ''.json'' (registration_file pid)"
  by (simp add: ends_with_def registration_file_def)

lemma registration_live:
  "start_of e (Some (JNum pid)) = Some st \<Longrightarrow> live_row e (registration_entry ro pid now (socket_path d pid) st)"
  by (simp add: live_row_def registration_entry_def socket_path_def path_join_def)

text \<open>Registering makes the session reachable and nothing else: unless this process has a row
  or a socket already or its start cannot be read, in which case nothing changes, the socket
  and the row are added, every session of the roster keeps its route, and a session that had
  none is routed to this process and this socket; a cleanup spares the row; and deregistering
  leaves the files as they were.\<close>

theorem register_reachable:
  assumes scan: "selectRoute e (Some (roster fs)) session = Inr res" and one: "map_ok (roster fs)"
    and reg: "registerRuntimePeer e d ro pid now fs = (out, fs')"
  shows "case out of
      Inl err \<Rightarrow> fs' = fs
    | Inr u \<Rightarrow>
        socket_path d pid \<in> set (sockets fs') - set (sockets fs)
      \<and> selectRoute e (Some (roster fs')) session =
          (if res = None \<and> session = ro_session ro
           then Inr (Some (route_of (registration_entry ro pid now (socket_path d pid) (the (start_of e (Some (JNum pid)))))))
           else Inr res)
      \<and> \<not> own_dead e (registration_file pid, the (map_get (roster fs') (registration_file pid)))
      \<and> deregister d pid fs' = fs"
proof (cases out)
  case (Inl err)
  then show ?thesis using reg by (auto simp: registerRuntimePeer_def split: option.splits if_splits)
next
  case (Inr u)
  then obtain st where st: "start_of e (Some (JNum pid)) = Some st" "\<not> map_has (roster fs) (registration_file pid)"
      "socket_path d pid \<notin> set (sockets fs)"
    using reg by (auto simp: registerRuntimePeer_def split: option.splits if_splits)
  let ?j = "registration_entry ro pid now (socket_path d pid) st"
  have fs': "fs' = fs\<lparr>sockets := sockets fs @ [socket_path d pid], roster := roster fs @ [(registration_file pid, Text ?j)]\<rparr>"
    using reg Inr st by (auto simp: registerRuntimePeer_def map_set_new)
  have row: "row_route e (registration_file pid, Text ?j) = Some (route_of ?j)"
    using st(1) by (simp add: row_route_def registration_file_json registration_live)
  have "\<not> row_throws e (registration_file pid, Text ?j)"
    using live_evaluates [OF registration_live [OF st(1)]] by (simp add: row_throws_def)
  moreover have "\<not> (\<exists>row \<in> set (roster fs). row_throws e row)"
    using scan selectRoute_throws [of e "roster fs" session] by simp
  ultimately have "\<not> (\<exists>row \<in> set (roster fs'). row_throws e row)"
    by (auto simp: fs')
  then obtain res' where res': "selectRoute e (Some (roster fs')) session = Inr res'"
    using selectRoute_throws [of e "roster fs'" session] by (cases "selectRoute e (Some (roster fs')) session") auto
  have "rt_session (route_of ?j) = Some (JStr (ro_session ro))"
    by (simp add: route_of_def registration_entry_def)
  then have "res' = (if res = None \<and> session = ro_session ro then Some (route_of ?j) else res)"
    using selectRoute_found [OF scan] selectRoute_found [OF res'] row
    by (auto simp: fs' List.map_filter_def find_append split: option.splits)
  moreover have "\<not> own_dead e (registration_file pid, Text ?j)"
    using st(1) by (simp add: own_dead_def row_dead_def registration_entry_def)
  moreover have "map_get (roster fs') (registration_file pid) = Some (Text ?j)"
    using st(2) by (simp add: fs' map_set_new [symmetric] map_get_set)
  moreover have "deregister d pid fs' = fs"
  proof -
    have "map_delete (roster fs) (registration_file pid) = roster fs" by (rule map_delete_new [OF st(2)])
    moreover have "filter (\<lambda>s. s \<noteq> socket_path d pid) (sockets fs) = sockets fs"
      using st(3) by (auto simp: filter_id_conv)
    ultimately show ?thesis by (simp add: deregister_def fs' map_delete_def)
  qed
  ultimately show ?thesis
    using Inr res' st by (simp add: fs')
qed

theorem register_reachable_witness:
  "\<exists>fs' r. registerRuntimePeer demo_env demo_dirs \<lparr>ro_name = ''n'', ro_cwd = ''/w'', ro_session = ''q''\<rparr> 7 1 \<lparr>roster = [], sockets = []\<rparr> = (Inr (), fs')
     \<and> selectRoute demo_env (Some (roster fs')) ''q'' = Inr (Some r) \<and> rt_pid r = Some (JNum 7)
     \<and> deregister demo_dirs 7 fs' = \<lparr>roster = [], sockets = []\<rparr>"
proof -
  let ?fs = "\<lparr>roster = [], sockets = []\<rparr> :: peer_files"
  let ?ro = "\<lparr>ro_name = ''n'', ro_cwd = ''/w'', ro_session = ''q''\<rparr>"
  have scan: "selectRoute demo_env (Some (roster ?fs)) ''q'' = Inr None"
    by (simp add: selectRoute_def scanRoster_def)
  obtain fs' where fs': "registerRuntimePeer demo_env demo_dirs ?ro 7 1 ?fs = (Inr (), fs')"
    by (simp add: registerRuntimePeer_def demo_env_def map_has_def)
  show ?thesis
    using register_reachable [OF scan _ fs'] fs' by (simp add: route_of_def registration_entry_def)
qed

end
