(* ===== verification/Peer_Wire.thy ===== *)
theory Peer_Wire imports Peer_Roster Interaction begin

text \<open>
  \<open>src/activation/transport/peer-transport.ts\<close>: the frame a message is sent in, the test of a
  receipt, and the socket receipts arrive on: its buffer, the receipts kept by the message
  they name, and the calls waiting for one.

  Parameters: \<open>JSON.parse\<close> of a line, and the bytes of a frame. A call of \<open>waitForReceipt\<close> is
  a number; the promises that have ended are listed with what they gave. Receipts are kept
  by any JSON value they name, as in the code; only strings are ever asked for.
\<close>

definition MAX_LINE_BYTES :: nat where
  "MAX_LINE_BYTES = 1024 * 1024"

definition ENVELOPE_TAG :: string where
  "ENVELOPE_TAG = ''cross-session-message''"

section \<open>Addresses\<close>

definition dirname :: "string \<Rightarrow> string" where
  "dirname p = (let d = rev (dropWhile (\<lambda>c. c \<noteq> CHR ''/'') (rev p)) in
     if d = [] then ''.'' else if d = ''/'' then ''/'' else butlast d)"

text \<open>The directory a row names, if it names one; every error is passed over.\<close>

definition socket_dir_of :: "string \<times> json_text \<Rightarrow> string option" where
  "socket_dir_of row =
     (if digits_before ''.json'' (fst row) = None then None
      else
        (case parse_json (snd row) of
           Some j \<Rightarrow> (case field j ''messagingSocketPath'' of
               Some (JStr p) \<Rightarrow> if ends_with ''.sock'' p then Some (dirname p) else None
             | _ \<Rightarrow> None)
         | None \<Rightarrow> None))"

definition peerSocketDir :: "string option \<Rightarrow> directory option \<Rightarrow> string" where
  "peerSocketDir xdg_runtime_dir dir =
     (case List.map_filter socket_dir_of (case dir of Some files \<Rightarrow> files | None \<Rightarrow> []) of
        d # ds \<Rightarrow> d
      | [] \<Rightarrow> path_join (case xdg_runtime_dir of Some x \<Rightarrow> if x \<noteq> [] then x else ''/tmp'' | None \<Rightarrow> ''/tmp'') ''cc-socks'')"

section \<open>The envelope\<close>

text \<open>What follows a text that starts with \<open>p\<close>, in whatever case.\<close>

fun after_ci :: "string \<Rightarrow> string \<Rightarrow> string option" where
  "after_ci [] s = Some s"
| "after_ci (p # ps) [] = None"
| "after_ci (p # ps) (c # cs) = (if lower_char c = p then after_ci ps cs else None)"

text \<open>\<open>cross-session-message(?:[>\s/]|$)\<close> at the start, and the closing tag.\<close>

definition tag_at :: "string \<Rightarrow> bool" where
  "tag_at s =
     (case after_ci ENVELOPE_TAG s of
        Some (c # cs) \<Rightarrow> c = CHR ''>'' \<or> is_space c \<or> c = CHR ''/''
      | Some [] \<Rightarrow> True
      | None \<Rightarrow> False)"

fun closing_at :: "string \<Rightarrow> bool" where
  "closing_at (c # d # s) = (c = CHR ''<'' \<and> d = CHR ''/'' \<and> tag_at s)"
| "closing_at _ = False"

fun escapeBody :: "string \<Rightarrow> string" where
  "escapeBody (c # d # s) =
     (if c = CHR ''<'' \<and> d = CHR ''/'' \<and> tag_at s then c # CHR 0x5C # d # escapeBody s
      else c # escapeBody (d # s))"
| "escapeBody s = s"

definition strip_quotes :: "string \<Rightarrow> string" where
  "strip_quotes s = filter (\<lambda>c. c \<notin> set [CHR 0x22, CHR ''<'', CHR ''>'']) s"

definition envelope_attrs :: "string option \<Rightarrow> string option \<Rightarrow> string list" where
  "envelope_attrs from_address fromName =
     (case present from_address of Some f \<Rightarrow> [''from='' @ [CHR 0x22] @ f @ [CHR 0x22]] | None \<Rightarrow> [])
   @ (case present fromName of Some n \<Rightarrow> [''from-name='' @ [CHR 0x22] @ strip_quotes n @ [CHR 0x22]] | None \<Rightarrow> [])"

definition envelope_open :: "string option \<Rightarrow> string option \<Rightarrow> string" where
  "envelope_open from_address fromName =
     (let attrs = envelope_attrs from_address fromName in
      ''<'' @ ENVELOPE_TAG @ (if attrs = [] then [] else '' '' @ join '' '' attrs) @ ''>'')"

definition buildEnvelope :: "string option \<Rightarrow> string option \<Rightarrow> string \<Rightarrow> string" where
  "buildEnvelope from_address fromName body_text =
     envelope_open from_address fromName @ [newline] @ escapeBody body_text @ [newline] @ ''</'' @ ENVELOPE_TAG @ ''>''"

section \<open>Frames\<close>

definition buildUserFrame :: "string \<Rightarrow> string \<Rightarrow> string option \<Rightarrow> string option \<Rightarrow> string option \<Rightarrow> json" where
  "buildUserFrame msgId content from_address sessionId priority = JObj
     ([(''msgV'', JNum 1), (''msg_id'', JStr msgId), (''type'', JStr ''user''),
       (''priority'', JStr (case priority of Some p \<Rightarrow> p | None \<Rightarrow> ''next''))]
      @ opt_key ''from'' (map_option JStr (present from_address))
      @ opt_key ''session_id'' (map_option JStr (present sessionId))
      @ [(''message'', JObj [(''role'', JStr ''user''), (''content'', JStr content)])])"

definition isReceiptFor :: "json \<Rightarrow> string \<Rightarrow> bool" where
  "isReceiptFor frame origMsgId \<longleftrightarrow> is_object frame
     \<and> field frame ''type'' = Some (JStr ''control'') \<and> field frame ''action'' = Some (JStr ''peer_message_status'')
     \<and> field frame ''orig_msg_id'' = Some (JStr origMsgId)"

text \<open>\<open>io\<close> is what the socket did: accepted the bytes, or the error.\<close>

definition sendFrame :: "(json \<Rightarrow> nat) \<Rightarrow> json \<Rightarrow> string + unit \<Rightarrow> string + unit" where
  "sendFrame bytes frame io =
     (if bytes frame > MAX_LINE_BYTES
      then Inl (''frame exceeds '' @ show_nat MAX_LINE_BYTES @ '' bytes; the peer would drop the connection'')
      else io)"

section \<open>Receipts\<close>

record receipt_source =
  received :: "(json, json) js_map"
  awaiting :: "(string, nat) js_map"
  settled :: "(nat \<times> json option) list"

definition new_source :: receipt_source where
  "new_source = \<lparr>received = [], awaiting = [], settled = []\<rparr>"

text \<open>The waiter of the message, if there is one, gets the frame and is forgotten.\<close>

definition wake_waiter :: "json \<Rightarrow> json \<Rightarrow> receipt_source \<Rightarrow> receipt_source" where
  "wake_waiter k frame s =
     (case k of
        JStr mid \<Rightarrow>
          (case map_get (awaiting s) mid of
             Some w \<Rightarrow> s\<lparr>settled := settled s @ [(w, Some frame)], awaiting := map_delete (awaiting s) mid\<rparr>
           | None \<Rightarrow> s)
      | _ \<Rightarrow> s)"

text \<open>One line. Reading a property of \<open>null\<close> throws, and nothing catches it.\<close>

definition receive_line :: "(string \<Rightarrow> json option) \<Rightarrow> string \<Rightarrow> receipt_source \<Rightarrow> string + receipt_source" where
  "receive_line parse line s =
     (if trim line = [] then Inr s
      else
        (case parse line of
           None \<Rightarrow> Inr s
         | Some frame \<Rightarrow>
             andThen (get_prop frame ''type'') (\<lambda>ty.
               if ty \<noteq> Some (JStr ''control'') \<or> field frame ''action'' \<noteq> Some (JStr ''peer_message_status'') then Inr s
               else
                 (case field frame ''orig_msg_id'' of
                    None \<Rightarrow> Inr s
                  | Some k \<Rightarrow>
                      if \<not> truthy_json k then Inr s
                      else Inr (wake_waiter k frame (s\<lparr>received := map_set (received s) k frame\<rparr>))))))"

lemma index_of_bound: "index_of p s = Some n \<Longrightarrow> p \<noteq> [] \<Longrightarrow> n < length s"
  by (induction p s arbitrary: n rule: index_of.induct) (auto split: if_splits)

function drain_lines :: "(string \<Rightarrow> json option) \<Rightarrow> string \<Rightarrow> receipt_source \<Rightarrow> string + (string \<times> receipt_source)" where
  "drain_lines parse buffer s =
     (case index_of [newline] buffer of
        None \<Rightarrow> Inr (buffer, s)
      | Some n \<Rightarrow> andThen (receive_line parse (take n buffer) s) (drain_lines parse (drop (n + 1) buffer)))"
  by pat_completeness auto
termination
  by (relation "measure (\<lambda>(parse, buffer, s). length buffer)") (auto dest: index_of_bound)

declare drain_lines.simps [simp del]

record connection =
  buffer :: string
  destroyed :: bool

definition new_connection :: connection where
  "new_connection = \<lparr>buffer = [], destroyed = False\<rparr>"

text \<open>A chunk of the stream; a destroyed connection emits no more of them.\<close>

definition on_data :: "(string \<Rightarrow> json option) \<Rightarrow> string \<Rightarrow> connection \<times> receipt_source \<Rightarrow> string + (connection \<times> receipt_source)" where
  "on_data parse chunk cs =
     (case cs of (c, s) \<Rightarrow>
        if destroyed c then Inr (c, s)
        else if length (buffer c @ chunk) > MAX_LINE_BYTES then Inr (\<lparr>buffer = [], destroyed = True\<rparr>, s)
        else andThen (drain_lines parse (buffer c @ chunk) s) (\<lambda>(rest, s1). Inr (\<lparr>buffer = rest, destroyed = False\<rparr>, s1)))"

fun on_chunks :: "(string \<Rightarrow> json option) \<Rightarrow> string list \<Rightarrow> connection \<times> receipt_source \<Rightarrow> string + (connection \<times> receipt_source)" where
  "on_chunks parse [] cs = Inr cs"
| "on_chunks parse (chunk # chunks) cs = andThen (on_data parse chunk cs) (on_chunks parse chunks)"

text \<open>The call \<open>w\<close> of \<open>waitForReceipt\<close>, and its timer.\<close>

definition waitForReceipt :: "nat \<Rightarrow> string \<Rightarrow> receipt_source \<Rightarrow> receipt_source" where
  "waitForReceipt w mid s =
     (case map_get (received s) (JStr mid) of
        Some frame \<Rightarrow> s\<lparr>settled := settled s @ [(w, Some frame)]\<rparr>
      | None \<Rightarrow> s\<lparr>awaiting := map_set (awaiting s) mid w\<rparr>)"

text \<open>The timer is cleared once its own call has its frame.\<close>

definition wait_expires :: "nat \<Rightarrow> string \<Rightarrow> receipt_source \<Rightarrow> receipt_source" where
  "wait_expires w mid s =
     (if w \<in> fst ` set (settled s) then s
      else s\<lparr>awaiting := map_delete (awaiting s) mid, settled := settled s @ [(w, None)]\<rparr>)"

definition close_source :: "receipt_source \<Rightarrow> receipt_source" where
  "close_source s = s\<lparr>awaiting := []\<rparr>"
section \<open>The envelope is closed once\<close>

definition closings :: "string \<Rightarrow> nat list" where
  "closings s = filter (\<lambda>i. closing_at (drop i s)) [0..<length s]"

lemma escapeBody_other: "c \<noteq> CHR ''<'' \<Longrightarrow> escapeBody (c # s) = c # escapeBody s"
  by (cases s) auto

lemma lower_less [simp]: "lower_char (CHR ''<'') = CHR ''<''"
  by code_simp

lemma escapeBody_shape: "escapeBody s = [] \<longleftrightarrow> s = []" "s \<noteq> [] \<Longrightarrow> hd (escapeBody s) = hd s"
  by (induction s rule: escapeBody.induct) auto

lemma after_ci_escape: "CHR ''<'' \<notin> set p \<Longrightarrow> after_ci p (escapeBody s) = map_option escapeBody (after_ci p s)"
proof (induction p s rule: after_ci.induct)
  case (3 p ps c cs)
  show ?case
  proof (cases "c = CHR ''<''")
    case True
    then have "lower_char c \<noteq> p" using "3.prems" by auto
    moreover obtain r where "escapeBody (c # cs) = c # r"
      using escapeBody_shape [of "c # cs"] by (cases "escapeBody (c # cs)") simp_all
    ultimately show ?thesis by simp
  next
    case False
    then show ?thesis using "3.IH" "3.prems" by (simp add: escapeBody_other)
  qed
qed simp_all

lemma tag_at_escape [simp]: "tag_at (escapeBody s) = tag_at s"
proof -
  have "CHR ''<'' \<notin> set ENVELOPE_TAG" by (simp add: ENVELOPE_TAG_def)
  note eq = after_ci_escape [OF this, of s]
  have head: "(case escapeBody r of [] \<Rightarrow> P | c # cs \<Rightarrow> Q c) = (case r of [] \<Rightarrow> P | c # cs \<Rightarrow> Q c)" for r :: string and P :: bool and Q
    using escapeBody_shape [of r] by (cases r; cases "escapeBody r") auto
  show ?thesis
    unfolding tag_at_def eq by (cases "after_ci ENVELOPE_TAG s") (simp_all add: head)
qed

lemma closing_at_less: "closing_at (c # s) \<longleftrightarrow> c = CHR ''<'' \<and> (\<exists>r. s = CHR ''/'' # r \<and> tag_at r)"
  by (cases s) auto

lemma escape_no_closing: "\<not> closing_at (drop i (escapeBody s))"
proof (induction s arbitrary: i rule: escapeBody.induct)
  case (1 c d s)
  show ?case
  proof (cases "c = CHR ''<'' \<and> d = CHR ''/'' \<and> tag_at s")
    case True
    have "\<not> closing_at (CHR 0x5C # CHR ''/'' # escapeBody s)" by simp
    moreover have "\<not> closing_at (CHR ''/'' # escapeBody s)" by (cases "escapeBody s") auto
    moreover have "\<not> closing_at (CHR ''<'' # CHR 0x5C # CHR ''/'' # escapeBody s)" by simp
    ultimately show ?thesis
      using True "1.IH"(1) by (auto simp: drop_Cons split: nat.splits)
  next
    case False
    have "\<not> closing_at (c # escapeBody (d # s))"
    proof
      assume "closing_at (c # escapeBody (d # s))"
      then obtain r where c: "c = CHR ''<''" and r: "escapeBody (d # s) = CHR ''/'' # r" "tag_at r"
        by (auto simp: closing_at_less)
      then have d: "d = CHR ''/''" using escapeBody_shape(2) [of "d # s"] by simp
      then have "r = escapeBody s" using r(1) by (simp add: escapeBody_other)
      then show False using False c d r(2) by simp
    qed
    then show ?thesis using False "1.IH"(2) by (auto simp: drop_Cons split: nat.splits)
  qed
qed (auto simp: drop_Cons split: nat.splits)

text \<open>A line break ends what was not closed before it.\<close>

lemma after_ci_append:
  "lower_char c \<notin> set p \<Longrightarrow> after_ci p (s @ c # t) = map_option (\<lambda>r. r @ c # t) (after_ci p s)"
  by (induction p s rule: after_ci.induct) auto

lemma newline_facts: "lower_char newline \<notin> set ENVELOPE_TAG" "is_space newline" "newline \<noteq> CHR ''<''" "newline \<noteq> CHR ''/''"
proof -
  show "lower_char newline \<notin> set ENVELOPE_TAG" by code_simp
  show "is_space newline" by code_simp
  show "newline \<noteq> CHR ''<''" by code_simp
  show "newline \<noteq> CHR ''/''" by code_simp
qed

lemma tag_at_newline: "tag_at (s @ newline # t) = tag_at s"
  unfolding tag_at_def after_ci_append [OF newline_facts(1)]
  using newline_facts(2) by (auto split: option.splits list.splits)

lemma closing_at_newline: "closing_at (s @ newline # t) = closing_at s"
proof (cases s)
  case Nil
  then show ?thesis using newline_facts(3) by (cases t) auto
next
  case (Cons c r)
  then show ?thesis using newline_facts(4) tag_at_newline [of "tl r" t] by (cases r) (auto simp: closing_at_less)
qed

lemma closings_newline: "closings (s @ newline # t) = closings s @ map (\<lambda>i. i + length s + 1) (closings t)"
proof -
  have split: "[0..<length (s @ newline # t)] = [0..<length s] @ length s # map (\<lambda>i. i + (length s + 1)) [0..<length t]"
  proof -
    have "[0..<length s + Suc (length t)] = [0..<length s] @ [length s..<length s + Suc (length t)]"
      by (rule upt_add_eq_append) simp
    moreover have "[length s..<length s + Suc (length t)] = length s # [Suc (length s)..<length t + Suc (length s)]"
      by (simp only: upt_conv_Cons) (simp add: upt_conv_Cons add.commute)
    ultimately show ?thesis by (simp only: length_append list.size map_add_upt) simp
  qed
  have "\<not> closing_at (newline # t)" using closing_at_newline [of "[]" t] by simp
  then show ?thesis
    unfolding closings_def split
    by (auto simp add: closing_at_newline filter_map comp_def add.commute intro: filter_cong)
qed

lemma closings_none: "(\<And>i. \<not> closing_at (drop i s)) \<Longrightarrow> closings s = []"
  by (simp add: closings_def)

lemma closing_at_mem: "closing_at (drop i s) \<Longrightarrow> \<exists>u v. s = u @ CHR ''<'' # CHR ''/'' # v"
proof -
  assume "closing_at (drop i s)"
  then obtain v where "drop i s = CHR ''<'' # CHR ''/'' # v" by (cases "drop i s" rule: closing_at.cases) auto
  then show ?thesis using append_take_drop_id [of i s] by metis
qed
lemma closings_Nil_iff: "closings s = [] \<longleftrightarrow> (\<forall>i. \<not> closing_at (drop i s))"
proof -
  have "\<not> closing_at (drop i s)" if "length s \<le> i" for i using that by simp
  then show ?thesis unfolding closings_def filter_empty_conv by (auto simp: not_less)
qed

lemma escapeBody_id: "closings s = [] \<Longrightarrow> escapeBody s = s"
  unfolding closings_Nil_iff
proof (induction s rule: escapeBody.induct)
  case (1 c d s)
  have "\<not> (c = CHR ''<'' \<and> d = CHR ''/'' \<and> tag_at s)" using "1.prems" [rule_format, of 0] by simp
  moreover have "\<forall>i. \<not> closing_at (drop i (d # s))" using "1.prems" by (metis drop_Suc_Cons)
  ultimately show ?case using "1.IH"(2) by simp
qed simp_all

lemma envelope_open_shape:
  assumes "case from_address of Some f \<Rightarrow> CHR ''<'' \<notin> set f | None \<Rightarrow> True"
  shows "\<exists>rest. envelope_open from_address fromName = ''<c'' @ rest \<and> CHR ''<'' \<notin> set rest"
proof -
  have attrs: "\<forall>a \<in> set (envelope_attrs from_address fromName). CHR ''<'' \<notin> set a"
    using assms by (auto simp: envelope_attrs_def present_def truthy_def strip_quotes_def split: option.splits if_splits)
  have join_less: "\<forall>a \<in> set as. CHR ''<'' \<notin> set a \<Longrightarrow> CHR ''<'' \<notin> set (join '' '' as)" for as
    by (induction "'' ''" as rule: join.induct) auto
  let ?rest = "drop 1 ENVELOPE_TAG @ (if envelope_attrs from_address fromName = [] then []
      else '' '' @ join '' '' (envelope_attrs from_address fromName)) @ ''>''"
  have "envelope_open from_address fromName = ''<c'' @ ?rest"
    by (simp add: envelope_open_def ENVELOPE_TAG_def Let_def)
  moreover have "CHR ''<'' \<notin> set ?rest"
    using join_less [OF attrs] by (auto simp: ENVELOPE_TAG_def)
  ultimately show ?thesis by blast
qed

text \<open>C39. No text breaks out of its envelope: whatever the body and the display name, and for an
  address without \<open><\<close>, what is sent holds exactly one closing tag, in any spelling the
  reader may accept, and it is the one at the end; and a body that holds none is sent as it
  is.\<close>

theorem envelope_closed:
  assumes "case from_address of Some f \<Rightarrow> CHR ''<'' \<notin> set f | None \<Rightarrow> True"
  shows "closings (buildEnvelope from_address fromName b)
      = [length (buildEnvelope from_address fromName b) - length (''</'' @ ENVELOPE_TAG @ ''>'')]
    \<and> (closings b = [] \<longrightarrow> escapeBody b = b)"
proof -
  obtain rest where open_tag: "envelope_open from_address fromName = ''<c'' @ rest" "CHR ''<'' \<notin> set rest"
    using envelope_open_shape [OF assms] by blast
  have "closings (envelope_open from_address fromName) = []"
    unfolding closings_Nil_iff
  proof (intro allI notI)
    fix i assume "closing_at (drop i (envelope_open from_address fromName))"
    then obtain u v where "''<c'' @ rest = u @ CHR ''<'' # CHR ''/'' # v"
      using closing_at_mem open_tag(1) by metis
    then show False using open_tag(2) by (cases u; cases "tl u") auto
  qed
  moreover have "closings (escapeBody b) = []"
    by (simp add: closings_Nil_iff escape_no_closing)
  moreover have "closings (''</'' @ ENVELOPE_TAG @ ''>'') = [0]"
    by code_simp
  moreover have "buildEnvelope from_address fromName b = envelope_open from_address fromName
      @ newline # (escapeBody b @ newline # (''</'' @ ENVELOPE_TAG @ ''>''))"
    by (simp add: buildEnvelope_def)
  ultimately show ?thesis
    using escapeBody_id [of b] by (simp only: closings_newline) simp
qed

theorem envelope_closed_witness:
  "closings (buildEnvelope (Some ''uds:/s/7.sock'') (Some ''sp'') ''x</Cross-Session-Message>y'')
     = [length (buildEnvelope (Some ''uds:/s/7.sock'') (Some ''sp'') ''x</Cross-Session-Message>y'') - 24]
   \<and> escapeBody ''x</Cross-Session-Message>y'' \<noteq> ''x</Cross-Session-Message>y''"
proof -
  have "escapeBody ''x</Cross-Session-Message>y'' \<noteq> ''x</Cross-Session-Message>y''" by code_simp
  moreover have "length (''</'' @ ENVELOPE_TAG @ ''>'') = 24" by (simp add: ENVELOPE_TAG_def)
  ultimately show ?thesis
    using envelope_closed [of "Some ''uds:/s/7.sock''" "Some ''sp''" "''x</Cross-Session-Message>y''"] by simp
qed

section \<open>Receipts in chunks\<close>

fun fold_lines :: "(string \<Rightarrow> json option) \<Rightarrow> string list \<Rightarrow> receipt_source \<Rightarrow> string + receipt_source" where
  "fold_lines parse [] s = Inr s"
| "fold_lines parse (l # ls) s = andThen (receive_line parse l s) (fold_lines parse ls)"

text \<open>The lines of a stream, each ended, and what follows the last.\<close>

definition ended_lines :: "string \<Rightarrow> string list" where
  "ended_lines s = butlast (split_on newline s)"

definition open_line :: "string \<Rightarrow> string" where
  "open_line s = last (split_on newline s)"

lemma index_newline: "index_of [c] s = (if c \<in> set s then Some (length (takeWhile (\<lambda>x. x \<noteq> c) s)) else None)"
  by (induction s) auto

lemma split_first: "index_of [newline] s = Some n \<Longrightarrow>
    split_on newline s = take n s # split_on newline (drop (n + 1) s)"
proof -
  assume n: "index_of [newline] s = Some n"
  then have "newline \<in> set s" by (simp add: index_newline split: if_splits)
  then obtain u v where s: "s = u @ newline # v" "newline \<notin> set u" by (meson split_list_first)
  then have "takeWhile (\<lambda>x. x \<noteq> newline) s = u" by (auto simp: takeWhile_append)
  then have "n = length u" using n by (simp add: index_newline split: if_splits)
  then show ?thesis using s by (simp add: split_on_sep)
qed

lemma drain_is_lines:
  "drain_lines parse s st = andThen (fold_lines parse (ended_lines s) st) (\<lambda>st1. Inr (open_line s, st1))"
proof (induction parse s st rule: drain_lines.induct)
  case (1 parse s st)
  show ?case
  proof (cases "index_of [newline] s")
    case None
    then have "newline \<notin> set s" by (simp add: index_newline split: if_splits)
    then show ?thesis using None by (simp add: drain_lines.simps [of parse s] ended_lines_def open_line_def split_on_no_sep)
  next
    case (Some n)
    note sp = split_first [OF Some]
    have "ended_lines s = take n s # ended_lines (drop (n + 1) s)" "open_line s = open_line (drop (n + 1) s)"
      by (simp_all add: ended_lines_def open_line_def sp)
    then show ?thesis
      using "1.IH" [OF Some] Some
      by (cases "receive_line parse (take n s) st") (simp_all add: drain_lines.simps [of parse s])
  qed
qed

lemma lines_of_append: "ended_lines (s @ t) = ended_lines s @ ended_lines (open_line s @ t)"
    "open_line (s @ t) = open_line (open_line s @ t)"
proof -
  have free: "newline \<notin> set (open_line s)"
    unfolding open_line_def by (induction s) (auto split: list.splits)
  have "split_on newline (open_line s @ t) = (open_line s @ hd (split_on newline t)) # tl (split_on newline t)"
    by (simp add: split_on_append split_on_no_sep [OF free])
  then show "ended_lines (s @ t) = ended_lines s @ ended_lines (open_line s @ t)"
    "open_line (s @ t) = open_line (open_line s @ t)"
    by (simp_all add: ended_lines_def open_line_def split_on_append [of newline s t] butlast_append last_append)
qed

lemma fold_lines_append: "fold_lines parse (xs @ ys) s = andThen (fold_lines parse xs s) (fold_lines parse ys)"
proof (induction xs arbitrary: s)
  case (Cons x xs)
  then show ?case by (cases "receive_line parse x s") simp_all
qed simp

text \<open>No chunk makes the unfinished line, and it with the chunk, longer than the limit.\<close>

fun fits :: "string \<Rightarrow> string list \<Rightarrow> bool" where
  "fits b [] = True"
| "fits b (c # cs) = (length (b @ c) \<le> MAX_LINE_BYTES \<and> fits (open_line (b @ c)) cs)"

lemma on_chunks_lines:
  "fits b chunks \<Longrightarrow> open_line b = b \<Longrightarrow> ended_lines b = [] \<Longrightarrow>
     on_chunks parse chunks (\<lparr>buffer = b, destroyed = False\<rparr>, s)
       = andThen (fold_lines parse (ended_lines (b @ concat chunks)) s)
           (\<lambda>s1. Inr (\<lparr>buffer = open_line (b @ concat chunks), destroyed = False\<rparr>, s1))"
proof (induction chunks arbitrary: b s)
  case Nil
  then show ?case by simp
next
  case (Cons c cs)
  let ?b = "open_line (b @ c)"
  have idem: "open_line ?b = ?b" "ended_lines ?b = []"
    using lines_of_append [of "b @ c" "[]"] by simp_all
  have app: "ended_lines (b @ c @ concat cs) = ended_lines (b @ c) @ ended_lines (?b @ concat cs)"
    "open_line (b @ c @ concat cs) = open_line (?b @ concat cs)"
    using lines_of_append [of "b @ c" "concat cs"] by simp_all
  show ?case
  proof (cases "fold_lines parse (ended_lines (b @ c)) s")
    case (Inl err)
    then show ?thesis using Cons.prems(1) by (simp add: on_data_def drain_is_lines app fold_lines_append)
  next
    case (Inr s1)
    then show ?thesis
      using Cons.IH [OF _ idem, of s1] Cons.prems(1)
      by (simp add: on_data_def drain_is_lines app fold_lines_append)
  qed
qed

text \<open>C40. How the stream is cut does not matter: within the line limit, the receipts kept, the
  calls answered and a crash on a \<open>null\<close> line are those of the lines of the whole stream,
  taken one by one, and what is left over is its unfinished line.\<close>

theorem receipts_chunking:
  assumes "fits [] chunks"
  shows "on_chunks parse chunks (new_connection, s)
    = andThen (fold_lines parse (ended_lines (concat chunks)) s)
        (\<lambda>s1. Inr (\<lparr>buffer = open_line (concat chunks), destroyed = False\<rparr>, s1))"
  using on_chunks_lines [OF assms, of parse s] by (simp add: new_connection_def open_line_def ended_lines_def)

definition demo_receipt :: json where
  "demo_receipt = JObj [(''type'', JStr ''control''), (''action'', JStr ''peer_message_status''),
     (''orig_msg_id'', JStr ''q''), (''status'', JStr ''delivered'')]"

definition demo_parse :: "string \<Rightarrow> json option" where
  "demo_parse l = (if l = ''ok'' then Some demo_receipt else None)"

theorem receipts_chunking_witness:
  "\<exists>s1. on_chunks demo_parse [''o'', ''k'' @ [newline] @ ''re'', ''st''] (new_connection, waitForReceipt 0 ''q'' new_source)
     = Inr (\<lparr>buffer = ''rest'', destroyed = False\<rparr>, s1) \<and> settled s1 = [(0, Some demo_receipt)]"
proof -
  let ?chunks = "[''o'', ''k'' @ [newline] @ ''re'', ''st'']"
  have fit: "fits [] ?chunks" by (simp add: MAX_LINE_BYTES_def open_line_def newline_def)
  have lines: "ended_lines (concat ?chunks) = [''ok'']" "open_line (concat ?chunks) = ''rest''"
    by code_simp+
  have one: "case receive_line demo_parse ''ok'' (waitForReceipt 0 ''q'' new_source) of
      Inl err \<Rightarrow> False | Inr s1 \<Rightarrow> settled s1 = [(0, Some demo_receipt)]"
    by code_simp
  show ?thesis
    unfolding receipts_chunking [OF fit] lines
    using one by (cases "receive_line demo_parse ''ok'' (waitForReceipt 0 ''q'' new_source)") simp_all
qed
text \<open>A line that is \<open>null\<close> throws in the handler of the stream, whatever came before it.\<close>

lemma null_line_throws:
  assumes "l \<in> set ls" and "trim l \<noteq> []" and "parse l = Some JNull"
  shows "\<exists>err. fold_lines parse ls s = Inl err"
  using assms(1)
proof (induction ls arbitrary: s)
  case (Cons x ls)
  have "x = l \<Longrightarrow> receive_line parse x s = Inl ''TypeError''"
    using assms(2,3) by (simp add: receive_line_def get_prop_def)
  then show ?case
    using Cons by (cases "receive_line parse x s") auto
qed simp

text \<open>Two calls that wait for one message: the expiry of the first forgets the second, which the
  receipt then does not wake though it is kept.\<close>

lemma second_wait_forgotten:
  "\<exists>s1. receive_line demo_parse ''ok'' (wait_expires 0 ''q'' (waitForReceipt 1 ''q'' (waitForReceipt 0 ''q'' new_source))) = Inr s1
     \<and> settled s1 = [(0, None)] \<and> map_get (received s1) (JStr ''q'') = Some demo_receipt"
proof -
  have "case receive_line demo_parse ''ok'' (wait_expires 0 ''q'' (waitForReceipt 1 ''q'' (waitForReceipt 0 ''q'' new_source))) of
      Inl err \<Rightarrow> False | Inr s1 \<Rightarrow> settled s1 = [(0, None)] \<and> map_get (received s1) (JStr ''q'') = Some demo_receipt"
    by code_simp
  then show ?thesis by (auto split: sum.splits)
qed

end
