(* ===== verification/Peer_Delivery.thy ===== *)
theory Peer_Delivery imports Peer_Wire Pending_Store begin

text \<open>
  \<open>src/activation/transport/peer-adapter.ts\<close>, \<open>polling.ts\<close> and \<open>src/activation/peer-bridge.ts\<close>:
  pushing a message to its coordinator, waiting for the answer, the projections a coordinator
  polls, and the hook that joins them to the participant protocol.

  \<open>push\<close> is cut at its two awaits: while the frame is sent and while the receipt is awaited,
  other calls change the store, as any run of its operations. What the socket and the receipt
  source gave is a parameter of the run. The polls of \<open>awaitReply\<close> are numbered; what each
  read, the clock it saw and whether the signal was aborted are functions of the number. The
  events emitted on the way are left out.
\<close>

section \<open>Data\<close>

datatype push_outcome = P_delivered | P_no_route | P_send_failed | P_no_receipt | P_refused

record push_request =
  pq_messageId :: string
  pq_activation :: string
  pq_kind :: interaction_kind
  pq_message :: message
  pq_body :: string
  pq_session :: string

record push_result =
  pr_outcome :: push_outcome
  pr_record :: "pending_interaction option"
  pr_route :: "live_route option"
  pr_reason :: "string option"

datatype push_error = Store_error pending_error | Route_error string

record peer_self =
  selfAddress :: "string option"
  selfName :: "string option"

text \<open>What the code reads of a receipt.\<close>

record receipt_frame =
  rf_msg_id :: "string option"
  rf_status :: "string option"
  rf_reason :: "string option"

datatype push_step =
    Ended "push_error + push_result"
  | Sending_frame live_route json
  | Awaiting_receipt live_route

definition pq_key :: "push_request \<Rightarrow> interaction_key" where
  "pq_key q = (pq_activation q, pq_messageId q)"

definition isDeliveredStatus :: "string option \<Rightarrow> bool" where
  "isDeliveredStatus st \<longleftrightarrow> st \<in> set [Some ''delivered'', Some ''approved'', Some ''released'']"

section \<open>Pushing\<close>

text \<open>The result of a push, or the error of the store operation that ends it.\<close>

fun ended :: "push_outcome \<Rightarrow> live_route option \<Rightarrow> string option
    \<Rightarrow> (pending_error + pending_interaction) \<times> interaction_store \<Rightarrow> push_step \<times> interaction_store" where
  "ended oc route reason (Inl err, s) = (Ended (Inl (Store_error err)), s)"
| "ended oc route reason (Inr r, s) =
     (Ended (Inr \<lparr>pr_outcome = oc, pr_record = Some r, pr_route = route, pr_reason = reason\<rparr>), s)"

definition push_frame :: "peer_self \<Rightarrow> push_request \<Rightarrow> json" where
  "push_frame self q =
     buildUserFrame (pq_messageId q) (buildEnvelope (selfAddress self) (selfName self) (pq_body q)) (selfAddress self) None None"

definition push_begin ::
  "peer_env \<Rightarrow> directory option \<Rightarrow> peer_self \<Rightarrow> push_request \<Rightarrow> int \<Rightarrow> interaction_store \<Rightarrow> push_step \<times> interaction_store" where
  "push_begin e dir self q now s =
     (let (r, s1) = (case read_record s (pq_key q) of
             Some r \<Rightarrow> (Inr r, s)
           | None \<Rightarrow> create_record (pq_key q) (pq_kind q) (pq_message q) now s)
      in case r of
           Inl err \<Rightarrow> (Ended (Inl (Store_error err)), s1)
         | Inr _ \<Rightarrow>
             (case selectRoute e dir (pq_session q) of
                Inl err \<Rightarrow> (Ended (Inl (Route_error err)), s1)
              | Inr None \<Rightarrow> ended P_no_route None None
                  (recordAttempt (pq_key q) \<lparr>att_at = now, att_route = ''session:'' @ pq_session q, att_outcome = A_undeliverable,
                      att_detail = Some ''no live registration matched this coordinator session''\<rparr> s1)
              | Inr (Some route) \<Rightarrow> (Sending_frame route (push_frame self q), s1)))"

definition push_sent :: "push_request \<Rightarrow> live_route \<Rightarrow> string + unit \<Rightarrow> int \<Rightarrow> interaction_store \<Rightarrow> push_step \<times> interaction_store" where
  "push_sent q route sent now s =
     (case sent of
        Inl err \<Rightarrow> ended P_send_failed (Some route) None
          (recordAttempt (pq_key q) \<lparr>att_at = now, att_route = rt_ref route, att_outcome = A_undeliverable, att_detail = Some err\<rparr> s)
      | Inr _ \<Rightarrow>
          (case recordAttempt (pq_key q) \<lparr>att_at = now, att_route = rt_ref route, att_outcome = A_sent_unconfirmed, att_detail = None\<rparr> s of
             (Inl err, s1) \<Rightarrow> (Ended (Inl (Store_error err)), s1)
           | (Inr _, s1) \<Rightarrow> (Awaiting_receipt route, s1)))"

definition push_received ::
  "push_request \<Rightarrow> live_route \<Rightarrow> receipt_frame option \<Rightarrow> int \<Rightarrow> interaction_store \<Rightarrow> push_step \<times> interaction_store" where
  "push_received q route receipt now s =
     (case receipt of
        None \<Rightarrow> (Ended (Inr \<lparr>pr_outcome = P_no_receipt, pr_record = read_record s (pq_key q), pr_route = Some route, pr_reason = None\<rparr>), s)
      | Some f \<Rightarrow>
          if \<not> isDeliveredStatus (rf_status f) then
            ended P_refused (Some route) (nullish (rf_reason f) (rf_status f))
              (recordAttempt (pq_key q) \<lparr>att_at = now, att_route = rt_ref route, att_outcome = A_refused,
                  att_detail = nullish (rf_reason f) (rf_status f)\<rparr> s)
          else ended P_delivered (Some route) None (recordReceipt (pq_key q) (pq_messageId q) (rf_msg_id f) now s))"

text \<open>What happens around one push.\<close>

record push_world =
  frame_bytes :: "json \<Rightarrow> nat"
  wire_io :: "string + unit"
  while_sending :: "(interaction_key \<times> record_event) list"
  wire_receipt :: "receipt_frame option"
  while_waiting :: "(interaction_key \<times> record_event) list"
  times :: "int \<times> int \<times> int"

fun finished :: "push_step \<Rightarrow> push_error + push_result" where
  "finished (Ended r) = r"
| "finished _ = Inl (Route_error ''unfinished'')"

definition push ::
  "peer_env \<Rightarrow> directory option \<Rightarrow> peer_self \<Rightarrow> push_world \<Rightarrow> push_request \<Rightarrow> interaction_store
   \<Rightarrow> (push_error + push_result) \<times> interaction_store" where
  "push e dir self w q s =
     (case push_begin e dir self q (fst (times w)) s of
        (Sending_frame route frame, s1) \<Rightarrow>
          (case push_sent q route (sendFrame (frame_bytes w) frame (wire_io w)) (fst (snd (times w))) (perform_all (while_sending w) s1) of
             (Awaiting_receipt route1, s2) \<Rightarrow>
               map_prod finished id (push_received q route1 (wire_receipt w) (snd (snd (times w))) (perform_all (while_waiting w) s2))
           | (step, s2) \<Rightarrow> (finished step, s2))
      | (step, s1) \<Rightarrow> (finished step, s1))"

section \<open>Polling\<close>

record projection =
  pp_activation :: string
  pp_message :: string
  pp_kind :: interaction_kind
  pp_delivery :: delivery_state
  pp_wire :: wire_state
  pp_createdAt :: int
  pp_attempts :: nat
  pp_answered :: bool
  pp_awaiting :: bool
  pp_body :: string

definition project :: "pending_interaction \<times> interaction_reply option \<Rightarrow> projection" where
  "project v = (case v of (r, rep) \<Rightarrow>
     \<lparr>pp_activation = pi_activation r, pp_message = pi_messageId r, pp_kind = pi_kind r,
      pp_delivery = projectDeliveryState (pi_state r), pp_wire = pi_state r, pp_createdAt = pi_createdAt r,
      pp_attempts = length (pi_attempts r), pp_answered = (rep \<noteq> None),
      pp_awaiting = (createsPendingAsk (pi_kind r) \<and> rep = None), pp_body = body (pi_message r)\<rparr>)"

definition projectInteractionsForStatus :: "interaction_store \<Rightarrow> projection list" where
  "projectInteractionsForStatus s = map project (listAll s)"

definition projectOutstandingAsks :: "interaction_store \<Rightarrow> projection list" where
  "projectOutstandingAsks s = filter pp_awaiting (projectInteractionsForStatus s)"

definition projectActivationInteractions :: "interaction_store \<Rightarrow> string \<Rightarrow> projection list" where
  "projectActivationInteractions s act = map project (listForActivation s act)"

record poll_world =
  poll_reads :: "nat \<Rightarrow> interaction_reply option"
  poll_clock :: "nat \<Rightarrow> int"
  poll_aborted :: "nat \<Rightarrow> bool"

text \<open>The loop from poll \<open>n\<close> on. The outer \<^term>\<open>None\<close> is a loop that never ends.\<close>

partial_function (option) awaitReply :: "poll_world \<Rightarrow> int \<Rightarrow> nat \<Rightarrow> interaction_reply option option" where
  "awaitReply w deadline n =
     (case poll_reads w n of
        Some rep \<Rightarrow> Some (Some rep)
      | None \<Rightarrow>
          if poll_aborted w n then Some None
          else if deadline - poll_clock w n \<le> 0 then Some None
          else awaitReply w deadline (n + 1))"

text \<open>\<open>setTimeout\<close> takes a delay out of its range for 1. A sleep lasts its delay unless the signal
  is aborted.\<close>

definition timer_delay :: "int \<Rightarrow> int" where
  "timer_delay ms = (if ms < 1 \<or> 2147483647 < ms then 1 else ms)"

definition sleeps_right :: "poll_world \<Rightarrow> int \<Rightarrow> int \<Rightarrow> bool" where
  "sleeps_right w intervalMs deadline \<longleftrightarrow>
     (\<forall>n. poll_aborted w (n + 1)
        \<or> poll_clock w n + timer_delay (min intervalMs (deadline - poll_clock w n)) \<le> poll_clock w (n + 1))"

section \<open>Asking\<close>

definition replyCorrelation :: "message \<Rightarrow> string option" where
  "replyCorrelation m = inReplyTo m"

definition outcomeAfterReply :: "push_outcome \<Rightarrow> pending_interaction \<Rightarrow> push_outcome" where
  "outcomeAfterReply current r = (if pi_state r = W_delivered \<and> current \<noteq> P_refused then P_delivered else current)"

text \<open>\<open>ask\<close> after its push, given the reply the wait ended with.\<close>

definition ask_end ::
  "push_request \<Rightarrow> push_result \<Rightarrow> interaction_reply option \<Rightarrow> interaction_store
   \<Rightarrow> (push_error + push_result \<times> message option) \<times> interaction_store" where
  "ask_end q p rep s =
     (case rep of
        None \<Rightarrow> (Inr (p, None), s)
      | Some r \<Rightarrow>
          (case recordReplyDelivery (pq_key q) (nullish (replyCorrelation (ir_body r)) (Some (pq_messageId q))) (ir_repliedAt r) s of
             (Inl err, s1) \<Rightarrow> (Inl (Store_error err), s1)
           | (Inr rec, s1) \<Rightarrow>
               (Inr (p\<lparr>pr_record := Some rec, pr_outcome := outcomeAfterReply (pr_outcome p) rec\<rparr>, Some (ir_body r)), s1)))"

section \<open>The hook of the participant protocol\<close>

text \<open>Who is watched, and until when.\<close>

type_synonym watch_list = "(string, int) js_map"

definition watchForReply :: "int \<Rightarrow> int \<Rightarrow> message \<Rightarrow> watch_list \<Rightarrow> watch_list" where
  "watchForReply replyTimeoutMs now m b =
     (if map_has b (messageId m) then b else map_set b (messageId m) (now + replyTimeoutMs))"

definition delivery_request :: "string \<Rightarrow> message \<Rightarrow> push_request" where
  "delivery_request session m =
     \<lparr>pq_messageId = messageId m, pq_activation = msg_activation m, pq_kind = kind m, pq_message = m,
      pq_body = body m, pq_session = session\<rparr>"

text \<open>The hook after its push: \<^term>\<open>None\<close> when the push threw.\<close>

definition deliver_end :: "int \<Rightarrow> int \<Rightarrow> message \<Rightarrow> push_error + push_result \<Rightarrow> watch_list \<Rightarrow> bool option \<times> watch_list" where
  "deliver_end replyTimeoutMs now m res b =
     (case res of
        Inl err \<Rightarrow> (None, b)
      | Inr p \<Rightarrow> (Some (pr_outcome p = P_delivered),
          if kind m = Question \<or> kind m = Escalation then watchForReply replyTimeoutMs now m b else b))"

definition routed_reply :: "message \<Rightarrow> message \<Rightarrow> send_input" where
  "routed_reply m stored =
     \<lparr>in_kind = Reply, in_from = to_p m, in_to = from_p m, in_activation = msg_activation m, in_attempt = msg_attempt m,
      in_session = None, in_body = body stored, in_replyTo = Some (messageId m)\<rparr>"

text \<open>One tick of the watch of \<open>m\<close>: past its deadline it ends, with a stored reply it ends and
  replies (an uncorrelated reply is swallowed), else it goes on.\<close>

definition watch_tick :: "message \<Rightarrow> string \<Rightarrow> int \<Rightarrow> interaction_store \<Rightarrow> watch_list \<times> transport \<Rightarrow> watch_list \<times> transport" where
  "watch_tick m rid now s bt =
     (case bt of (b, tp) \<Rightarrow>
        (case map_get b (messageId m) of
           None \<Rightarrow> (b, tp)
         | Some until \<Rightarrow>
             if now > until then (map_delete b (messageId m), tp)
             else
               (case read_reply s (msg_activation m, messageId m) of
                  None \<Rightarrow> (b, tp)
                | Some rep \<Rightarrow> (map_delete b (messageId m), snd (reply (routed_reply m (ir_body rep)) rid now tp)))))"
section \<open>A record grows\<close>

definition extends :: "pending_interaction \<Rightarrow> pending_interaction \<Rightarrow> bool" where
  "extends r r' \<longleftrightarrow> pi_messageId r' = pi_messageId r \<and> pi_activation r' = pi_activation r \<and> pi_kind r' = pi_kind r
     \<and> pi_createdAt r' = pi_createdAt r \<and> pi_message r' = pi_message r
     \<and> (\<exists>as. pi_attempts r' = pi_attempts r @ as) \<and> (pi_state r = W_delivered \<longrightarrow> pi_state r' = W_delivered)"

lemma extends_refl [simp]: "extends r r"
  by (simp add: extends_def)

lemma extends_trans: "extends r r1 \<Longrightarrow> extends r1 r2 \<Longrightarrow> extends r r2"
  by (auto simp: extends_def)

lemma extends_attempts: "extends r r' \<Longrightarrow> pi_attempts r \<noteq> [] \<Longrightarrow> pi_attempts r' \<noteq> []"
  by (auto simp: extends_def)

lemma step_extends: "\<exists>r'. record_step key e (Some (Parsed r)) = Some (Parsed r') \<and> extends r r'"
  by (cases e) (auto simp: extends_def)

lemma run_extends:
  assumes "read_record s key = Some r"
  shows "\<exists>r'. read_record (perform_all evs s) key = Some r' \<and> extends r r'"
proof -
  have f: "map_get (records s) key = Some (Parsed r)" using assms by (simp add: read_record_def parsed_Some)
  have "\<exists>r'. map_get (records (fold (\<lambda>(k, e). perform k e) evs s)) key = Some (Parsed r') \<and> extends r r'"
  proof (rule interactions.run_invariant [where P = "\<lambda>f. \<exists>r'. f = Some (Parsed r') \<and> extends r r'"])
    fix e v assume "\<exists>r'. v = Some (Parsed r') \<and> extends r r'"
    then show "\<exists>r'. record_step key e v = Some (Parsed r') \<and> extends r r'"
      using step_extends extends_trans by metis
  qed (use f in simp)
  then show ?thesis by (auto simp: read_record_def perform_all_def)
qed

lemma attempt_effect:
  assumes "read_record s key = Some r"
  shows "\<exists>r'. recordAttempt key a s = (Inr r', perform_all [(key, Attempt a)] s)
    \<and> read_record (perform_all [(key, Attempt a)] s) key = Some r' \<and> extends r r' \<and> pi_attempts r' = pi_attempts r @ [a]"
  using assms by (simp add: perform_all_def record_op_defs extends_def map_get_set Let_def)

lemma receipt_effect:
  assumes "read_record s key = Some r"
  shows "\<exists>r'. recordReceipt key (snd key) rid t s = (Inr r', perform_all [(key, Receipt (snd key) rid t)] s)
    \<and> read_record (perform_all [(key, Receipt (snd key) rid t)] s) key = Some r' \<and> extends r r' \<and> pi_state r' = W_delivered"
  using assms by (simp add: perform_all_def record_op_defs extends_def map_get_set Let_def)

text \<open>What the record of a push is, given what was there before.\<close>

definition push_base :: "push_request \<Rightarrow> interaction_store \<Rightarrow> pending_interaction \<Rightarrow> bool" where
  "push_base q s r \<longleftrightarrow> (case read_record s (pq_key q) of
     Some r0 \<Rightarrow> extends r0 r
   | None \<Rightarrow> pi_message r = pq_message q \<and> pi_kind r = pq_kind q)"

lemma push_base_extends: "push_base q s r \<Longrightarrow> extends r r' \<Longrightarrow> push_base q s r'"
  by (auto simp: push_base_def extends_def split: option.splits)

definition stored_run :: "push_request \<Rightarrow> interaction_store \<Rightarrow> interaction_store \<Rightarrow> pending_interaction \<Rightarrow> bool" where
  "stored_run q s s' r \<longleftrightarrow> (\<exists>evs. s' = perform_all evs s) \<and> read_record s' (pq_key q) = Some r \<and> push_base q s r"

lemma perform_all_append: "perform_all ys (perform_all xs s) = perform_all (xs @ ys) s"
  by (simp add: perform_all_def)

lemma stored_run_step:
  assumes "stored_run q s s1 r" and "s2 = perform_all evs s1" "read_record s2 (pq_key q) = Some r'" "extends r r'"
  shows "stored_run q s s2 r'"
  using assms push_base_extends [of q s r r'] by (auto simp: stored_run_def perform_all_append)

lemma stored_run_others:
  assumes "stored_run q s s1 r"
  shows "\<exists>r'. stored_run q s (perform_all evs s1) r' \<and> extends r r'"
proof -
  obtain r' where "read_record (perform_all evs s1) (pq_key q) = Some r'" "extends r r'"
    using assms run_extends [of s1 "pq_key q" r evs] by (auto simp: stored_run_def)
  then show ?thesis using stored_run_step [OF assms refl] by blast
qed

lemma push_begin_effect:
  assumes "map_get (records s) (pq_key q) \<noteq> Some Corrupt_file"
    and start: "push_begin e dir self q now s = (step, s1)"
  shows "\<exists>r. stored_run q s s1 r \<and> (case step of
      Ended (Inl err) \<Rightarrow> \<exists>why. err = Route_error why \<and> selectRoute e dir (pq_session q) = Inl why
    | Ended (Inr p) \<Rightarrow> selectRoute e dir (pq_session q) = Inr None \<and> pr_outcome p = P_no_route \<and> pr_record p = Some r \<and> pi_attempts r \<noteq> []
    | Sending_frame route frame \<Rightarrow> selectRoute e dir (pq_session q) = Inr (Some route) \<and> frame = push_frame self q
    | Awaiting_receipt route \<Rightarrow> False)"
proof -
  obtain r0 s0 where created: "(case read_record s (pq_key q) of Some r \<Rightarrow> (Inr r, s)
      | None \<Rightarrow> create_record (pq_key q) (pq_kind q) (pq_message q) now s) = (Inr r0, s0)" and stored: "stored_run q s s0 r0"
  proof (cases "read_record s (pq_key q)")
    case (Some r)
    moreover have "s = perform_all [] s" by (simp add: perform_all_def)
    ultimately show ?thesis using that [of r s] by (auto simp: stored_run_def push_base_def)
  next
    case None
    then have free: "map_get (records s) (pq_key q) = None"
      using assms(1) parsed_None_cases by (auto simp: read_record_def)
    obtain r s0 where c: "create_record (pq_key q) (pq_kind q) (pq_message q) now s = (Inr r, s0)"
        "pi_message r = pq_message q" "pi_kind r = pq_kind q" "read_record s0 (pq_key q) = Some r"
      using free by (simp add: create_record_def map_has_def write_record_def read_record_def map_get_set Let_def)
    have "s0 = perform_all [(pq_key q, Create (pq_kind q) (pq_message q) now)] s" using c(1) by (simp add: perform_all_def)
    then have "stored_run q s s0 r" using c None by (auto simp: stored_run_def push_base_def)
    then show ?thesis using that [of r s0] c(1) None by simp
  qed
  then have read: "read_record s0 (pq_key q) = Some r0" by (simp add: stored_run_def)
  show ?thesis
  proof (cases "selectRoute e dir (pq_session q)")
    case (Inl why)
    then show ?thesis using start created stored by (auto simp: push_begin_def)
  next
    case (Inr res)
    show ?thesis
    proof (cases res)
      case None
      let ?a = "\<lparr>att_at = now, att_route = ''session:'' @ pq_session q, att_outcome = A_undeliverable,
          att_detail = Some ''no live registration matched this coordinator session''\<rparr>"
      obtain r' where r': "recordAttempt (pq_key q) ?a s0 = (Inr r', perform_all [(pq_key q, Attempt ?a)] s0)"
          "read_record (perform_all [(pq_key q, Attempt ?a)] s0) (pq_key q) = Some r'" "extends r0 r'" "pi_attempts r' = pi_attempts r0 @ [?a]"
        using attempt_effect [OF read] by blast
      then show ?thesis
        using start created Inr None stored_run_step [OF stored refl r'(2,3)] by (auto simp: push_begin_def)
    next
      case (Some route)
      then show ?thesis using start created stored Inr by (auto simp: push_begin_def)
    qed
  qed
qed

lemma push_sent_effect:
  assumes stored: "stored_run q s0 s r" and sent: "push_sent q route io now s = (step, s1)"
  shows "\<exists>r'. stored_run q s0 s1 r' \<and> pi_attempts r' \<noteq> [] \<and> (case step of
      Ended (Inl err) \<Rightarrow> False
    | Ended (Inr p) \<Rightarrow> (\<exists>err. io = Inl err) \<and> pr_outcome p = P_send_failed \<and> pr_record p = Some r'
    | Sending_frame route1 frame \<Rightarrow> False
    | Awaiting_receipt route1 \<Rightarrow> io = Inr () \<and> route1 = route)"
proof -
  have read: "read_record s (pq_key q) = Some r" using stored by (simp add: stored_run_def)
  define a where "a = (case io of
       Inl err \<Rightarrow> \<lparr>att_at = now, att_route = rt_ref route, att_outcome = A_undeliverable, att_detail = Some err\<rparr>
     | Inr u \<Rightarrow> \<lparr>att_at = now, att_route = rt_ref route, att_outcome = A_sent_unconfirmed, att_detail = None\<rparr>)"
  obtain r' where r': "recordAttempt (pq_key q) a s = (Inr r', perform_all [(pq_key q, Attempt a)] s)"
      "read_record (perform_all [(pq_key q, Attempt a)] s) (pq_key q) = Some r'" "extends r r'" "pi_attempts r' = pi_attempts r @ [a]"
    using attempt_effect [OF read] by blast
  note stored' = stored_run_step [OF stored refl r'(2,3)]
  show ?thesis
    using sent stored' r'(1,4) by (cases io) (auto simp: push_sent_def a_def [symmetric] a_def)
qed
lemma push_received_effect:
  assumes stored: "stored_run q s0 s r" and attempts: "pi_attempts r \<noteq> []"
    and received: "push_received q route receipt now s = (step, s1)"
  shows "\<exists>r' p. step = Ended (Inr p) \<and> stored_run q s0 s1 r' \<and> pi_attempts r' \<noteq> [] \<and> pr_record p = Some r'
    \<and> (pr_outcome p = P_delivered \<longleftrightarrow> (\<exists>f. receipt = Some f \<and> isDeliveredStatus (rf_status f)))
    \<and> (pr_outcome p = P_delivered \<longrightarrow> pi_state r' = W_delivered)"
proof -
  have read: "read_record s (pq_key q) = Some r" using stored by (simp add: stored_run_def)
  show ?thesis
  proof (cases receipt)
    case None
    then show ?thesis using received stored attempts read by (auto simp: push_received_def)
  next
    case (Some f)
    show ?thesis
    proof (cases "isDeliveredStatus (rf_status f)")
      case True
      obtain r' where r': "recordReceipt (pq_key q) (snd (pq_key q)) (rf_msg_id f) now s
            = (Inr r', perform_all [(pq_key q, Receipt (snd (pq_key q)) (rf_msg_id f) now)] s)"
          "read_record (perform_all [(pq_key q, Receipt (snd (pq_key q)) (rf_msg_id f) now)] s) (pq_key q) = Some r'"
          "extends r r'" "pi_state r' = W_delivered"
        using receipt_effect [OF read] by blast
      moreover have "snd (pq_key q) = pq_messageId q" by (simp add: pq_key_def)
      ultimately show ?thesis
        using received Some True stored_run_step [OF stored refl r'(2,3)] extends_attempts [OF r'(3) attempts]
        by (auto simp: push_received_def)
    next
      case False
      let ?a = "\<lparr>att_at = now, att_route = rt_ref route, att_outcome = A_refused, att_detail = nullish (rf_reason f) (rf_status f)\<rparr>"
      obtain r' where r': "recordAttempt (pq_key q) ?a s = (Inr r', perform_all [(pq_key q, Attempt ?a)] s)"
          "read_record (perform_all [(pq_key q, Attempt ?a)] s) (pq_key q) = Some r'" "extends r r'" "pi_attempts r' = pi_attempts r @ [?a]"
        using attempt_effect [OF read] by blast
      then show ?thesis
        using received Some False stored_run_step [OF stored refl r'(2,3)] by (auto simp: push_received_def)
    qed
  qed
qed

text \<open>A push, whatever the wire did and whatever else happened to the store.\<close>

lemma push_effect:
  assumes "map_get (records s) (pq_key q) \<noteq> Some Corrupt_file" and pushed: "push e dir self w q s = (res, s')"
  shows "\<exists>r. stored_run q s s' r \<and> (case res of
      Inl err \<Rightarrow> \<exists>why. err = Route_error why \<and> selectRoute e dir (pq_session q) = Inl why
    | Inr p \<Rightarrow> (\<exists>found. selectRoute e dir (pq_session q) = Inr found) \<and> pr_record p = Some r \<and> pi_attempts r \<noteq> []
        \<and> (pr_outcome p = P_delivered \<longleftrightarrow>
             (\<exists>route f. selectRoute e dir (pq_session q) = Inr (Some route)
                \<and> sendFrame (frame_bytes w) (push_frame self q) (wire_io w) = Inr ()
                \<and> wire_receipt w = Some f \<and> isDeliveredStatus (rf_status f)))
        \<and> (pr_outcome p = P_delivered \<longrightarrow> pi_state r = W_delivered))"
proof -
  obtain step s1 where start: "push_begin e dir self q (fst (times w)) s = (step, s1)"
    by (cases "push_begin e dir self q (fst (times w)) s")
  obtain r1 where r1: "stored_run q s s1 r1" and first: "case step of
      Ended (Inl err) \<Rightarrow> \<exists>why. err = Route_error why \<and> selectRoute e dir (pq_session q) = Inl why
    | Ended (Inr p) \<Rightarrow> selectRoute e dir (pq_session q) = Inr None \<and> pr_outcome p = P_no_route \<and> pr_record p = Some r1 \<and> pi_attempts r1 \<noteq> []
    | Sending_frame route frame \<Rightarrow> selectRoute e dir (pq_session q) = Inr (Some route) \<and> frame = push_frame self q
    | Awaiting_receipt route \<Rightarrow> False"
    using push_begin_effect [OF assms(1) start] by blast
  show ?thesis
  proof (cases step)
    case (Ended out)
    then show ?thesis
      using pushed start first r1 by (cases out) (auto simp: push_def)
  next
    case (Awaiting_receipt route)
    then show ?thesis using first by simp
  next
    case (Sending_frame route frame)
    let ?io = "sendFrame (frame_bytes w) (push_frame self q) (wire_io w)"
    obtain r1' where r1': "stored_run q s (perform_all (while_sending w) s1) r1'"
      using stored_run_others [OF r1] by blast
    obtain step2 s2 where sent: "push_sent q route ?io (fst (snd (times w))) (perform_all (while_sending w) s1) = (step2, s2)"
      by (cases "push_sent q route ?io (fst (snd (times w))) (perform_all (while_sending w) s1)")
    obtain r2 where r2: "stored_run q s s2 r2" "pi_attempts r2 \<noteq> []" and second: "case step2 of
        Ended (Inl err) \<Rightarrow> False
      | Ended (Inr p) \<Rightarrow> (\<exists>err. ?io = Inl err) \<and> pr_outcome p = P_send_failed \<and> pr_record p = Some r2
      | Sending_frame route1 frame \<Rightarrow> False
      | Awaiting_receipt route1 \<Rightarrow> ?io = Inr () \<and> route1 = route"
      using push_sent_effect [OF r1' sent] by blast
    have run: "push e dir self w q s = (case (step2, s2) of
        (Awaiting_receipt route1, s2) \<Rightarrow>
          map_prod finished id (push_received q route1 (wire_receipt w) (snd (snd (times w))) (perform_all (while_waiting w) s2))
      | (step, s2) \<Rightarrow> (finished step, s2))"
      using start first Sending_frame sent by (simp add: push_def)
    show ?thesis
    proof (cases step2)
      case (Ended out)
      then show ?thesis using pushed run second r2 first Sending_frame by (cases out) auto
    next
      case (Sending_frame route1 frame1)
      then show ?thesis using second by simp
    next
      case (Awaiting_receipt route1)
      obtain r2' where r2': "stored_run q s (perform_all (while_waiting w) s2) r2'" "pi_attempts r2' \<noteq> []"
        using stored_run_others [OF r2(1)] extends_attempts r2(2) by blast
      obtain step3 s3 where last: "push_received q route1 (wire_receipt w) (snd (snd (times w))) (perform_all (while_waiting w) s2) = (step3, s3)"
        by (cases "push_received q route1 (wire_receipt w) (snd (snd (times w))) (perform_all (while_waiting w) s2)")
      obtain r' p where "step3 = Ended (Inr p)" "stored_run q s s3 r'" "pi_attempts r' \<noteq> []" "pr_record p = Some r'"
          "pr_outcome p = P_delivered \<longleftrightarrow> (\<exists>f. wire_receipt w = Some f \<and> isDeliveredStatus (rf_status f))"
          "pr_outcome p = P_delivered \<longrightarrow> pi_state r' = W_delivered"
        using push_received_effect [OF r2' last] by blast
      then show ?thesis
        using pushed run last Awaiting_receipt second first \<open>step = Sending_frame route frame\<close> by auto
    qed
  qed
qed

text \<open>The ask of a stored record without a reply is on the list a coordinator polls.\<close>

lemma outstanding_listed:
  assumes s: "s = perform_all evs empty_interactions" and r: "read_record s key = Some r"
    and ask: "createsPendingAsk (pi_kind r)" "read_reply s key = None"
  shows "\<exists>pp \<in> set (projectOutstandingAsks s). pp_activation pp = fst key \<and> pp_message pp = snd key"
proof -
  have "set (listAll s) = {(r, read_reply s key) | key r. read_record s key = Some r}"
    unfolding s by (rule set_listAll) (simp_all add: map_ok_perform_all empty_interactions_def [THEN arg_cong [where f = records]] stored_id)
  then have "(r, read_reply s key) \<in> set (listAll s)" using r by blast
  then have "(r, None) \<in> set (listAll s)" by (simp only: ask(2))
  then have "project (r, None) \<in> set (projectOutstandingAsks s)"
    using ask(1) by (auto simp: projectOutstandingAsks_def projectInteractionsForStatus_def intro: imageI) (simp add: project_def)
  moreover have "fold (record_step key) (events_of key evs) None = Some (Parsed r)"
    using r by (simp add: s read_record_def parsed_Some perform_all_record empty_interactions_def)
  then have "pi_activation r = fst key \<and> pi_messageId r = snd key"
    using run_record_inv by (fastforce simp: record_inv_def)
  ultimately show ?thesis by (force simp: project_def)
qed

lemma never_corrupt: "map_get (records (perform_all evs empty_interactions)) key \<noteq> Some Corrupt_file"
  using run_record_inv [of key "events_of key evs"] by (auto simp: perform_all_record empty_interactions_def)

section \<open>Properties\<close>

definition demo_question :: message where
  "demo_question = composeInteractionMessage demo_ask ''q'' 1"

definition demo_self :: peer_self where
  "demo_self = \<lparr>selfAddress = None, selfName = None\<rparr>"

text \<open>The frame is accepted and a receipt comes, while another message of the activation is created.\<close>

definition demo_world :: push_world where
  "demo_world = \<lparr>frame_bytes = (\<lambda>j. 100), wire_io = Inr (),
     while_sending = [((''a'', ''p''), Create Finding demo_question 2)],
     wire_receipt = Some \<lparr>rf_msg_id = Some ''x'', rf_status = Some ''delivered'', rf_reason = None\<rparr>,
     while_waiting = [], times = (1, 3, 4)\<rparr>"

definition demo_roster :: directory where
  "demo_roster = [(''7.json'', Text (demo_row 7 ''idle''))]"

lemma demo_route: "\<exists>route. selectRoute demo_env (Some demo_roster) ''s'' = Inr (Some route)"
proof -
  have "selectRoute demo_env (Some demo_roster) ''s'' = Inr (Some (route_of (demo_row 7 ''idle'')))" by code_simp
  then show ?thesis by blast
qed


section \<open>The wait for an answer ends\<close>

lemma poll_unfold: "awaitReply w deadline n = Some res \<longleftrightarrow>
    (case poll_reads w n of
       Some rep \<Rightarrow> res = Some rep
     | None \<Rightarrow> if poll_aborted w n \<or> deadline \<le> poll_clock w n then res = None
         else awaitReply w deadline (n + 1) = Some res)"
  by (subst awaitReply.simps) (auto split: option.splits)

text \<open>Poll \<open>n\<close> ends the loop.\<close>

definition last_poll :: "poll_world \<Rightarrow> int \<Rightarrow> nat \<Rightarrow> bool" where
  "last_poll w deadline n \<longleftrightarrow> poll_reads w n \<noteq> None \<or> poll_aborted w n \<or> deadline \<le> poll_clock w n"

lemma await_from:
  "k \<le> n \<Longrightarrow> last_poll w deadline n \<Longrightarrow> (\<And>i. k \<le> i \<Longrightarrow> i < n \<Longrightarrow> \<not> last_poll w deadline i) \<Longrightarrow>
     awaitReply w deadline k = Some (poll_reads w n)"
proof (induction "n - k" arbitrary: k)
  case 0
  then have "k = n" by simp
  then show ?case using "0.prems"(2) by (auto simp: poll_unfold [of w deadline n] last_poll_def split: option.splits)
next
  case (Suc d)
  then have "\<not> last_poll w deadline k" "awaitReply w deadline (k + 1) = Some (poll_reads w n)" by simp_all
  then show ?case by (auto simp: poll_unfold [of w deadline k] last_poll_def split: option.splits)
qed

text \<open>How far the clock gets with each sleep that does not reach the deadline.\<close>

definition poll_step :: "int \<Rightarrow> int" where
  "poll_step intervalMs = (if 1 \<le> intervalMs \<and> intervalMs \<le> 2147483647 then intervalMs else 1)"

lemma polls_advance:
  assumes sleeps: "sleeps_right w intervalMs deadline" and going: "\<And>i. i \<le> n \<Longrightarrow> \<not> last_poll w deadline i"
  shows "poll_clock w 0 + int n * poll_step intervalMs \<le> poll_clock w n"
  using going
proof (induction n)
  case 0
  then show ?case by simp
next
  case (Suc n)
  have "poll_clock w n < deadline" "poll_clock w (n + 1) < deadline" "\<not> poll_aborted w (n + 1)"
    using Suc.prems [of n] Suc.prems [of "n + 1"] by (auto simp: last_poll_def)
  moreover have "poll_aborted w (n + 1)
      \<or> poll_clock w n + timer_delay (min intervalMs (deadline - poll_clock w n)) \<le> poll_clock w (n + 1)"
    using sleeps by (simp add: sleeps_right_def)
  ultimately have "poll_clock w n + poll_step intervalMs \<le> poll_clock w (n + 1)"
    by (auto simp: timer_delay_def poll_step_def min_def split: if_splits)
  then show ?case using Suc.IH Suc.prems by (simp add: algebra_simps)
qed

text \<open>The wait for an answer always ends: if sleeps last and the clock is not set back, then
  after at most the timeout divided by the interval and two polls it returns what the last
  poll read, having seen no reply and no abort before; and it returns without a reply only
  when aborted or when the time is up.\<close>

theorem await_reply_ends:
  assumes "sleeps_right w intervalMs (t0 + timeoutMs)" and "t0 \<le> poll_clock w 0"
  shows "\<exists>n. awaitReply w (t0 + timeoutMs) 0 = Some (poll_reads w n)
    \<and> (0 < n \<longrightarrow> int (n - 1) * poll_step intervalMs < timeoutMs)
    \<and> (\<forall>i < n. poll_reads w i = None \<and> \<not> poll_aborted w i)
    \<and> (poll_reads w n = None \<longrightarrow> poll_aborted w n \<or> t0 + timeoutMs \<le> poll_clock w n)"
proof -
  let ?dl = "t0 + timeoutMs"
  have step: "1 \<le> poll_step intervalMs" by (simp add: poll_step_def)
  have "\<exists>n. last_poll w ?dl n"
  proof (rule ccontr)
    assume "\<not> (\<exists>n. last_poll w ?dl n)"
    then have none: "\<not> last_poll w ?dl i" for i by simp
    define n where "n = nat timeoutMs"
    have "poll_clock w 0 + int n * poll_step intervalMs \<le> poll_clock w n"
      by (rule polls_advance [OF assms(1)]) (rule none)
    moreover have "timeoutMs \<le> int n * 1" by (simp add: n_def)
    moreover have "int n * 1 \<le> int n * poll_step intervalMs" by (rule mult_left_mono [OF step]) simp
    moreover have "poll_clock w n < ?dl" using none [of n] by (auto simp: last_poll_def)
    ultimately show False using assms(2) by linarith
  qed
  then obtain n where n: "last_poll w ?dl n" "\<And>i. i < n \<Longrightarrow> \<not> last_poll w ?dl i"
    using exists_least_iff [of "last_poll w ?dl"] by blast
  have "int (n - 1) * poll_step intervalMs < timeoutMs" if "0 < n"
  proof -
    have "poll_clock w 0 + int (n - 1) * poll_step intervalMs \<le> poll_clock w (n - 1)"
      by (rule polls_advance [OF assms(1)]) (use n(2) that in auto)
    moreover have "poll_clock w (n - 1) < ?dl" using n(2) [of "n - 1"] that by (auto simp: last_poll_def)
    ultimately show ?thesis using assms(2) by simp
  qed
  then show ?thesis
    using await_from [of 0 n] n by (intro exI [of _ n]) (auto simp: last_poll_def)
qed

text \<open>A reply that is never recorded: ten polls of a tenth of the timeout, and one to see it is over.\<close>

theorem await_reply_ends_witness:
  "awaitReply \<lparr>poll_reads = (\<lambda>i. None), poll_clock = (\<lambda>i. 5 + 100 * int i), poll_aborted = (\<lambda>i. False)\<rparr> 1005 0 = Some None"
proof -
  let ?w = "\<lparr>poll_reads = (\<lambda>i. None), poll_clock = (\<lambda>i. 5 + 100 * int i), poll_aborted = (\<lambda>i. False)\<rparr>"
  have "sleeps_right ?w 100 (5 + 1000)"
    by (auto simp: sleeps_right_def timer_delay_def min_def)
  from await_reply_ends [OF this] show ?thesis by auto
qed
section \<open>The answer reaches the Specialist\<close>

text \<open>Asking reports no more than the store can show: the answer is returned with the record
  it confirmed; the outcome becomes delivered exactly when the record says delivered and the
  push was not refused, a refused push stays refused, and no answer changes nothing; an
  answer that cites another message is an error and changes nothing.\<close>

theorem ask_honest:
  assumes "read_record s (pq_key q) = Some r"
  shows "case (rep, ask_end q p rep s) of
      (None, out) \<Rightarrow> out = (Inr (p, None), s)
    | (Some a, (Inr (p', body'), s')) \<Rightarrow>
        body' = Some (ir_body a) \<and> inReplyTo (ir_body a) \<in> {None, Some (pq_messageId q)}
      \<and> (\<exists>r'. pr_record p' = Some r' \<and> read_record s' (pq_key q) = Some r' \<and> extends r r'
           \<and> (pr_outcome p' = P_delivered \<longleftrightarrow> pr_outcome p = P_delivered \<or> pi_state r' = W_delivered \<and> pr_outcome p \<noteq> P_refused)
           \<and> (pi_state r' = W_delivered \<longleftrightarrow> pi_state r = W_delivered \<or> isConfirmable (pi_kind r) \<and> pi_state r = W_sent_unconfirmed))
      \<and> (pr_outcome p = P_refused \<longrightarrow> pr_outcome p' = P_refused)
    | (Some a, (Inl err, s')) \<Rightarrow>
        err = Store_error Reply_mismatch \<and> s' = s
      \<and> (\<exists>other. inReplyTo (ir_body a) = Some other \<and> other \<noteq> pq_messageId q)"
proof (cases rep)
  case None
  then show ?thesis by (simp add: ask_end_def)
next
  case (Some a)
  have key: "snd (pq_key q) = pq_messageId q" by (simp add: pq_key_def)
  let ?cited = "nullish (replyCorrelation (ir_body a)) (Some (pq_messageId q))"
  show ?thesis
  proof (cases "?cited = Some (pq_messageId q)")
    case False
    then have "\<exists>other. inReplyTo (ir_body a) = Some other \<and> other \<noteq> pq_messageId q"
      by (cases "inReplyTo (ir_body a)") (simp_all add: replyCorrelation_def)
    then show ?thesis
      using Some assms False key by (simp add: ask_end_def recordReplyDelivery_def)
  next
    case True
    then have cites: "inReplyTo (ir_body a) \<in> {None, Some (pq_messageId q)}"
      by (cases "inReplyTo (ir_body a)") (simp_all add: replyCorrelation_def)
    define r' where "r' = (if isConfirmable (pi_kind r) \<and> pi_state r = W_sent_unconfirmed
      then r\<lparr>pi_state := W_delivered, pi_deliveredAt := Some (ir_repliedAt a)\<rparr> else r)"
    define s' where "s' = (if isConfirmable (pi_kind r) \<and> pi_state r = W_sent_unconfirmed then write_record (pq_key q) r' s else s)"
    have rec: "recordReplyDelivery (pq_key q) ?cited (ir_repliedAt a) s = (Inr r', s')"
      using assms True key by (simp add: recordReplyDelivery_def r'_def s'_def Let_def)
    have read: "read_record s' (pq_key q) = Some r'"
      using assms by (simp add: s'_def r'_def write_record_def read_record_def map_get_set)
    have grown: "extends r r'" by (simp add: r'_def extends_def)
    have state: "pi_state r' = W_delivered \<longleftrightarrow> pi_state r = W_delivered \<or> isConfirmable (pi_kind r) \<and> pi_state r = W_sent_unconfirmed"
      by (cases "isConfirmable (pi_kind r) \<and> pi_state r = W_sent_unconfirmed") (auto simp: r'_def)
    have "ask_end q p rep s
        = (Inr (p\<lparr>pr_record := Some r', pr_outcome := outcomeAfterReply (pr_outcome p) r'\<rparr>, Some (ir_body a)), s')"
      using rec by (simp add: Some ask_end_def)
    then show ?thesis
      using Some cites read grown by (simp only: outcomeAfterReply_def state [symmetric]) auto
  qed
qed

definition demo_answer :: interaction_reply where
  "demo_answer = \<lparr>ir_messageId = ''q'', ir_activation = ''a'', ir_repliedAt = 9, ir_body = demo_question\<lparr>inReplyTo := Some ''q''\<rparr>\<rparr>"

definition demo_sent :: pending_interaction where
  "demo_sent = \<lparr>pi_messageId = ''q'', pi_activation = ''a'', pi_kind = Question, pi_createdAt = 1, pi_message = demo_question,
     pi_state = W_sent_unconfirmed, pi_attempts = [demo_attempt], pi_receipt = None, pi_deliveredAt = None\<rparr>"

theorem ask_honest_witness:
  "\<exists>p' s'. ask_end (delivery_request ''s'' demo_question)
       \<lparr>pr_outcome = P_no_receipt, pr_record = None, pr_route = None, pr_reason = None\<rparr> (Some demo_answer)
       (write_record (''a'', ''q'') demo_sent empty_interactions) = (Inr (p', Some (ir_body demo_answer)), s')
     \<and> pr_outcome p' = P_delivered"
proof -
  let ?q = "delivery_request ''s'' demo_question"
  let ?p = "\<lparr>pr_outcome = P_no_receipt, pr_record = None, pr_route = None, pr_reason = None\<rparr>"
  let ?s = "write_record (''a'', ''q'') demo_sent empty_interactions"
  have q: "pq_key ?q = (''a'', ''q'')" "pq_messageId ?q = ''q''"
    by (simp_all add: delivery_request_def demo_question_def composeInteractionMessage_def demo_ask_def pq_key_def)
  have read: "read_record ?s (pq_key ?q) = Some demo_sent"
    by (simp add: q write_record_def read_record_def map_get_set)
  have states: "pi_state demo_sent = W_sent_unconfirmed" "isConfirmable (pi_kind demo_sent)"
    "inReplyTo (ir_body demo_answer) = Some ''q''"
    by (simp_all add: demo_sent_def isConfirmable_def createsPendingAsk_def KINDS_AWAITING_REPLY_def demo_answer_def)
  show ?thesis
  proof (cases "ask_end ?q ?p (Some demo_answer) ?s")
    case (Pair out s')
    then show ?thesis
      using ask_honest [OF read, where p = ?p and rep = "Some demo_answer"] states q by (cases out) auto
  qed
qed

text \<open>One \<open>null\<close> row in the roster leaves every question without an answer: the push of any
  message to any session throws after its record is stored, the hook then starts no watch, and
  no later tick of it does anything, whatever answers are recorded: a coordinator's answer in the
  store never reaches the waiting Specialist.\<close>

theorem null_row_unwatched:
  assumes "s = perform_all before empty_interactions" and "kind m = Question"
    and "(name, Text JNull) \<in> set files" and "ends_with ''.json'' name"
    and pushed: "push e (Some files) self w (delivery_request session m) s = (res, s')"
    and unwatched: "map_get b (messageId m) = None"
  shows "deliver_end timeoutMs now m res b = (None, b)
    \<and> (\<exists>r. read_record s' (msg_activation m, messageId m) = Some r)
    \<and> watch_tick m rid later (perform_all evs s') (snd (deliver_end timeoutMs now m res b), tp) = (b, tp)"
proof -
  let ?q = "delivery_request session m"
  have key: "pq_key ?q = (msg_activation m, messageId m)" by (simp add: delivery_request_def pq_key_def)
  have "row_throws e (name, Text JNull)"
    using assms(4) by (simp add: row_throws_def evaluateRegistration_def get_prop_def)
  then obtain err where "selectRoute e (Some files) (pq_session ?q) = Inl err"
    using assms(3) selectRoute_throws [of e files "pq_session ?q"] by blast
  moreover have "map_get (records s) (pq_key ?q) \<noteq> Some Corrupt_file"
    unfolding assms(1) by (rule never_corrupt)
  note effect = push_effect [OF this pushed]
  ultimately obtain r why where "stored_run ?q s s' r" "res = Inl (Route_error why)"
    by (cases res) auto
  then show ?thesis
    using unwatched by (auto simp: deliver_end_def watch_tick_def stored_run_def key)
qed
theorem null_row_unwatched_witness:
  "\<exists>res s' r. push demo_env (Some (demo_roster @ [(''9.json'', Text JNull)])) demo_self demo_world
       (delivery_request ''s'' demo_question) empty_interactions = (res, s')
     \<and> deliver_end 3600000 5 demo_question res [] = (None, []) \<and> read_record s' (''a'', ''q'') = Some r"
proof -
  let ?files = "demo_roster @ [(''9.json'', Text JNull)]"
  obtain res s' where pushed: "push demo_env (Some ?files) demo_self demo_world (delivery_request ''s'' demo_question) empty_interactions = (res, s')"
    by (cases "push demo_env (Some ?files) demo_self demo_world (delivery_request ''s'' demo_question) empty_interactions")
  have start: "empty_interactions = perform_all [] empty_interactions" by (simp add: perform_all_def)
  have q: "kind demo_question = Question" "msg_activation demo_question = ''a''" "messageId demo_question = ''q''"
    by (simp_all add: demo_question_def composeInteractionMessage_def demo_ask_def)
  have null: "(''9.json'', Text JNull) \<in> set ?files" "ends_with ''.json'' ''9.json''" by (simp, code_simp)
  show ?thesis
    using null_row_unwatched [OF start q(1) null pushed, of "[]" 3600000 5] pushed unfolding q by auto
qed

text \<open>The message a watch answers with.\<close>

definition routed_message :: "message \<Rightarrow> message \<Rightarrow> string \<Rightarrow> int \<Rightarrow> message" where
  "routed_message m stored rid now = composeInteractionMessage (routed_reply m stored) rid now"

text \<open>C36. A stored answer resumes the Specialist: the hook watches every question and escalation
  whose push returned, and, while the call waits, the first tick before the deadline after an
  answer is recorded resolves that call with a reply that cites the question and carries the
  coordinator's text, takes the question off the outstanding asks and ends the watch; a tick
  with no answer changes nothing.\<close>

theorem stored_answer_resumes:
  assumes asks: "kind m = Question \<or> kind m = Escalation" and id: "messageId m \<noteq> []"
    and hook: "deliver_end timeoutMs t0 m (Inr p) b = (res, b')" and fresh: "map_get b (messageId m) = None"
    and time: "now \<le> t0 + timeoutMs"
    and waits: "map_has (pending tp) (messageId m)" "map_has (waiters tp) (messageId m)"
    and tick: "watch_tick m rid now s (b', tp) = (b'', tp')"
  shows "res = Some (pr_outcome p = P_delivered) \<and> map_get b' (messageId m) = Some (t0 + timeoutMs)
    \<and> (case read_reply s (msg_activation m, messageId m) of
         None \<Rightarrow> b'' = b' \<and> tp' = tp
       | Some rep \<Rightarrow>
           (let m' = routed_message m (ir_body rep) rid now in
              resolved tp' (messageId m) = Some m' \<and> body m' = body (ir_body rep) \<and> inReplyTo m' = Some (messageId m)
            \<and> from_p m' = to_p m \<and> to_p m' = from_p m)
         \<and> \<not> map_has (pending tp') (messageId m) \<and> \<not> map_has (waiters tp') (messageId m) \<and> map_get b'' (messageId m) = None)"
proof -
  have watched: "res = Some (pr_outcome p = P_delivered)" "map_get b' (messageId m) = Some (t0 + timeoutMs)"
    using hook asks fresh by (auto simp: deliver_end_def watchForReply_def map_has_def map_get_set)
  show ?thesis
  proof (cases "read_reply s (msg_activation m, messageId m)")
    case None
    then show ?thesis using watched tick time by (simp add: watch_tick_def)
  next
    case (Some rep)
    let ?i = "routed_reply m (ir_body rep)"
    have target: "in_replyTo ?i = Some (messageId m)" by (simp add: routed_reply_def)
    have b'': "b'' = map_delete b' (messageId m)" and tp': "tp' = snd (reply ?i rid now tp)"
      using tick watched time Some by (simp_all add: watch_tick_def)
    have "resolved tp' (messageId m) = Some (routed_message m (ir_body rep) rid now)"
      "\<not> map_has (pending tp') (messageId m)" "\<not> map_has (waiters tp') (messageId m)"
      using waits id target
      by (simp_all add: tp' reply_def routed_message_def Let_def map_has_def map_get_delete)
    moreover have "body (routed_message m (ir_body rep) rid now) = body (ir_body rep)"
      "inReplyTo (routed_message m (ir_body rep) rid now) = Some (messageId m)"
      "from_p (routed_message m (ir_body rep) rid now) = to_p m" "to_p (routed_message m (ir_body rep) rid now) = from_p m"
      using id by (simp_all add: routed_message_def routed_reply_def composeInteractionMessage_def present_def truthy_def)
    ultimately show ?thesis
      using watched Some b'' by (simp add: map_get_delete Let_def)
  qed
qed

theorem stored_answer_resumes_witness:
  "\<exists>tp'. watch_tick demo_question ''r'' 1000
       (empty_interactions\<lparr>replies := (\<lambda>k. if k = (''a'', ''q'') then Some (Parsed demo_answer) else None)\<rparr>)
       (snd (deliver_end 3600000 5 demo_question (Inr \<lparr>pr_outcome = P_no_receipt, pr_record = None, pr_route = None, pr_reason = None\<rparr>) []),
        snd (request_begin demo_ask ''q'' 1 new_transport)) = ([], tp')
     \<and> map_option inReplyTo (resolved tp' ''q'') = Some (Some ''q'')"
proof -
  let ?p = "\<lparr>pr_outcome = P_no_receipt, pr_record = None, pr_route = None, pr_reason = None\<rparr>"
  let ?tp = "snd (request_begin demo_ask ''q'' 1 new_transport)"
  let ?s = "empty_interactions\<lparr>replies := (\<lambda>k. if k = (''a'', ''q'') then Some (Parsed demo_answer) else None)\<rparr>"
  have q: "messageId demo_question = ''q''" "msg_activation demo_question = ''a''" "kind demo_question = Question"
    by (simp_all add: demo_question_def composeInteractionMessage_def demo_ask_def)
  obtain res b' where hook: "deliver_end 3600000 5 demo_question (Inr ?p) [] = (res, b')" and b': "b' = [(''q'', 3600005)]"
    by (simp add: deliver_end_def q watchForReply_def map_has_def)
  obtain b'' tp' where tick: "watch_tick demo_question ''r'' 1000 ?s (b', ?tp) = (b'', tp')"
    by (cases "watch_tick demo_question ''r'' 1000 ?s (b', ?tp)")
  have waits: "map_has (pending ?tp) (messageId demo_question)" "map_has (waiters ?tp) (messageId demo_question)"
    by (simp_all add: q request_begin_def send_begin_def Let_def new_transport_def demo_ask_def composeInteractionMessage_def
        expects_answer_def map_has_def map_get_set)
  have read: "read_reply ?s (msg_activation demo_question, messageId demo_question) = Some demo_answer"
    by (simp add: read_reply_def q)
  have empty: "b'' = []"
    using tick read by (simp add: watch_tick_def b' q map_delete_def)
  show ?thesis
    using stored_answer_resumes [OF disjI1 [OF q(3)] _ hook _ _ waits tick] read hook tick empty
    by (simp add: q Let_def)
qed

end
