(* ===== verification/Model_Gate.thy ===== *)
theory Model_Gate imports Circuit_Breaker begin

text \<open>
  Which model an activation runs on: the chain of \<open>src/specialist/model-chain.ts\<close>, the gate of
  \<open>src/activation/model-gate.ts\<close>, the classes of \<open>classifyFallbackError\<close>
  (\<open>src/specialist/runner.ts\<close>) and the two walks of \<open>src/activation/native-host.ts\<close>: over the
  models that are not available, before a session exists, and over those that fail, after.

  Parameters: what the Pi SDK resolves a model name to (or the error it throws), whether a
  provider has its authentication, how a turn on a model ends and whether a session for it
  can be created. An absent and an empty name of a model are not told apart.
\<close>

section \<open>The chain\<close>

definition normalizeModel :: "string option \<Rightarrow> string option" where
  "normalizeModel m = (case m of Some s \<Rightarrow> if trim s \<noteq> [] then Some (trim s) else None | None \<Rightarrow> None)"

record model_execution =
  ex_model :: "string option"
  ex_fallback_model :: "string option"
  ex_fallback_models :: "string list option"

definition resolveFallbackModels :: "model_execution \<Rightarrow> string list" where
  "resolveFallbackModels x =
     (case ex_fallback_models x of
        Some (m # ms) \<Rightarrow> List.map_filter (\<lambda>s. normalizeModel (Some s)) (m # ms)
      | _ \<Rightarrow> (case normalizeModel (ex_fallback_model x) of Some f \<Rightarrow> [f] | None \<Rightarrow> []))"

text \<open>\<open>[...new Set(models)]\<close>: the first of each stays.\<close>

definition dedupeModels :: "string list \<Rightarrow> string list" where
  "dedupeModels ms = rev (remdups (rev ms))"

definition resolveModelChain :: "model_execution \<Rightarrow> string list" where
  "resolveModelChain x =
     dedupeModels ((case normalizeModel (ex_model x) of Some m \<Rightarrow> [m] | None \<Rightarrow> []) @ resolveFallbackModels x)"

section \<open>The gate\<close>

record model_ref =
  md_id :: "string option"
  md_provider :: "string option"

record model_diagnostic =
  dg_code :: string
  dg_message :: string

record model_scope =
  sc_models :: "model_ref list"
  sc_diagnostics :: "model_diagnostic list"

record pi_models =
  resolve_scope :: "string \<Rightarrow> string + model_scope"
  has_auth :: "string \<Rightarrow> bool"

record model_gate =
  mg_ok :: bool
  mg_model :: "model_ref option"
  mg_resolved :: "string option"
  mg_provider :: "string option"
  mg_reason :: "string option"

definition gate_refused :: "string \<Rightarrow> string option \<Rightarrow> model_gate" where
  "gate_refused why provider =
     \<lparr>mg_ok = False, mg_model = None, mg_resolved = None, mg_provider = provider, mg_reason = Some why\<rparr>"

text \<open>\<open>s.replace(p, q)\<close> for a string \<open>p\<close>: the first occurrence.\<close>

definition replace_first :: "string \<Rightarrow> string \<Rightarrow> string \<Rightarrow> string" where
  "replace_first p q s = (case index_of p s of Some n \<Rightarrow> take n s @ q @ drop (n + length p) s | None \<Rightarrow> s)"

definition qualified_id :: "string \<Rightarrow> string \<Rightarrow> string" where
  "qualified_id provider mid = replace_first (provider @ ''/'' @ provider @ ''/'') (provider @ ''/'') (provider @ ''/'' @ mid)"

definition dquoted :: "string \<Rightarrow> string" where
  "dquoted s = CHR 0x22 # s @ [CHR 0x22]"

definition validateModelAvailable :: "pi_models \<Rightarrow> string \<Rightarrow> model_gate" where
  "validateModelAvailable pi requested =
     (case resolve_scope pi requested of
        Inl err \<Rightarrow> gate_refused (''model resolution failed: '' @ err) None
      | Inr scope \<Rightarrow>
          (case find (\<lambda>d. dg_code d = ''no-match'') (sc_diagnostics scope) of
             Some d \<Rightarrow> gate_refused (if dg_message d \<noteq> [] then dg_message d else ''no model matches '' @ dquoted requested) None
           | None \<Rightarrow>
               (case sc_models scope of
                  [] \<Rightarrow> gate_refused (''no model resolved for '' @ dquoted requested) None
                | first # _ \<Rightarrow>
                    if \<not> truthy (md_provider first)
                    then gate_refused (''resolved model for '' @ dquoted requested @ '' has no provider'') None
                    else
                      let provider = the (md_provider first) in
                      if \<not> has_auth pi provider
                      then gate_refused (''provider '' @ dquoted provider @ '' has no configured auth for '' @ dquoted requested) (Some provider)
                      else \<lparr>mg_ok = True, mg_model = Some first,
                             mg_resolved = Some (if truthy (md_id first) then qualified_id provider (the (md_id first)) else requested),
                             mg_provider = Some provider, mg_reason = None\<rparr>)))"

definition honoured :: "model_gate \<Rightarrow> bool" where
  "honoured g \<longleftrightarrow> mg_ok g \<and> mg_model g \<noteq> None"

section \<open>The classes of a failure\<close>

definition thrown_string :: "string \<Rightarrow> thrown" where
  "thrown_string s = (if s = [] then Falsy else ThrownString s)"

definition classifyFallbackError :: "string \<Rightarrow> string" where
  "classifyFallbackError detail =
     (let e = thrown_string detail; message = to_lower detail in
      if isAuthError e then ''auth''
      else if isRateLimitError e then ''rate_limit''
      else if list_ex (\<lambda>p. str_includes p message) [''timeout'', ''timed out'', ''etimedout'', ''deadline''] then ''timeout''
      else if isTransientError e then ''transient''
      else ''unknown'')"

definition FALLBACK_RETRYABLE_CLASSES :: "string list" where
  "FALLBACK_RETRYABLE_CLASSES = [''rate_limit'', ''timeout'', ''transient'']"

section \<open>The walk before a session exists\<close>

text \<open>From model \<open>i\<close> on, until one is honoured or the chain ends: where it stops, with what the
  gate said of it.\<close>

function dispatch_walk :: "(string \<Rightarrow> model_gate) \<Rightarrow> string list \<Rightarrow> nat \<Rightarrow> nat \<times> model_gate" where
  "dispatch_walk check chain i =
     (let g = check (if i < length chain then chain ! i else []) in
      if \<not> honoured g \<and> i < length chain - 1 then dispatch_walk check chain (i + 1) else (i, g))"
  by pat_completeness auto
termination
  by (relation "measure (\<lambda>(check, chain, i). length chain - i)") auto

declare dispatch_walk.simps [simp del]

section \<open>The walk over failures\<close>

datatype turn_end = Completed string | Failed_turn string

text \<open>What the walk does after a turn on model \<open>i\<close> failed: nothing, for good; or check the next.\<close>

definition walk_next :: "string list \<Rightarrow> nat \<Rightarrow> bool \<Rightarrow> string \<Rightarrow> string option" where
  "walk_next chain i registered detail =
     (if i < length chain - 1 \<and> registered \<and> classifyFallbackError detail \<in> set FALLBACK_RETRYABLE_CLASSES
      then Some (chain ! (i + 1)) else None)"

record fallback_run =
  fr_tried :: "string list"
  fr_end :: turn_end
  fr_used :: bool

text \<open>The walk with no operation of others between its steps: \<open>turn\<close> tells how a model's turn
  ends, \<open>check\<close> what the gate says, \<open>creates\<close> whether its session can be created.\<close>

function runWithFallback ::
  "(string \<Rightarrow> turn_end) \<Rightarrow> (string \<Rightarrow> model_gate) \<Rightarrow> (string \<Rightarrow> bool) \<Rightarrow> string list \<Rightarrow> nat \<Rightarrow> fallback_run" where
  "runWithFallback turn check creates chain i =
     (let m = (if i < length chain then chain ! i else []) in
      case turn m of
        Completed out \<Rightarrow> \<lparr>fr_tried = [m], fr_end = Completed out, fr_used = (0 < i)\<rparr>
      | Failed_turn detail \<Rightarrow>
          (case walk_next chain i True detail of
             None \<Rightarrow> \<lparr>fr_tried = [m], fr_end = Failed_turn detail, fr_used = (0 < i)\<rparr>
           | Some next_model \<Rightarrow>
               if \<not> honoured (check next_model) \<or> \<not> creates next_model
               then \<lparr>fr_tried = [m], fr_end = Failed_turn detail, fr_used = (0 < i)\<rparr>
               else
                 let r = runWithFallback turn check creates chain (i + 1) in
                 r\<lparr>fr_tried := m # fr_tried r\<rparr>))"
  by pat_completeness auto
termination
  by (relation "measure (\<lambda>(turn, check, creates, chain, i). length chain - i)") (auto simp: walk_next_def split: if_splits)

declare runWithFallback.simps [simp del]
section \<open>Lemmas\<close>

lemma distinct_dedupe: "distinct (dedupeModels ms)" "set (dedupeModels ms) = set ms"
  by (simp_all add: dedupeModels_def)

lemma dispatch_walk_stops:
  "i < length chain \<Longrightarrow> dispatch_walk check chain i = (n, g) \<Longrightarrow>
     i \<le> n \<and> n < length chain \<and> g = check (chain ! n) \<and> (\<forall>j. i \<le> j \<and> j < n \<longrightarrow> \<not> honoured (check (chain ! j)))
   \<and> (honoured g \<or> n = length chain - 1)"
proof (induction check chain i rule: dispatch_walk.induct)
  case (1 check chain i)
  have here: "(if i < length chain then chain ! i else []) = chain ! i" using "1.prems"(1) by simp
  show ?case
  proof (cases "\<not> honoured (check (chain ! i)) \<and> i < length chain - 1")
    case True
    then have "dispatch_walk check chain (i + 1) = (n, g)"
      using "1.prems"(2) by (simp add: dispatch_walk.simps [of check chain i] here Let_def)
    moreover have "i + 1 < length chain" using True by linarith
    moreover note "1.IH" [unfolded here, OF refl True]
    ultimately have ih:
      "i + 1 \<le> n \<and> n < length chain \<and> g = check (chain ! n) \<and> (\<forall>j. i + 1 \<le> j \<and> j < n \<longrightarrow> \<not> honoured (check (chain ! j)))
        \<and> (honoured g \<or> n = length chain - 1)"
      by blast
    moreover have "\<not> honoured (check (chain ! j))" if "i \<le> j" "j < n" for j
      using that ih True by (cases "j = i") auto
    ultimately show ?thesis by auto
  next
    case False
    then have "n = i" "g = check (chain ! i)"
      using "1.prems"(2) by (auto simp: dispatch_walk.simps [of check chain i] here Let_def split: if_splits)
    then show ?thesis using False "1.prems"(1) by auto
  qed
qed

text \<open>A failure the walk goes on from, at model \<open>j\<close>.\<close>

definition passes_on ::
  "(string \<Rightarrow> turn_end) \<Rightarrow> (string \<Rightarrow> model_gate) \<Rightarrow> (string \<Rightarrow> bool) \<Rightarrow> string list \<Rightarrow> nat \<Rightarrow> bool" where
  "passes_on turn check creates chain j \<longleftrightarrow>
     (\<exists>d. turn (chain ! j) = Failed_turn d \<and> classifyFallbackError d \<in> set FALLBACK_RETRYABLE_CLASSES)
   \<and> j + 1 < length chain \<and> honoured (check (chain ! (j + 1))) \<and> creates (chain ! (j + 1))"

lemma run_step:
  assumes "i < length chain"
  shows "runWithFallback turn check creates chain i =
    (if passes_on turn check creates chain i
     then (runWithFallback turn check creates chain (i + 1))
            \<lparr>fr_tried := chain ! i # fr_tried (runWithFallback turn check creates chain (i + 1))\<rparr>
     else \<lparr>fr_tried = [chain ! i], fr_end = turn (chain ! i), fr_used = (0 < i)\<rparr>)"
  using assms
  by (subst runWithFallback.simps)
     (auto simp: walk_next_def passes_on_def Let_def split: turn_end.splits)

lemma run_tries:
  "k \<le> n \<Longrightarrow> n < length chain \<Longrightarrow> (\<And>j. k \<le> j \<Longrightarrow> j < n \<Longrightarrow> passes_on turn check creates chain j) \<Longrightarrow>
     \<not> passes_on turn check creates chain n \<Longrightarrow>
     runWithFallback turn check creates chain k
       = \<lparr>fr_tried = drop k (take (n + 1) chain), fr_end = turn (chain ! n), fr_used = (0 < n)\<rparr>"
proof (induction "n - k" arbitrary: k)
  case 0
  then have "k = n" by simp
  moreover have "drop n (take (n + 1) chain) = [chain ! n]"
    using "0.prems"(2) by (simp add: take_Suc_conv_app_nth)
  ultimately show ?case using 0 by (simp add: run_step)
next
  case (Suc d)
  then have "k < n" by simp
  moreover from this have "drop k (take (n + 1) chain) = chain ! k # drop (k + 1) (take (n + 1) chain)"
    using Suc.prems(2) by (subst Cons_nth_drop_Suc [symmetric]) simp_all
  ultimately show ?case
    using Suc.hyps(1) [of "k + 1"] Suc.hyps(2) Suc.prems by (simp add: run_step)
qed

section \<open>Properties\<close>


definition demo_check :: "string \<Rightarrow> model_gate" where
  "demo_check m = (if m = ''a'' then gate_refused ''gone'' None
     else \<lparr>mg_ok = True, mg_model = Some \<lparr>md_id = Some m, md_provider = Some ''p''\<rparr>, mg_resolved = Some m, mg_provider = Some ''p'', mg_reason = None\<rparr>)"

definition demo_turn :: "string \<Rightarrow> turn_end" where
  "demo_turn m = (if m = ''b'' then Failed_turn ''429 too many requests'' else Completed ''done'')"

definition demo_execution :: model_execution where
  "demo_execution = \<lparr>ex_model = Some ''a'', ex_fallback_model = None, ex_fallback_models = Some ['' b'', ''a'', ''c'']\<rparr>"


end
