(* ===== verification/Activation_Host.thy ===== *)
theory Activation_Host imports Model_Gate Workspace_Lease Bead_Gate begin

text \<open>
  \<open>src/activation/native-host.ts\<close> with \<open>registry.ts\<close>, \<open>guarded-tools.ts\<close> and the rows of
  \<open>authority-store.ts\<close>: the host of the activations of one process. An asynchronous method is cut
  at its awaits; what it still has to do is a task, and any other operation may come before
  it. A record object outlives its place in the registry for the tasks that hold it, so the
  objects and the registry are kept apart.

  Parameters: what the loader, the bead, the tool contract and the preflight check give, the
  models and the tool factories of the Pi SDK, how a turn ends, whether a session is created.
  A session is a number. Prompts, token counts, forensic events and the texts of results are
  left out; the compilation of the step contract and the rendering of prompts do not throw.
  No tool is named like a property of \<open>Object.prototype\<close>, and attempt numbers stay below the
  integers a double holds exactly.
\<close>

section \<open>Attempts\<close>

text \<open>\<open>/^(.*):(\d+)$/\<close>: the last colon with digits after it.\<close>

definition nextAttemptId :: "string \<Rightarrow> string" where
  "nextAttemptId current =
     (let digits = rev (takeWhile is_digit (rev current)) in
      case dropWhile is_digit (rev current) of
        c # prefix \<Rightarrow>
          if c = CHR '':'' \<and> digits \<noteq> [] \<and> \<not> list_ex (\<lambda>x. char_code x \<in> {10, 13}) prefix
          then rev prefix @ '':'' @ show_int (digits_number digits + 1)
          else current @ '':2''
      | [] \<Rightarrow> current @ '':2'')"

section \<open>Guarded tools\<close>

definition FACTORY_NAMES :: "(string \<times> string) list" where
  "FACTORY_NAMES =
     [(''edit'', ''createEditTool''), (''write'', ''createWriteTool''), (''bash'', ''createBashTool''),
      (''powershell'', ''createPowerShellTool'')]"

definition factory_of :: "string \<Rightarrow> string option" where
  "factory_of name = map_get FACTORY_NAMES (to_lower (trim name))"

record guarded_tools =
  gt_guarded :: "string list"
  gt_unguardable :: "string list"

fun createGuardedTools :: "string list \<Rightarrow> string list \<Rightarrow> guarded_tools" where
  "createGuardedTools factories [] = \<lparr>gt_guarded = [], gt_unguardable = []\<rparr>"
| "createGuardedTools factories (name # names) =
     (let g = createGuardedTools factories names in
      case factory_of name of
        None \<Rightarrow> g
      | Some f \<Rightarrow>
          if f \<in> set factories then g\<lparr>gt_guarded := name # gt_guarded g\<rparr>
          else g\<lparr>gt_unguardable := name # gt_unguardable g\<rparr>)"

datatype 'a tool_result = Ran 'a | Blocked string

text \<open>The \<open>execute\<close> of a guarded tool: the verdict is asked for at each call.\<close>

definition guarded_execute :: "(string \<Rightarrow> admission_verdict) \<Rightarrow> string \<Rightarrow> 'a \<Rightarrow> 'a tool_result" where
  "guarded_execute admit name original =
     (let v = admit name in
      if allow v then Ran original
      else Blocked (''Refused: '' @ (case reason v of Some why \<Rightarrow> why
                                     | None \<Rightarrow> name @ '' is not admitted against this workspace'')))"

section \<open>The state of the host\<close>

datatype act_state =
    Act_starting | Act_running | Act_waiting | Act_needs_reply | Act_escalated
  | Act_settled | Act_stopping | Act_stopped | Act_failed | Act_uncertain

definition RESUMABLE_STATES :: "act_state list" where
  "RESUMABLE_STATES = [Act_settled, Act_waiting, Act_needs_reply, Act_escalated]"

definition RETRYABLE_STATES :: "act_state list" where
  "RETRYABLE_STATES = [Act_failed]"

definition WRITE_TIERS :: "string list" where
  "WRITE_TIERS = [''MEDIUM'', ''HIGH'']"

definition THINKING_LEVELS :: "string list" where
  "THINKING_LEVELS = [''off'', ''minimal'', ''low'', ''medium'', ''high'', ''xhigh'']"

record act_snapshot =
  sn_activation :: string
  sn_attempt :: string
  sn_specialist :: string
  sn_bead :: string
  sn_state :: act_state
  sn_writes :: bool
  sn_workspace :: workspace_identity
  sn_session :: nat
  sn_requested :: string
  sn_resolved :: string
  sn_override :: bool
  sn_lastActivity :: int

record activation =
  ac_snapshot :: act_snapshot
  ac_session :: nat
  ac_listens :: "nat option"

record authority_row =
  row_specialist :: string
  row_state :: act_state
  row_bead :: string
  row_lastActivity :: int

record start_plan =
  sp_activation :: string
  sp_specialist :: string
  sp_bead :: string
  sp_writes :: bool
  sp_workspace :: workspace_identity
  sp_requested :: string
  sp_override :: bool
  sp_chain :: "string list"
  sp_index :: nat
  sp_resolved :: string

text \<open>What an asynchronous method still has to do.\<close>

datatype task =
    Creating_first start_plan
  | Running string nat "(string list \<times> nat) option"
  | Checking_next string "string list" nat
  | Creating_next string "string list" nat string
  | Aborting string
  | Retry_checking string string
  | Retry_creating string string string string

text \<open>\<open>hs_dispatched\<close> notes, for each activation that passed the gates, whether it may mutate and
  in which workspace.\<close>

record host_state =
  hs_objects :: "(string, activation) js_map"
  hs_fleet :: "string list"
  hs_leases :: lease_store
  hs_rows :: "(string, authority_row) js_map"
  hs_open :: "nat list"
  hs_tasks :: "task list"
  hs_dispatched :: "(string, bool \<times> workspace_identity) js_map"

record host_env =
  he_host :: host
  he_probe :: probe
  he_now :: int

definition empty_fleet :: "lease_store \<Rightarrow> host_state" where
  "empty_fleet s = \<lparr>hs_objects = [], hs_fleet = [], hs_leases = s, hs_rows = [], hs_open = [], hs_tasks = [], hs_dispatched = []\<rparr>"

section \<open>Small steps of the host\<close>

text \<open>\<open>registry.get\<close>.\<close>

definition fleet_get :: "host_state \<Rightarrow> string \<Rightarrow> activation option" where
  "fleet_get s act = (if act \<in> set (hs_fleet s) then map_get (hs_objects s) act else None)"

definition put_object :: "string \<Rightarrow> activation \<Rightarrow> host_state \<Rightarrow> host_state" where
  "put_object act a s = s\<lparr>hs_objects := map_set (hs_objects s) act a\<rparr>"

definition save :: "act_snapshot \<Rightarrow> host_state \<Rightarrow> host_state" where
  "save sn s = s\<lparr>hs_rows := map_set (hs_rows s) (sn_activation sn)
     \<lparr>row_specialist = sn_specialist sn, row_state = sn_state sn, row_bead = sn_bead sn, row_lastActivity = sn_lastActivity sn\<rparr>\<rparr>"

definition forget :: "string \<Rightarrow> host_state \<Rightarrow> host_state" where
  "forget act s = s\<lparr>hs_rows := map_delete (hs_rows s) act\<rparr>"

text \<open>The snapshot moves to a state and is saved.\<close>

definition move_to :: "act_state \<Rightarrow> string \<Rightarrow> host_state \<Rightarrow> host_state" where
  "move_to st act s =
     (case map_get (hs_objects s) act of
        None \<Rightarrow> s
      | Some a \<Rightarrow>
          let sn = (ac_snapshot a)\<lparr>sn_state := st\<rparr> in save sn (put_object act (a\<lparr>ac_snapshot := sn\<rparr>) s))"

definition releaseIfWriter :: "host_env \<Rightarrow> string \<Rightarrow> host_state \<Rightarrow> host_state" where
  "releaseIfWriter e act s =
     (case map_get (hs_objects s) act of
        None \<Rightarrow> s
      | Some a \<Rightarrow>
          if \<not> sn_writes (ac_snapshot a) then s
          else s\<lparr>hs_leases := snd (release (he_host e) (he_probe e) (sn_workspace (ac_snapshot a)) act (hs_leases s))\<rparr>)"

definition dispose_session :: "nat \<Rightarrow> host_state \<Rightarrow> host_state" where
  "dispose_session n s = s\<lparr>hs_open := removeAll n (hs_open s)\<rparr>"

definition add_task :: "task \<Rightarrow> host_state \<Rightarrow> host_state" where
  "add_task t s = s\<lparr>hs_tasks := hs_tasks s @ [t]\<rparr>"

definition take_task :: "task \<Rightarrow> host_state \<Rightarrow> host_state" where
  "take_task t s = s\<lparr>hs_tasks := remove1 t (hs_tasks s)\<rparr>"

section \<open>Dispatch\<close>

record specialist_def =
  sd_tier :: "string option"
  sd_execution :: model_execution

record start_request =
  rq_specialist :: string
  rq_bead :: string
  rq_model :: "string option"
  rq_thinking :: "string option"
  rq_workspace :: "workspace_identity option"

record dispatch_world =
  dw_specialist :: "string + specialist_def option"
  dw_bead :: "bead_record option"
  dw_contract_state :: "string \<Rightarrow> string option"
  dw_tools :: "string \<Rightarrow> string list option"
  dw_preflight :: "string option"
  dw_models :: pi_models
  dw_factories :: "string list"
  dw_cwd :: string

datatype host_refusal = Refused_for string | Lease_refused lease_error

definition tier_of :: "specialist_def \<Rightarrow> string" where
  "tier_of sd = (case sd_tier sd of Some t \<Rightarrow> t | None \<Rightarrow> ''READ_ONLY'')"

text \<open>The gates before the lease, in their order.\<close>

definition start_gates :: "dispatch_world \<Rightarrow> start_request \<Rightarrow> string \<Rightarrow> host_refusal + start_plan \<times> string list" where
  "start_gates d q act =
     (case dw_specialist d of
        Inl err \<Rightarrow> Inl (Refused_for ''unknown_specialist'')
      | Inr None \<Rightarrow> Inl (Refused_for ''unknown_specialist'')
      | Inr (Some sd) \<Rightarrow>
          (case dw_bead d of
             None \<Rightarrow> Inl (Refused_for ''bead_unreadable'')
           | Some bead \<Rightarrow>
               if evaluateBeadReadiness (dw_contract_state d) bead \<noteq> Inr () then Inl (Refused_for ''bead_contract_incomplete'')
               else
                 (case dw_tools d (tier_of sd) of
                    None \<Rightarrow> Inl (Refused_for ''empty_tool_contract'')
                  | Some tools \<Rightarrow>
                      if tools = [] then Inl (Refused_for ''empty_tool_contract'')
                      else if dw_preflight d \<noteq> None then Inl (Refused_for ''preflight_failed'')
                      else
                        let full = resolveModelChain (sd_execution sd);
                            configured = (case full of m # ms \<Rightarrow> Some m | [] \<Rightarrow> None);
                            chain = (if truthy (rq_model q) then [the (rq_model q)] else full);
                            requested = nullish (rq_model q) configured in
                        if (case rq_thinking q of Some lv \<Rightarrow> lv \<notin> set THINKING_LEVELS | None \<Rightarrow> False)
                        then Inl (Refused_for ''invalid_thinking_override'')
                        else if \<not> truthy requested then Inl (Refused_for ''no_model_configured'')
                        else
                          (case dispatch_walk (validateModelAvailable (dw_models d)) chain 0 of
                             (i, g) \<Rightarrow>
                               if \<not> honoured g then Inl (Refused_for ''model_unavailable'')
                               else Inr
                                 (\<lparr>sp_activation = act, sp_specialist = rq_specialist q, sp_bead = rq_bead q,
                                   sp_writes = (tier_of sd \<in> set WRITE_TIERS),
                                   sp_workspace = (case rq_workspace q of Some w \<Rightarrow> w
                                     | None \<Rightarrow> \<lparr>repositoryRoot = dw_cwd d, gitCommonDir = None, worktreePath = dw_cwd d, branch = None\<rparr>),
                                   sp_requested = the requested, sp_override = truthy (rq_model q), sp_chain = chain, sp_index = i,
                                   sp_resolved = (case mg_resolved g of Some r \<Rightarrow> r | None \<Rightarrow> chain ! i)\<rparr>,
                                  tools)))))"

text \<open>A writer takes the lease of its workspace, a reader nothing.\<close>

definition take_lease ::
  "host_env \<Rightarrow> bool \<Rightarrow> acquire_request \<Rightarrow> lease_store \<Rightarrow> (lease_error + unit) \<times> lease_store" where
  "take_lease e writes r s =
     (if writes then map_prod (map_sum id (\<lambda>_. ())) id (acquire (he_host e) (he_probe e) (he_now e) r s) else (Inr (), s))"

definition first_attempt :: "string \<Rightarrow> string" where
  "first_attempt act = ''att:'' @ drop 4 act @ '':1''"

definition lease_request :: "workspace_identity \<Rightarrow> string \<Rightarrow> string \<Rightarrow> string \<Rightarrow> acquire_request" where
  "lease_request w act attempt sp =
     \<lparr>req_workspace = w, req_activation = act, req_attempt = attempt, req_specialist = Some sp\<rparr>"

text \<open>\<open>start\<close> up to the creation of the session.\<close>

definition start_begin ::
  "host_env \<Rightarrow> dispatch_world \<Rightarrow> start_request \<Rightarrow> string \<Rightarrow> host_state \<Rightarrow> (host_refusal + start_plan) \<times> host_state" where
  "start_begin e d q act s =
     (case start_gates d q act of
        Inl why \<Rightarrow> (Inl why, s)
      | Inr (plan, tools) \<Rightarrow>
          (case take_lease e (sp_writes plan) (lease_request (sp_workspace plan) act (first_attempt act) (rq_specialist q)) (hs_leases s) of
            (Inl err, leases) \<Rightarrow> (Inl (Lease_refused err), s\<lparr>hs_leases := leases\<rparr>)
          | (Inr _, leases) \<Rightarrow>
              let s1 = s\<lparr>hs_leases := leases, hs_dispatched := map_set (hs_dispatched s) act (sp_writes plan, sp_workspace plan)\<rparr> in
              if gt_unguardable (createGuardedTools (dw_factories d) tools) \<noteq> []
              then (Inl (Refused_for ''unguardable_mutating_tools''), s1)
              else (Inr plan, add_task (Creating_first plan) s1)))"
text \<open>\<open>start\<close> once its session is there: the record is registered and its first turn runs.\<close>

definition first_created :: "host_env \<Rightarrow> start_plan \<Rightarrow> nat \<Rightarrow> host_state \<Rightarrow> host_state" where
  "first_created e plan n s =
     (let act = sp_activation plan;
          sn = \<lparr>sn_activation = act, sn_attempt = first_attempt act, sn_specialist = sp_specialist plan, sn_bead = sp_bead plan,
                sn_state = Act_starting, sn_writes = sp_writes plan, sn_workspace = sp_workspace plan, sn_session = n,
                sn_requested = sp_requested plan, sn_resolved = sp_resolved plan, sn_override = sp_override plan,
                sn_lastActivity = he_now e\<rparr>;
          s1 = take_task (Creating_first plan) s in
      add_task (Running act n (Some (sp_chain plan, sp_index plan)))
        (save sn (put_object act \<lparr>ac_snapshot = sn, ac_session = n, ac_listens = Some n\<rparr>
          (s1\<lparr>hs_fleet := hs_fleet s @ [act], hs_open := hs_open s @ [n]\<rparr>))))"

text \<open>The creation throws, and \<open>start\<close> with it.\<close>

definition first_failed :: "start_plan \<Rightarrow> host_state \<Rightarrow> host_state" where
  "first_failed plan s = take_task (Creating_first plan) s"

section \<open>Events of a session\<close>

datatype session_event = Agent_start | Agent_settled | Other_event

definition touch :: "int \<Rightarrow> string \<Rightarrow> host_state \<Rightarrow> host_state" where
  "touch now act s =
     (case map_get (hs_objects s) act of
        None \<Rightarrow> s
      | Some a \<Rightarrow> put_object act (a\<lparr>ac_snapshot := (ac_snapshot a)\<lparr>sn_lastActivity := now\<rparr>\<rparr>) s)"

text \<open>What the listener of an activation does with an event of session \<open>n\<close>.\<close>

definition onSessionEvent :: "host_env \<Rightarrow> string \<Rightarrow> nat \<Rightarrow> session_event \<Rightarrow> host_state \<Rightarrow> host_state" where
  "onSessionEvent e act n ev s =
     (case map_get (hs_objects s) act of
        None \<Rightarrow> s
      | Some a \<Rightarrow>
          if ac_listens a \<noteq> Some n then s
          else
            let s1 = touch (he_now e) act s in
            (case ev of
               Agent_start \<Rightarrow> move_to Act_running act s1
             | Agent_settled \<Rightarrow> releaseIfWriter e act (move_to Act_settled act s1)
             | Other_event \<Rightarrow> s1))"

text \<open>The hooks of the ask tools, for a registered activation.\<close>

definition ask_raised :: "bool \<Rightarrow> string \<Rightarrow> host_state \<Rightarrow> host_state" where
  "ask_raised escalation act s =
     (if fleet_get s act = None then s else move_to (if escalation then Act_escalated else Act_needs_reply) act s)"

definition ask_answered :: "string \<Rightarrow> host_state \<Rightarrow> host_state" where
  "ask_answered act s = (if fleet_get s act = None then s else move_to Act_running act s)"

section \<open>The end of a turn, and the walk\<close>

definition turn_ends :: "host_env \<Rightarrow> string \<Rightarrow> nat \<Rightarrow> (string list \<times> nat) option \<Rightarrow> turn_end \<Rightarrow> host_state \<Rightarrow> host_state" where
  "turn_ends e act n walk out s =
     (let s1 = take_task (Running act n walk) s in
      case out of
        Completed _ \<Rightarrow> releaseIfWriter e act (move_to Act_settled act s1)
      | Failed_turn detail \<Rightarrow>
          let s2 = move_to Act_failed act s1 in
          (case walk of
             None \<Rightarrow> s2
           | Some (chain, i) \<Rightarrow>
               (case walk_next chain i (act \<in> set (hs_fleet s)) detail of
                  None \<Rightarrow> s2
                | Some next_model \<Rightarrow> add_task (Checking_next act chain i) s2)))"

definition next_checked :: "string \<Rightarrow> string list \<Rightarrow> nat \<Rightarrow> model_gate \<Rightarrow> host_state \<Rightarrow> host_state" where
  "next_checked act chain i g s =
     (let s1 = take_task (Checking_next act chain i) s in
      if \<not> honoured g then s1
      else add_task (Creating_next act chain i (case mg_resolved g of Some r \<Rightarrow> r | None \<Rightarrow> chain ! (i + 1))) s1)"

definition next_failed :: "string \<Rightarrow> string list \<Rightarrow> nat \<Rightarrow> string \<Rightarrow> host_state \<Rightarrow> host_state" where
  "next_failed act chain i resolved_model s = take_task (Creating_next act chain i resolved_model) s"

text \<open>The old session goes, the record moves to the new one and its turn runs.\<close>

definition next_created :: "host_env \<Rightarrow> string \<Rightarrow> string list \<Rightarrow> nat \<Rightarrow> string \<Rightarrow> nat \<Rightarrow> host_state \<Rightarrow> host_state" where
  "next_created e act chain i resolved_model n s =
     (let s1 = take_task (Creating_next act chain i resolved_model) s in
      case map_get (hs_objects s) act of
        None \<Rightarrow> s1
      | Some a \<Rightarrow>
          let sn = (ac_snapshot a)\<lparr>sn_resolved := resolved_model, sn_session := n, sn_state := Act_starting, sn_lastActivity := he_now e\<rparr>;
              s2 = dispose_session (ac_session a) s1 in
          add_task (Running act n (Some (chain, i + 1)))
            (save sn (put_object act (a\<lparr>ac_snapshot := sn, ac_session := n, ac_listens := Some n\<rparr>)
              (s2\<lparr>hs_open := hs_open s2 @ [n]\<rparr>))))"

section \<open>Stopping\<close>

definition stop_begin :: "string \<Rightarrow> host_state \<Rightarrow> host_state" where
  "stop_begin act s =
     (case fleet_get s act of
        None \<Rightarrow> s
      | Some a \<Rightarrow> add_task (Aborting act) (put_object act (a\<lparr>ac_snapshot := (ac_snapshot a)\<lparr>sn_state := Act_stopping\<rparr>\<rparr>) s))"

text \<open>The \<open>finally\<close> block, whether the abort threw or not.\<close>

definition stop_end :: "host_env \<Rightarrow> string \<Rightarrow> host_state \<Rightarrow> host_state" where
  "stop_end e act s =
     (let s1 = take_task (Aborting act) s in
      case map_get (hs_objects s) act of
        None \<Rightarrow> s1
      | Some a \<Rightarrow>
          let a1 = a\<lparr>ac_snapshot := (ac_snapshot a)\<lparr>sn_state := Act_stopped\<rparr>, ac_listens := None\<rparr>;
              s2 = releaseIfWriter e act (forget act (put_object act a1 (dispose_session (ac_session a) s1))) in
          s2\<lparr>hs_fleet := removeAll act (hs_fleet s2)\<rparr>)"

section \<open>New attempts\<close>

text \<open>The attempt is taken: its lease, its id, its state.\<close>

definition new_attempt :: "host_env \<Rightarrow> string \<Rightarrow> int option \<Rightarrow> activation \<Rightarrow> host_state \<Rightarrow> (host_refusal + activation) \<times> host_state" where
  "new_attempt e act activity a s =
     (let sn = ac_snapshot a; attempt = nextAttemptId (sn_attempt sn) in
      case take_lease e (sn_writes sn) (lease_request (sn_workspace sn) act attempt (sn_specialist sn)) (hs_leases s) of
        (Inl err, leases) \<Rightarrow> (Inl (Lease_refused err), s\<lparr>hs_leases := leases\<rparr>)
      | (Inr _, leases) \<Rightarrow>
          let sn1 = sn\<lparr>sn_attempt := attempt, sn_state := Act_starting,
                sn_lastActivity := (case activity of Some t \<Rightarrow> t | None \<Rightarrow> sn_lastActivity sn)\<rparr>;
              a1 = a\<lparr>ac_snapshot := sn1\<rparr> in
          (Inr a1, save sn1 (put_object act a1 (s\<lparr>hs_leases := leases\<rparr>))))"

text \<open>The turn of the attempt runs on the session the record has.\<close>

definition run_on_session :: "string \<Rightarrow> activation \<Rightarrow> host_state \<Rightarrow> host_state" where
  "run_on_session act a s =
     add_task (Running act (ac_session a) None) (put_object act (a\<lparr>ac_listens := Some (ac_session a)\<rparr>) s)"

definition resume :: "host_env \<Rightarrow> string \<Rightarrow> host_state \<Rightarrow> (host_refusal + unit) \<times> host_state" where
  "resume e act s =
     (case fleet_get s act of
        None \<Rightarrow> (Inl (Refused_for ''unknown_activation''), s)
      | Some a \<Rightarrow>
          if sn_state (ac_snapshot a) \<notin> set RESUMABLE_STATES then (Inl (Refused_for ''not_resumable''), s)
          else
            (case new_attempt e act None a s of
               (Inl err, s1) \<Rightarrow> (Inl err, s1)
             | (Inr a1, s1) \<Rightarrow> (Inr (), run_on_session act a1 s1)))"

text \<open>The rest of \<open>retry\<close> once an override, if there is one, has passed the gate.\<close>

definition retry_go :: "host_env \<Rightarrow> string \<Rightarrow> (string \<times> string) option \<Rightarrow> host_state \<Rightarrow> (host_refusal + unit) \<times> host_state" where
  "retry_go e act override s =
     (case map_get (hs_objects s) act of
        None \<Rightarrow> (Inl (Refused_for ''unknown_activation''), s)
      | Some a \<Rightarrow>
          (case new_attempt e act (Some (he_now e)) a s of
             (Inl err, s1) \<Rightarrow> (Inl err, s1)
           | (Inr a1, s1) \<Rightarrow>
               (Inr (), case override of
                  None \<Rightarrow> run_on_session act a1 s1
                | Some (name, resolved_model) \<Rightarrow> add_task (Retry_creating act (sn_attempt (ac_snapshot a1)) name resolved_model) s1)))"

definition retry_begin :: "host_env \<Rightarrow> string \<Rightarrow> string option \<Rightarrow> host_state \<Rightarrow> (host_refusal + unit) \<times> host_state" where
  "retry_begin e act override s =
     (case fleet_get s act of
        None \<Rightarrow> (Inl (Refused_for ''unknown_activation''), s)
      | Some a \<Rightarrow>
          if sn_state (ac_snapshot a) \<notin> set RETRYABLE_STATES then (Inl (Refused_for ''not_resumable''), s)
          else if truthy override then (Inr (), add_task (Retry_checking act (the override)) s)
          else retry_go e act None s)"

definition retry_checked :: "host_env \<Rightarrow> string \<Rightarrow> string \<Rightarrow> model_gate \<Rightarrow> host_state \<Rightarrow> (host_refusal + unit) \<times> host_state" where
  "retry_checked e act name g s =
     (let s1 = take_task (Retry_checking act name) s in
      if \<not> honoured g then (Inl (Refused_for ''model_unavailable''), s1)
      else retry_go e act (Some (name, case mg_resolved g of Some r \<Rightarrow> r | None \<Rightarrow> name)) s1)"

definition retry_created :: "string \<Rightarrow> string \<Rightarrow> string \<Rightarrow> string \<Rightarrow> nat \<Rightarrow> host_state \<Rightarrow> host_state" where
  "retry_created act attempt name resolved_model n s =
     (let s1 = take_task (Retry_creating act attempt name resolved_model) s in
      case map_get (hs_objects s) act of
        None \<Rightarrow> s1
      | Some a \<Rightarrow>
          let s2 = dispose_session (ac_session a) s1;
              sn = (ac_snapshot a)\<lparr>sn_requested := name, sn_resolved := resolved_model, sn_override := True, sn_session := n\<rparr> in
          run_on_session act (a\<lparr>ac_snapshot := sn, ac_session := n\<rparr>) (s2\<lparr>hs_open := hs_open s2 @ [n]\<rparr>))"

definition retry_failed :: "string \<Rightarrow> string \<Rightarrow> string \<Rightarrow> string \<Rightarrow> host_state \<Rightarrow> host_state" where
  "retry_failed act attempt name resolved_model s = take_task (Retry_creating act attempt name resolved_model) s"

section \<open>Tool calls\<close>

definition host_admits :: "host_env \<Rightarrow> string \<Rightarrow> string \<Rightarrow> host_state \<Rightarrow> admission_verdict" where
  "host_admits e act toolName s =
     (case fleet_get s act of
        None \<Rightarrow> \<lparr>allow = False, reason = Some (''unknown activation '' @ act)\<rparr>
      | Some a \<Rightarrow> admitToolCall (he_host e) (he_probe e) (hs_leases s) toolName (sn_workspace (ac_snapshot a)) act)"

section \<open>Every order of operations\<close>

text \<open>
  \<open>own_turn h s s'\<close>: one synchronous stretch of the host; \<open>host_turn h s s'\<close>: one such, or any
  change of the lease store by others that creates no lease in the name of this host's
  activations. Ids of activations are fresh; the probe and the clock are whatever they are at
  each turn.
\<close>

definition fresh_activation :: "string \<Rightarrow> host_state \<Rightarrow> bool" where
  "fresh_activation act s \<longleftrightarrow> \<not> map_has (hs_dispatched s) act
     \<and> (\<forall>path l. hs_leases s path = Some (Record l) \<longrightarrow> activationId l \<noteq> act)"

inductive own_turn :: "host \<Rightarrow> host_state \<Rightarrow> host_state \<Rightarrow> bool" for h where
  t_start: "he_host e = h \<Longrightarrow> fresh_activation act s \<Longrightarrow> start_begin e d q act s = (res, s') \<Longrightarrow> own_turn h s s'"
| t_first_created: "he_host e = h \<Longrightarrow> Creating_first plan \<in> set (hs_tasks s) \<Longrightarrow> own_turn h s (first_created e plan n s)"
| t_first_failed: "Creating_first plan \<in> set (hs_tasks s) \<Longrightarrow> own_turn h s (first_failed plan s)"
| t_event: "he_host e = h \<Longrightarrow> own_turn h s (onSessionEvent e act n ev s)"
| t_asked: "own_turn h s (ask_raised esc act s)"
| t_answered: "own_turn h s (ask_answered act s)"
| t_turn_ends: "he_host e = h \<Longrightarrow> Running act n walk \<in> set (hs_tasks s) \<Longrightarrow> own_turn h s (turn_ends e act n walk out s)"
| t_next_checked: "Checking_next act chain i \<in> set (hs_tasks s) \<Longrightarrow> own_turn h s (next_checked act chain i g s)"
| t_next_failed: "Creating_next act chain i m \<in> set (hs_tasks s) \<Longrightarrow> own_turn h s (next_failed act chain i m s)"
| t_next_created: "he_host e = h \<Longrightarrow> Creating_next act chain i m \<in> set (hs_tasks s) \<Longrightarrow> own_turn h s (next_created e act chain i m n s)"
| t_stop_begin: "own_turn h s (stop_begin act s)"
| t_stop_end: "he_host e = h \<Longrightarrow> Aborting act \<in> set (hs_tasks s) \<Longrightarrow> own_turn h s (stop_end e act s)"
| t_resume: "he_host e = h \<Longrightarrow> resume e act s = (res2, s') \<Longrightarrow> own_turn h s s'"
| t_retry: "he_host e = h \<Longrightarrow> retry_begin e act override s = (res2, s') \<Longrightarrow> own_turn h s s'"
| t_retry_checked: "he_host e = h \<Longrightarrow> Retry_checking act name \<in> set (hs_tasks s) \<Longrightarrow>
    retry_checked e act name g s = (res2, s') \<Longrightarrow> own_turn h s s'"
| t_retry_created: "Retry_creating act attempt name m \<in> set (hs_tasks s) \<Longrightarrow> own_turn h s (retry_created act attempt name m n s)"
| t_retry_failed: "Retry_creating act attempt name m \<in> set (hs_tasks s) \<Longrightarrow> own_turn h s (retry_failed act attempt name m s)"

inductive host_turn :: "host \<Rightarrow> host_state \<Rightarrow> host_state \<Rightarrow> bool" for h where
  t_own: "own_turn h s s' \<Longrightarrow> host_turn h s s'"
| t_others: "(\<And>path l. leases path = Some (Record l) \<Longrightarrow> map_has (hs_dispatched s) (activationId l) \<Longrightarrow> hs_leases s path = Some (Record l)) \<Longrightarrow>
    host_turn h s (s\<lparr>hs_leases := leases\<rparr>)"

inductive host_reach :: "host \<Rightarrow> host_state \<Rightarrow> bool" for h where
  reach_start: "host_reach h (empty_fleet leases)"
| reach_turn: "host_reach h s \<Longrightarrow> host_turn h s s' \<Longrightarrow> host_reach h s'"

end
