(* ===== verification/Host_Invariant.thy ===== *)
theory Host_Invariant imports Activation_Host begin

text \<open>
  What every order of operations of the activation host keeps: no attempt, fallback, stop or
  retry changes the access or the workspace of an activation, and the leases on disk in the
  name of an activation of this host are those it was dispatched for.
\<close>

section \<open>What the host keeps\<close>

definition fixed_part :: "activation \<Rightarrow> string \<times> bool \<times> workspace_identity" where
  "fixed_part a = (sn_activation (ac_snapshot a), sn_writes (ac_snapshot a), sn_workspace (ac_snapshot a))"

text \<open>No activation changes its access or workspace, no lease appears, none of an activation
  without an object goes, and no dispatch begins.\<close>

definition keeps :: "host_state \<Rightarrow> host_state \<Rightarrow> bool" where
  "keeps s s' \<longleftrightarrow> hs_dispatched s' = hs_dispatched s
     \<and> (\<forall>path. hs_leases s' path = hs_leases s path \<or> hs_leases s' path = None)
     \<and> (\<forall>act. map_option fixed_part (map_get (hs_objects s') act) = map_option fixed_part (map_get (hs_objects s) act))
     \<and> (\<forall>plan. Creating_first plan \<in> set (hs_tasks s') \<longrightarrow> Creating_first plan \<in> set (hs_tasks s))
     \<and> (\<forall>path l. hs_leases s path = Some (Record l) \<and> map_get (hs_objects s) (activationId l) = None
          \<longrightarrow> hs_leases s' path = Some (Record l))"

lemma keeps_refl [simp, intro]: "keeps s s"
  by (simp add: keeps_def)

lemma keeps_objects: "keeps s s' \<Longrightarrow> map_option fixed_part (map_get (hs_objects s') act) = map_option fixed_part (map_get (hs_objects s) act)"
  unfolding keeps_def by blast

lemma keeps_no_object: "keeps s s' \<Longrightarrow> map_get (hs_objects s') act = None \<longleftrightarrow> map_get (hs_objects s) act = None"
  using keeps_objects [of s s' act] by (auto simp: map_option_case split: option.splits)

lemma keeps_trans [trans]:
  assumes "keeps s s1" and "keeps s1 s2"
  shows "keeps s s2"
proof -
  have "hs_leases s2 path = hs_leases s path \<or> hs_leases s2 path = None" for path
    using assms unfolding keeps_def by metis
  moreover have "hs_leases s2 path = Some (Record l)"
    if "hs_leases s path = Some (Record l)" "map_get (hs_objects s) (activationId l) = None" for path l
    using assms that keeps_no_object [OF assms(1)] unfolding keeps_def by metis
  ultimately show ?thesis using assms unfolding keeps_def by auto
qed

lemma keeps_put: "map_get (hs_objects s) act = Some a \<Longrightarrow> fixed_part a' = fixed_part a \<Longrightarrow> keeps s (put_object act a' s)"
  by (simp add: keeps_def put_object_def map_get_set)

lemma keeps_small [intro]:
  "keeps s (save sn s)" "keeps s (forget act s)" "keeps s (dispose_session n s)" "keeps s (take_task t s)"
  "(\<And>plan. t \<noteq> Creating_first plan) \<Longrightarrow> keeps s (add_task t s)"
  by (auto simp: keeps_def save_def forget_def dispose_session_def take_task_def add_task_def dest: set_remove1_subset [THEN subsetD])

lemma objects_small [simp]:
  "hs_objects (save sn s) = hs_objects s" "hs_objects (forget act s) = hs_objects s"
  "hs_objects (dispose_session n s) = hs_objects s" "hs_objects (take_task t s) = hs_objects s"
  "hs_objects (add_task t s) = hs_objects s" "hs_objects (put_object act a s) = map_set (hs_objects s) act a"
  by (simp_all add: save_def forget_def dispose_session_def take_task_def add_task_def put_object_def)

lemma keeps_move [intro]: "keeps s (move_to st act s)"
proof (cases "map_get (hs_objects s) act")
  case (Some a)
  let ?a = "a\<lparr>ac_snapshot := (ac_snapshot a)\<lparr>sn_state := st\<rparr>\<rparr>"
  have "keeps s (put_object act ?a s)" by (rule keeps_put [OF Some]) (simp add: fixed_part_def)
  also have "keeps \<dots> (save (ac_snapshot ?a) (put_object act ?a s))" by (rule keeps_small)
  finally show ?thesis by (simp add: move_to_def Some Let_def)
qed (simp add: move_to_def)

lemma keeps_touch [intro]: "keeps s (touch now act s)"
  by (auto simp: touch_def fixed_part_def intro: keeps_put split: option.split)

lemma release_shrinks_store: "snd (release h p w act s) path = s path \<or> snd (release h p w act s) path = None"
  by (simp add: release_def split: sum.splits)

text \<open>A release removes nobody else's record.\<close>

lemma release_own_record: "s path = Some (Record l) \<Longrightarrow> activationId l \<noteq> act \<Longrightarrow> snd (release h p w act s) path = Some (Record l)"
  by (cases "path = leasePath h w")
     (auto simp: release_def release_check_def inspect_def inspect_file_def Let_def split: sum.splits option.splits lease_file.splits if_splits)

lemma keeps_release [intro]: "keeps s (releaseIfWriter e act s)"
proof (cases "map_get (hs_objects s) act")
  case (Some a)
  then have "activationId l \<noteq> act" if "map_get (hs_objects s) (activationId l) = None" for l
    using that by auto
  then have "snd (release h p w act (hs_leases s)) path = Some (Record l)"
    if "hs_leases s path = Some (Record l)" "map_get (hs_objects s) (activationId l) = None" for h p w path l
    using that by (intro release_own_record) auto
  then show ?thesis
    using Some release_shrinks_store by (auto simp: releaseIfWriter_def keeps_def)
qed (auto simp: releaseIfWriter_def)

lemma keeps_event: "keeps s (onSessionEvent e act n ev s)"
proof -
  note touched = keeps_touch [of s "he_now e" act]
  show ?thesis
    by (cases "map_get (hs_objects s) act"; cases ev)
       (auto simp: onSessionEvent_def Let_def intro: keeps_trans touched keeps_trans [OF touched keeps_move]
          keeps_trans [OF keeps_trans [OF touched keeps_move] keeps_release])
qed

lemma keeps_turn_ends: "keeps s (turn_ends e act n walk out s)"
proof -
  let ?s1 = "take_task (Running act n walk) s"
  have one: "keeps s (move_to st act ?s1)" for st by (rule keeps_trans [OF _ keeps_move]) (rule keeps_small)
  show ?thesis
  proof (cases out)
    case (Completed x)
    then show ?thesis using keeps_trans [OF one keeps_release] by (simp add: turn_ends_def Let_def)
  next
    case (Failed_turn d)
    have "keeps s (add_task (Checking_next act chain i) (move_to Act_failed act ?s1))" for chain i
      by (rule keeps_trans [OF one]) (rule keeps_small, simp)
    then show ?thesis using Failed_turn one by (auto simp: turn_ends_def Let_def split: option.split)
  qed
qed

lemma keeps_next: "keeps s (next_checked act chain i g s)" "keeps s (next_failed act chain i m s)"
proof -
  have t: "keeps s (take_task (Checking_next act chain i) s)" by (rule keeps_small)
  have "keeps s (add_task (Creating_next act chain i m) (take_task (Checking_next act chain i) s))" for m
    by (rule keeps_trans [OF t]) (rule keeps_small, simp)
  then show "keeps s (next_checked act chain i g s)" using t by (simp add: next_checked_def Let_def)
  show "keeps s (next_failed act chain i m s)" unfolding next_failed_def by (rule keeps_small)
qed
lemma keeps_opened [intro]: "keeps s (s\<lparr>hs_open := ns\<rparr>)" "keeps s (s\<lparr>hs_fleet := acts\<rparr>)"
  by (simp_all add: keeps_def)

lemma keeps_run: "map_get (hs_objects s) act = Some a0 \<Longrightarrow> fixed_part a = fixed_part a0 \<Longrightarrow> keeps s (run_on_session act a s)"
proof -
  let ?a = "a\<lparr>ac_listens := Some (ac_session a)\<rparr>"
  assume "map_get (hs_objects s) act = Some a0" and "fixed_part a = fixed_part a0"
  then have "keeps s (put_object act ?a s)" by (intro keeps_put) (simp_all add: fixed_part_def)
  also have "keeps \<dots> (add_task (Running act (ac_session a) None) (put_object act ?a s))" by (rule keeps_small) simp
  finally show ?thesis by (simp add: run_on_session_def)
qed

lemma keeps_next_created: "keeps s (next_created e act chain i m n s)"
proof (cases "map_get (hs_objects s) act")
  case None
  then show ?thesis by (auto simp: next_created_def)
next
  case (Some a)
  let ?t = "Creating_next act chain i m"
  let ?sn = "(ac_snapshot a)\<lparr>sn_resolved := m, sn_session := n, sn_state := Act_starting, sn_lastActivity := he_now e\<rparr>"
  let ?s2 = "dispose_session (ac_session a) (take_task ?t s)"
  let ?s3 = "?s2\<lparr>hs_open := hs_open ?s2 @ [n]\<rparr>"
  let ?s4 = "put_object act (a\<lparr>ac_snapshot := ?sn, ac_session := n, ac_listens := Some n\<rparr>) ?s3"
  have "keeps s (take_task ?t s)" by (rule keeps_small)
  also have "keeps \<dots> ?s2" by (rule keeps_small)
  also have "keeps \<dots> ?s3" by (rule keeps_opened)
  also have "keeps \<dots> ?s4" using Some by (intro keeps_put) (simp_all add: fixed_part_def)
  also have "keeps \<dots> (save ?sn ?s4)" by (rule keeps_small)
  also have "keeps \<dots> (add_task (Running act n (Some (chain, i + 1))) (save ?sn ?s4))" by (rule keeps_small) simp
  finally show ?thesis by (simp add: next_created_def Some Let_def)
qed

lemma keeps_stop_begin: "keeps s (stop_begin act s)"
proof (cases "fleet_get s act")
  case (Some a)
  let ?s1 = "put_object act (a\<lparr>ac_snapshot := (ac_snapshot a)\<lparr>sn_state := Act_stopping\<rparr>\<rparr>) s"
  have "keeps s ?s1" using Some by (intro keeps_put) (auto simp: fixed_part_def fleet_get_def split: if_splits)
  also have "keeps \<dots> (add_task (Aborting act) ?s1)" by (rule keeps_small) simp
  finally show ?thesis by (simp add: stop_begin_def Some)
qed (simp add: stop_begin_def)

lemma keeps_stop_end: "keeps s (stop_end e act s)"
proof (cases "map_get (hs_objects s) act")
  case None
  then show ?thesis by (auto simp: stop_end_def)
next
  case (Some a)
  let ?s2 = "dispose_session (ac_session a) (take_task (Aborting act) s)"
  let ?s3 = "put_object act (a\<lparr>ac_snapshot := (ac_snapshot a)\<lparr>sn_state := Act_stopped\<rparr>, ac_listens := None\<rparr>) ?s2"
  have "keeps s (take_task (Aborting act) s)" by (rule keeps_small)
  also have "keeps \<dots> ?s2" by (rule keeps_small)
  also have "keeps \<dots> ?s3" using Some by (intro keeps_put) (simp_all add: fixed_part_def)
  also have "keeps \<dots> (forget act ?s3)" by (rule keeps_small)
  also have "keeps \<dots> (releaseIfWriter e act (forget act ?s3))" by (rule keeps_release)
  also have "keeps \<dots> ((releaseIfWriter e act (forget act ?s3))
      \<lparr>hs_fleet := removeAll act (hs_fleet (releaseIfWriter e act (forget act ?s3)))\<rparr>)" by (rule keeps_opened)
  finally show ?thesis by (simp add: stop_end_def Some Let_def)
qed

lemma keeps_retry_created: "keeps s (retry_created act attempt name m n s)"
proof (cases "map_get (hs_objects s) act")
  case None
  then show ?thesis by (auto simp: retry_created_def)
next
  case (Some a)
  let ?s2 = "dispose_session (ac_session a) (take_task (Retry_creating act attempt name m) s)"
  let ?s3 = "?s2\<lparr>hs_open := hs_open ?s2 @ [n]\<rparr>"
  let ?a = "a\<lparr>ac_snapshot := (ac_snapshot a)\<lparr>sn_requested := name, sn_resolved := m, sn_override := True, sn_session := n\<rparr>, ac_session := n\<rparr>"
  have "keeps s (take_task (Retry_creating act attempt name m) s)" by (rule keeps_small)
  also have "keeps \<dots> ?s2" by (rule keeps_small)
  also have "keeps \<dots> ?s3" by (rule keeps_opened)
  also have "keeps \<dots> (run_on_session act ?a ?s3)" using Some by (intro keeps_run) (simp_all add: fixed_part_def)
  finally show ?thesis by (simp add: retry_created_def Some Let_def)
qed

lemma keeps_ask: "keeps s (ask_raised esc act s)" "keeps s (ask_answered act s)"
  by (auto simp: ask_raised_def ask_answered_def)

section \<open>What every order of operations keeps\<close>

definition host_inv :: "host \<Rightarrow> host_state \<Rightarrow> bool" where
  "host_inv h s \<longleftrightarrow>
     (\<forall>path l wr w. hs_leases s path = Some (Record l) \<and> map_get (hs_dispatched s) (activationId l) = Some (wr, w)
        \<longrightarrow> wr \<and> path = leasePath h w)
   \<and> (\<forall>act a. map_get (hs_objects s) act = Some a
        \<longrightarrow> (\<exists>wr w. map_get (hs_dispatched s) act = Some (wr, w) \<and> fixed_part a = (act, wr, w)))
   \<and> (\<forall>plan. Creating_first plan \<in> set (hs_tasks s)
        \<longrightarrow> map_get (hs_dispatched s) (sp_activation plan) = Some (sp_writes plan, sp_workspace plan))"

lemma host_inv_lease:
  "host_inv h s \<Longrightarrow> hs_leases s path = Some (Record l) \<Longrightarrow> map_get (hs_dispatched s) (activationId l) = Some (wr, w) \<Longrightarrow>
     wr \<and> path = leasePath h w"
  unfolding host_inv_def by blast

lemma host_inv_object:
  "host_inv h s \<Longrightarrow> map_get (hs_objects s) act = Some a \<Longrightarrow>
     \<exists>wr w. map_get (hs_dispatched s) act = Some (wr, w) \<and> fixed_part a = (act, wr, w)"
  unfolding host_inv_def by blast

lemma host_inv_plan:
  "host_inv h s \<Longrightarrow> Creating_first plan \<in> set (hs_tasks s) \<Longrightarrow>
     map_get (hs_dispatched s) (sp_activation plan) = Some (sp_writes plan, sp_workspace plan)"
  unfolding host_inv_def by blast

lemma keeps_inv:
  assumes "keeps s s'" and inv: "host_inv h s"
  shows "host_inv h s'"
proof -
  have k: "hs_dispatched s' = hs_dispatched s"
    "\<And>path f. hs_leases s' path = Some f \<Longrightarrow> hs_leases s path = Some f"
    "\<And>act. map_option fixed_part (map_get (hs_objects s') act) = map_option fixed_part (map_get (hs_objects s) act)"
    "\<And>plan. Creating_first plan \<in> set (hs_tasks s') \<Longrightarrow> Creating_first plan \<in> set (hs_tasks s)"
    using assms(1) unfolding keeps_def by (blast, metis option.distinct(1), blast, blast)
  have "\<exists>wr w. map_get (hs_dispatched s) act = Some (wr, w) \<and> fixed_part a = (act, wr, w)"
    if "map_get (hs_objects s') act = Some a" for act a
  proof -
    from k(3) [of act] that obtain a0 where "map_get (hs_objects s) act = Some a0" "fixed_part a0 = fixed_part a"
      by (auto simp: option.map_sel split: option.splits dest: sym)
    then show ?thesis using host_inv_object [OF inv] by metis
  qed
  then show ?thesis
    unfolding host_inv_def k(1)
    using host_inv_lease [OF inv] host_inv_plan [OF inv] k(2,4) by blast
qed
text \<open>What a lease taken does to the store: nothing but a record at the path of the workspace.\<close>

lemma take_lease_store:
  assumes "take_lease e writes r s = (res, s')"
  shows "s' = s \<or> writes \<and> res = Inr () \<and>
    (\<exists>l. s' = s(leasePath (he_host e) (req_workspace r) \<mapsto> Record l) \<and> activationId l = req_activation r)"
proof (cases "writes")
  case False
  then show ?thesis using assms by (simp add: take_lease_def)
next
  case True
  obtain x s1 where a: "acquire (he_host e) (he_probe e) (he_now e) r s = (x, s1)" by (rule prod.exhaust)
  then show ?thesis
    using assms True acquire_Inl_store [of "he_host e" "he_probe e" "he_now e" r s _ s1]
      acquire_Inr_post [of "he_host e" "he_probe e" "he_now e" r s _ s1]
    by (cases x) (auto simp: take_lease_def)
qed

lemma inv_leases:
  assumes inv: "host_inv h s" and h: "he_host e = h" and disp: "map_get (hs_dispatched s) act = Some (writes, w)"
    and "take_lease e writes (lease_request w act attempt sp) (hs_leases s) = (res, leases)"
  shows "host_inv h (s\<lparr>hs_leases := leases\<rparr>)"
proof -
  from take_lease_store [OF assms(4)]
  consider "leases = hs_leases s" | l where "writes" "leases = (hs_leases s)(leasePath h w \<mapsto> Record l)" "activationId l = act"
    by (auto simp: h lease_request_def)
  then show ?thesis
  proof cases
    case 1
    then show ?thesis using inv by simp
  next
    case 2
    then show ?thesis using disp host_inv_lease [OF inv] host_inv_object [OF inv] host_inv_plan [OF inv]
      by (auto simp: host_inv_def)
  qed
qed

text \<open>A dispatch of a fresh activation.\<close>

lemma inv_dispatch:
  assumes inv: "host_inv h s" and fresh: "fresh_activation act s"
  shows "host_inv h (s\<lparr>hs_dispatched := map_set (hs_dispatched s) act (writes, w)\<rparr>)"
proof -
  have none: "map_get (hs_dispatched s) act = None"
    using fresh by (cases "map_get (hs_dispatched s) act") (auto simp: fresh_activation_def map_has_def)
  have l: "hs_leases s path = Some (Record l) \<Longrightarrow> activationId l \<noteq> act" for path l
    using fresh by (simp add: fresh_activation_def)
  have "map_get (hs_objects s) act = None"
    using host_inv_object [OF inv, of act] none by fastforce
  moreover have "Creating_first plan \<in> set (hs_tasks s) \<Longrightarrow> sp_activation plan \<noteq> act" for plan
    using host_inv_plan [OF inv] none by fastforce
  ultimately show ?thesis
    using l inv unfolding host_inv_def by (fastforce simp: map_get_set)
qed

lemma gates_activation: "start_gates d q act = Inr (plan, tools) \<Longrightarrow> sp_activation plan = act"
  by (auto simp: start_gates_def Let_def split: sum.splits option.splits if_splits prod.splits)

lemma inv_start:
  assumes inv: "host_inv h s" and h: "he_host e = h" and fresh: "fresh_activation act s"
    and "start_begin e d q act s = (res, s')"
  shows "host_inv h s'"
proof (cases "start_gates d q act")
  case (Inl why)
  then show ?thesis using assms by (simp add: start_begin_def)
next
  case (Inr pt)
  obtain plan tools where pt: "pt = (plan, tools)" by (rule prod.exhaust)
  let ?r = "lease_request (sp_workspace plan) act (first_attempt act) (rq_specialist q)"
  let ?d = "s\<lparr>hs_dispatched := map_set (hs_dispatched s) act (sp_writes plan, sp_workspace plan)\<rparr>"
  obtain x leases where tl: "take_lease e (sp_writes plan) ?r (hs_leases s) = (x, leases)" by (rule prod.exhaust)
  have plan: "sp_activation plan = act" using gates_activation Inr pt by blast
  have "host_inv h ?d" by (rule inv_dispatch [OF inv fresh])
  then have post: "host_inv h (?d\<lparr>hs_leases := leases\<rparr>)"
    by (rule inv_leases [OF _ h]) (use tl in \<open>simp_all add: map_get_set\<close>)
  have add: "host_inv h (add_task (Creating_first plan) t)"
    if "host_inv h t" "map_get (hs_dispatched t) act = Some (sp_writes plan, sp_workspace plan)" for t
    using that plan by (auto simp: host_inv_def add_task_def)
  have swap: "s\<lparr>hs_leases := leases, hs_dispatched := map_set (hs_dispatched s) act (sp_writes plan, sp_workspace plan)\<rparr>
      = ?d\<lparr>hs_leases := leases\<rparr>" by simp
  show ?thesis
  proof (cases x)
    case (Inl err)
    then have "leases = hs_leases s" using take_lease_store [OF tl] by auto
    then show ?thesis using assms(4) Inr pt tl Inl inv by (auto simp: start_begin_def)
  next
    case r: (Inr u)
    have "host_inv h (add_task (Creating_first plan) (?d\<lparr>hs_leases := leases\<rparr>))"
      by (rule add [OF post]) (simp add: map_get_set)
    then show ?thesis using assms(4) Inr pt tl r post by (auto simp: start_begin_def Let_def swap split: if_splits)
  qed
qed

lemma inv_first_created:
  assumes inv: "host_inv h s" and plan: "Creating_first plan \<in> set (hs_tasks s)"
  shows "host_inv h (first_created e plan n s)"
proof -
  note p = host_inv_plan [OF inv plan]
  have sub: "Creating_first pl \<in> set (remove1 t (hs_tasks s)) \<Longrightarrow> Creating_first pl \<in> set (hs_tasks s)" for pl t
    by (auto dest: set_remove1_subset [THEN subsetD])
  show ?thesis
    using p host_inv_lease [OF inv] host_inv_object [OF inv] host_inv_plan [OF inv] sub
    by (auto simp: host_inv_def first_created_def Let_def add_task_def save_def put_object_def take_task_def map_get_set fixed_part_def)
qed

lemma inv_attempt:
  assumes inv: "host_inv h s" and h: "he_host e = h" and a: "map_get (hs_objects s) act = Some a"
    and "new_attempt e act t a s = (res, s')"
  shows "host_inv h s' \<and> (\<forall>a1. res = Inr a1 \<longrightarrow> map_get (hs_objects s') act = Some a1)"
proof -
  let ?sn = "ac_snapshot a"
  let ?r = "lease_request (sn_workspace ?sn) act (nextAttemptId (sn_attempt ?sn)) (sn_specialist ?sn)"
  obtain x leases where tl: "take_lease e (sn_writes ?sn) ?r (hs_leases s) = (x, leases)" by (rule prod.exhaust)
  have "map_get (hs_dispatched s) act = Some (sn_writes ?sn, sn_workspace ?sn)"
    using host_inv_object [OF inv a] by (auto simp: fixed_part_def)
  then have l: "host_inv h (s\<lparr>hs_leases := leases\<rparr>)" by (rule inv_leases [OF inv h _ tl])
  show ?thesis
  proof (cases x)
    case (Inl err)
    then show ?thesis using assms(4) tl l by (auto simp: new_attempt_def Let_def)
  next
    case (Inr u)
    let ?s1 = "s\<lparr>hs_leases := leases\<rparr>"
    have "host_inv h (save sn (put_object act a1 ?s1))" if "fixed_part a1 = fixed_part a" for sn a1
    proof (rule keeps_inv [OF _ l])
      have "keeps ?s1 (put_object act a1 ?s1)" using a that by (intro keeps_put) simp_all
      also have "keeps \<dots> (save sn (put_object act a1 ?s1))" by (rule keeps_small)
      finally show "keeps ?s1 (save sn (put_object act a1 ?s1))" .
    qed
    then show ?thesis using assms(4) tl Inr
      by (auto simp: new_attempt_def Let_def fixed_part_def map_get_set)
  qed
qed

lemma inv_retry_go:
  assumes inv: "host_inv h s" and h: "he_host e = h" and "retry_go e act override s = (res, s')"
  shows "host_inv h s'"
proof (cases "map_get (hs_objects s) act")
  case None
  then show ?thesis using assms by (simp add: retry_go_def)
next
  case (Some a)
  obtain x s1 where na: "new_attempt e act (Some (he_now e)) a s = (x, s1)" by (rule prod.exhaust)
  note post = inv_attempt [OF inv h Some na]
  have run: "host_inv h (run_on_session act a1 s1)" "host_inv h (add_task (Retry_creating act att nm m) s1)"
    if "x = Inr a1" for a1 att nm m
    using post that by (auto intro: keeps_inv keeps_run keeps_inv [OF keeps_small(5)])
  show ?thesis
  proof (cases x)
    case (Inl err)
    then show ?thesis using assms(3) Some na post by (auto simp: retry_go_def)
  next
    case (Inr a1)
    then show ?thesis using assms(3) Some na run [OF Inr] by (auto simp: retry_go_def split: option.splits)
  qed
qed
lemma inv_resume:
  assumes inv: "host_inv h s" and h: "he_host e = h" and "resume e act s = (res, s')"
  shows "host_inv h s'"
proof (cases "fleet_get s act")
  case None
  then show ?thesis using assms by (simp add: resume_def)
next
  case (Some a)
  obtain x s1 where na: "new_attempt e act None a s = (x, s1)" by (rule prod.exhaust)
  from Some have "map_get (hs_objects s) act = Some a" by (simp add: fleet_get_def split: if_splits)
  note post = inv_attempt [OF inv h this na]
  show ?thesis
  proof (cases x)
    case (Inl err)
    then show ?thesis using assms(3) Some na post inv by (auto simp: resume_def split: if_splits)
  next
    case (Inr a1)
    then have "host_inv h (run_on_session act a1 s1)" using post by (auto intro: keeps_inv keeps_run)
    then show ?thesis using assms(3) Some na Inr inv by (auto simp: resume_def split: if_splits)
  qed
qed

lemma inv_retry:
  assumes inv: "host_inv h s" and h: "he_host e = h" and "retry_begin e act override s = (res, s')"
  shows "host_inv h s'"
proof -
  have "host_inv h (add_task (Retry_checking act m) s)" for m
    by (rule keeps_inv [OF _ inv]) (rule keeps_small, simp)
  then show ?thesis
    using assms inv_retry_go [OF inv h, of act None]
    by (auto simp: retry_begin_def split: option.splits if_splits)
qed

lemma inv_retry_checked:
  assumes inv: "host_inv h s" and h: "he_host e = h" and "retry_checked e act name g s = (res, s')"
  shows "host_inv h s'"
proof -
  have "host_inv h (take_task (Retry_checking act name) s)" by (rule keeps_inv [OF keeps_small(4) inv])
  then show ?thesis
    using assms(3) inv_retry_go [OF _ h, of "take_task (Retry_checking act name) s" act]
    by (auto simp: retry_checked_def Let_def split: if_splits)
qed

lemma inv_own_turn: "own_turn h s s' \<Longrightarrow> host_inv h s \<Longrightarrow> host_inv h s'"
proof (induction rule: own_turn.induct)
  case (t_turn_ends e act n walk s out)
  show ?case by (rule keeps_inv [OF keeps_turn_ends t_turn_ends.prems])
next
  case (t_next_checked act chain i s g)
  show ?case by (rule keeps_inv [OF keeps_next(1) t_next_checked.prems])
next
  case (t_next_created e act chain i m s n)
  show ?case by (rule keeps_inv [OF keeps_next_created t_next_created.prems])
next
  case (t_first_failed plan s)
  show ?case using keeps_inv [OF keeps_small(4) t_first_failed.prems] by (simp add: first_failed_def)
next
  case (t_retry_failed act attempt name m s)
  show ?case using keeps_inv [OF keeps_small(4) t_retry_failed.prems] by (simp add: retry_failed_def)
qed (blast intro: inv_start inv_first_created inv_resume inv_retry inv_retry_checked keeps_inv keeps_event keeps_ask
  keeps_next keeps_stop_begin keeps_stop_end keeps_retry_created)+

lemma inv_turn: "host_turn h s s' \<Longrightarrow> host_inv h s \<Longrightarrow> host_inv h s'"
proof (induction rule: host_turn.induct)
  case (t_others leases s)
  then have "hs_leases s path = Some (Record l)"
    if "leases path = Some (Record l)" "map_get (hs_dispatched s) (activationId l) = Some x" for path l x
    using that by (auto simp: map_has_def)
  then show ?case using t_others.prems unfolding host_inv_def by fastforce
qed (rule inv_own_turn)

lemma inv_empty: "host_inv h (empty_fleet leases)"
  by (simp add: host_inv_def empty_fleet_def)

lemma host_reach_inv: "host_reach h s \<Longrightarrow> host_inv h s"
  by (induction rule: host_reach.induct) (auto intro: inv_empty inv_turn)

lemma admitted_holds:
  assumes "host_reach h s" and "he_host e = h" and "isMutatingTool t" and "map_get (hs_dispatched s) act = Some (wr, w)"
    and "allow (admitToolCall h (he_probe e) (hs_leases s) t w' act)"
  shows "wr \<and> leasePath h w' = leasePath h w"
proof -
  from assms(3,5) have "held_by h (he_probe e) (hs_leases s) w' act" by (simp add: admit_iff)
  then obtain l where "hs_leases s (leasePath h w') = Some (Record l)" "activationId l = act"
    by (auto simp: held_by_def inspect_def inspect_file_def split: option.splits lease_file.splits if_splits)
  then show ?thesis using host_inv_lease [OF host_reach_inv [OF assms(1)]] assms(4) by blast
qed

end
