(* ===== verification/Host_Dispatch.thy ===== *)
theory Host_Dispatch imports Host_Invariant begin

text \<open>
  The dispatch, the new attempts and the stop of the activation host: when each is admitted
  and what it changes, and two ways the host loses what it holds: a dispatch that fails after
  it took its lease, and a stop that a walk over the models outlives.
\<close>

section \<open>Which dispatches are admitted\<close>

definition models_asked :: "start_request \<Rightarrow> specialist_def \<Rightarrow> string list" where
  "models_asked q sd = (case rq_model q of Some m \<Rightarrow> if m = [] then resolveModelChain (sd_execution sd) else [m]
                        | None \<Rightarrow> resolveModelChain (sd_execution sd))"

lemma chain_nonempty_names: "m \<in> set (resolveModelChain x) \<Longrightarrow> m \<noteq> []"
  by (auto simp: resolveModelChain_def distinct_dedupe resolveFallbackModels_def normalizeModel_def List.map_filter_def
      split: option.splits list.splits if_splits)

lemma walk_honoured:
  assumes "chain \<noteq> []"
  shows "honoured (snd (dispatch_walk check chain 0)) \<longleftrightarrow> (\<exists>m \<in> set chain. honoured (check m))"
proof -
  obtain n g where w: "dispatch_walk check chain 0 = (n, g)" by (rule prod.exhaust)
  note d = dispatch_walk_stops [OF _ w, simplified, OF assms]
  show ?thesis
  proof
    assume "\<exists>m \<in> set chain. honoured (check m)"
    then obtain j where "j < length chain" "honoured (check (chain ! j))" by (metis in_set_conv_nth)
    then show "honoured (snd (dispatch_walk check chain 0))"
      using w d by (cases "j < n"; cases "j = n") (auto simp: not_less)
  qed (use w d in auto)
qed

text \<open>The gates before the lease pass, with these tools.\<close>

definition gates_pass :: "dispatch_world \<Rightarrow> start_request \<Rightarrow> specialist_def \<Rightarrow> string list \<Rightarrow> bool" where
  "gates_pass d q sd tools \<longleftrightarrow>
     dw_specialist d = Inr (Some sd)
   \<and> (\<exists>bead. dw_bead d = Some bead \<and> evaluateBeadReadiness (dw_contract_state d) bead = Inr ())
   \<and> dw_tools d (tier_of sd) = Some tools \<and> tools \<noteq> [] \<and> dw_preflight d = None
   \<and> (\<forall>lv. rq_thinking q = Some lv \<longrightarrow> lv \<in> set THINKING_LEVELS)
   \<and> rq_model q \<noteq> Some []
   \<and> (\<exists>m \<in> set (models_asked q sd). honoured (validateModelAvailable (dw_models d) m))"

lemma models_asked_code: "rq_model q \<noteq> Some [] \<Longrightarrow>
    (if truthy (rq_model q) then [the (rq_model q)] else resolveModelChain (sd_execution sd)) = models_asked q sd"
  by (auto simp: models_asked_def truthy_def split: option.split)

lemma requested_truthy: "truthy (nullish (rq_model q) (case resolveModelChain x of m # ms \<Rightarrow> Some m | [] \<Rightarrow> None))
    \<longleftrightarrow> rq_model q \<noteq> Some [] \<and> (rq_model q = None \<longrightarrow> resolveModelChain x \<noteq> [])"
  using chain_nonempty_names [of _ x] by (cases "rq_model q") (auto simp: truthy_def split: list.split)

lemma gates_named: "start_gates d q act = Inr x \<Longrightarrow> rq_model q \<noteq> Some []"
  by (auto simp: start_gates_def Let_def truthy_def split: sum.splits option.splits if_splits)

definition workspace_asked :: "dispatch_world \<Rightarrow> start_request \<Rightarrow> workspace_identity" where
  "workspace_asked d q = (case rq_workspace q of Some w \<Rightarrow> w
     | None \<Rightarrow> \<lparr>repositoryRoot = dw_cwd d, gitCommonDir = None, worktreePath = dw_cwd d, branch = None\<rparr>)"

definition planned :: "dispatch_world \<Rightarrow> start_request \<Rightarrow> string \<Rightarrow> specialist_def \<Rightarrow> start_plan" where
  "planned d q act sd =
     (let chain = models_asked q sd in
      case dispatch_walk (validateModelAvailable (dw_models d)) chain 0 of (i, g) \<Rightarrow>
        \<lparr>sp_activation = act, sp_specialist = rq_specialist q, sp_bead = rq_bead q, sp_writes = (tier_of sd \<in> set WRITE_TIERS),
         sp_workspace = workspace_asked d q,
         sp_requested = hd (case rq_model q of Some m \<Rightarrow> [m] | None \<Rightarrow> resolveModelChain (sd_execution sd)),
         sp_override = (rq_model q \<noteq> None), sp_chain = chain, sp_index = i,
         sp_resolved = (case mg_resolved g of Some r \<Rightarrow> r | None \<Rightarrow> chain ! i)\<rparr>)"

lemma planned_fields [simp]:
  "sp_writes (planned d q act sd) = (tier_of sd \<in> set WRITE_TIERS)" "sp_activation (planned d q act sd) = act"
  "sp_workspace (planned d q act sd) = workspace_asked d q" "sp_chain (planned d q act sd) = models_asked q sd"
  "sp_index (planned d q act sd) = fst (dispatch_walk (validateModelAvailable (dw_models d)) (models_asked q sd) 0)"
  by (simp_all add: planned_def Let_def split: prod.split)

lemma gates_iff: "start_gates d q act = Inr (plan, tools) \<longleftrightarrow> (\<exists>sd. gates_pass d q sd tools \<and> plan = planned d q act sd)"
proof (cases "(\<exists>sd. dw_specialist d = Inr (Some sd)) \<and> rq_model q \<noteq> Some []")
  case False
  then show ?thesis
    using gates_named [of d q act] by (auto simp: gates_pass_def) (auto simp: start_gates_def split: sum.splits option.splits)
next
  case True
  then obtain sd where sd: "dw_specialist d = Inr (Some sd)" and named: "rq_model q \<noteq> Some []" by blast
  let ?chain = "models_asked q sd"
  obtain i g where w: "dispatch_walk (validateModelAvailable (dw_models d)) ?chain 0 = (i, g)" by (rule prod.exhaust)
  show ?thesis
  proof (cases "?chain = []")
    case True
    then have "rq_model q = None" "resolveModelChain (sd_execution sd) = []"
      using named by (auto simp: models_asked_def split: option.splits if_splits)
    then show ?thesis
      using True by (auto simp: start_gates_def gates_pass_def sd truthy_def Let_def split: option.splits if_splits)
  next
    case False
    have honoured: "(\<exists>m \<in> set ?chain. honoured (validateModelAvailable (dw_models d) m)) \<longleftrightarrow> honoured g"
      using walk_honoured [OF False, of "validateModelAvailable (dw_models d)"] w by simp
    obtain m ms where first: "(case rq_model q of Some m \<Rightarrow> [m] | None \<Rightarrow> resolveModelChain (sd_execution sd)) = m # ms" "m \<noteq> []"
      using False named chain_nonempty_names [of _ "sd_execution sd"]
      by (cases "rq_model q"; cases "resolveModelChain (sd_execution sd)") (auto simp: models_asked_def)
    have "nullish (rq_model q) (case resolveModelChain (sd_execution sd) of m # ms \<Rightarrow> Some m | [] \<Rightarrow> None) = Some m"
      using first by (cases "rq_model q") auto
    moreover have "(if truthy (rq_model q) then [the (rq_model q)] else resolveModelChain (sd_execution sd)) = ?chain"
      by (rule models_asked_code [OF named])
    moreover have "truthy (rq_model q) = (rq_model q \<noteq> None)" "truthy (Some m)"
      using named first by (auto simp: truthy_def split: option.split)
    ultimately have code: "start_gates d q act =
       (case dw_bead d of
          None \<Rightarrow> Inl (Refused_for ''bead_unreadable'')
        | Some bead \<Rightarrow>
            if evaluateBeadReadiness (dw_contract_state d) bead \<noteq> Inr () then Inl (Refused_for ''bead_contract_incomplete'')
            else
              (case dw_tools d (tier_of sd) of
                 None \<Rightarrow> Inl (Refused_for ''empty_tool_contract'')
               | Some tools \<Rightarrow>
                   if tools = [] then Inl (Refused_for ''empty_tool_contract'')
                   else if dw_preflight d \<noteq> None then Inl (Refused_for ''preflight_failed'')
                   else if (case rq_thinking q of Some lv \<Rightarrow> lv \<notin> set THINKING_LEVELS | None \<Rightarrow> False)
                   then Inl (Refused_for ''invalid_thinking_override'')
                   else if \<not> honoured g then Inl (Refused_for ''model_unavailable'')
                   else Inr (planned d q act sd, tools)))"
      unfolding start_gates_def planned_def workspace_asked_def Let_def sd first by (simp only: w sum.case option.case prod.case list.sel simp_thms if_True if_False option.sel)
    show ?thesis
      unfolding code gates_pass_def sd using named honoured
      by (cases "dw_bead d"; cases "dw_tools d (tier_of sd)"; cases "rq_thinking q") auto
  qed
qed

lemma planned_walk:
  assumes "gates_pass d q sd tools"
  shows "honoured (validateModelAvailable (dw_models d) (sp_chain (planned d q act sd) ! sp_index (planned d q act sd)))
    \<and> (\<forall>j < sp_index (planned d q act sd). \<not> honoured (validateModelAvailable (dw_models d) (sp_chain (planned d q act sd) ! j)))"
proof -
  let ?check = "validateModelAvailable (dw_models d)" and ?chain = "models_asked q sd"
  obtain i g where w: "dispatch_walk ?check ?chain 0 = (i, g)" by (rule prod.exhaust)
  have some: "\<exists>m \<in> set ?chain. honoured (?check m)" using assms unfolding gates_pass_def by blast
  then have ne: "?chain \<noteq> []" by auto
  have "honoured g" using walk_honoured [OF ne, of ?check] some w by simp
  then show ?thesis using dispatch_walk_stops [of 0 ?chain ?check i g] ne w by auto
qed

lemma unguardable_none: "gt_unguardable (createGuardedTools factories names) = [] \<longleftrightarrow>
    (\<forall>name \<in> set names. \<forall>f. factory_of name = Some f \<longrightarrow> f \<in> set factories)"
  by (induction names) (auto simp: Let_def split: option.split)

definition lease_available :: "host_env \<Rightarrow> lease_store \<Rightarrow> workspace_identity \<Rightarrow> string \<Rightarrow> bool" where
  "lease_available e s w act \<longleftrightarrow>
     lstate (inspect (he_host e) (he_probe e) s w) = Free \<and> ticksOf (he_probe e) (self_pid (he_host e)) \<noteq> None
   \<or> held_by (he_host e) (he_probe e) s w act"

lemma take_lease_granted:
  "fst (take_lease e writes (lease_request w act attempt sp) s) = Inr () \<longleftrightarrow> (writes \<longrightarrow> lease_available e s w act)"
proof -
  let ?r = "lease_request w act attempt sp"
  obtain x s1 where a: "acquire (he_host e) (he_probe e) (he_now e) ?r s = (x, s1)" by (rule prod.exhaust)
  have "(\<exists>l. x = Inr l) \<longleftrightarrow> lease_available e s w act"
    using acquire_granted [of "he_host e" "he_probe e" "he_now e" ?r s] a by (simp add: lease_available_def lease_request_def)
  then show ?thesis using a by (cases x) (auto simp: take_lease_def)
qed

lemma take_lease_held:
  assumes "take_lease e True (lease_request w act attempt sp) s = (Inr u, s')" and "canVerify (he_probe e)"
  shows "held_by (he_host e) (he_probe e) s' w act"
proof -
  let ?r = "lease_request w act attempt sp"
  obtain l where "acquire (he_host e) (he_probe e) (he_now e) ?r s = (Inr l, s')"
    using assms(1) by (cases "acquire (he_host e) (he_probe e) (he_now e) ?r s"; cases "fst (acquire (he_host e) (he_probe e) (he_now e) ?r s)")
      (auto simp: take_lease_def)
  from acquire_Inr_post [OF this] show ?thesis
    using assms(2) by (auto simp: held_by_def inspect_def inspect_file_def lease_request_def)
qed

section \<open>New attempts, in one step\<close>

lemma char_code_digit: "k < 10 \<Longrightarrow> char_code (char_of (48 + k)) = 48 + k"
  by simp

lemma show_nat_is_digit: "c \<in> set (show_nat n) \<Longrightarrow> is_digit c"
proof (induction n rule: show_nat.induct)
  case (1 n)
  have "is_digit (char_of (48 + k))" if "k < 10" for k :: nat
    using char_code_digit [OF that] that by (simp add: is_digit_def)
  then show ?case
    using 1 show_nat.simps [of n] by (auto split: if_splits)
qed

lemma digits_number_append: "digits_number (ds @ [char_of (48 + k)]) = digits_number ds * 10 + int k" if "k < 10" for k :: nat
  using char_code_digit [OF that] by (simp add: digits_number_def)

lemma digits_number_show: "digits_number (show_nat n) = int n"
proof (induction n rule: show_nat.induct)
  case (1 n)
  show ?case
  proof (cases "n < 10")
    case True
    then show ?thesis using digits_number_append [of n "[]"] by (simp add: show_nat.simps [of n]) (simp add: digits_number_def)
  next
    case False
    have "int (n div 10) * 10 + int (n mod 10) = int n"
      using div_mult_mod_eq [of n 10] by (metis of_nat_add of_nat_mult of_nat_numeral)
    then show ?thesis
      using False 1 digits_number_append [of "n mod 10" "show_nat (n div 10)"] by (simp add: show_nat.simps [of n])
  qed
qed

lemma nextAttemptId_counts:
  assumes "\<not> list_ex (\<lambda>x. char_code x \<in> {10, 13}) base"
  shows "nextAttemptId (base @ '':'' @ show_int (int n)) = base @ '':'' @ show_int (int n + 1)"
proof -
  have d: "\<forall>c \<in> set (rev (show_nat n)). is_digit c" by (simp add: show_nat_is_digit)
  have colon: "\<not> is_digit CHR '':''" by code_simp
  have r: "rev (base @ '':'' @ show_int (int n)) = rev (show_nat n) @ CHR '':'' # rev base" by (simp add: show_int_def)
  have "takeWhile is_digit (rev (show_nat n) @ CHR '':'' # rev base) = rev (show_nat n)"
    "dropWhile is_digit (rev (show_nat n) @ CHR '':'' # rev base) = CHR '':'' # rev base"
    using d colon takeWhile_append2 [of "rev (show_nat n)" is_digit "CHR '':'' # rev base"]
      dropWhile_append2 [of "rev (show_nat n)" is_digit "CHR '':'' # rev base"] by auto
  then show ?thesis
    unfolding nextAttemptId_def r using assms by (simp add: digits_number_show Let_def list_ex_iff)
qed

lemma attempt_number:
  assumes "\<not> list_ex (\<lambda>x. char_code x \<in> {10, 13}) act"
  shows "(nextAttemptId ^^ k) (first_attempt act) = ''att:'' @ drop 4 act @ '':'' @ show_int (int k + 1)"
proof (induction k)
  case 0
  have "show_int 1 = ''1''" by code_simp
  then show ?case by (simp add: first_attempt_def)
next
  case (Suc k)
  let ?base = "''att:'' @ drop 4 act"
  have ok: "\<not> list_ex (\<lambda>x. char_code x \<in> {10, 13}) ''att:''" by code_simp
  have base: "\<not> list_ex (\<lambda>x. char_code x \<in> {10, 13}) ?base"
    using assms ok by (auto simp: list_ex_iff dest: in_set_dropD)
  have "nextAttemptId (?base @ '':'' @ show_int (int (Suc k))) = ?base @ '':'' @ show_int (int (Suc k) + 1)"
    by (rule nextAttemptId_counts [OF base])
  then show ?case using Suc by (simp add: algebra_simps)
qed

definition attempt_possible :: "host_env \<Rightarrow> string \<Rightarrow> act_state list \<Rightarrow> host_state \<Rightarrow> bool" where
  "attempt_possible e act allowed s \<longleftrightarrow>
     (\<exists>a. fleet_get s act = Some a \<and> sn_state (ac_snapshot a) \<in> set allowed
        \<and> (sn_writes (ac_snapshot a) \<longrightarrow> lease_available e (hs_leases s) (sn_workspace (ac_snapshot a)) act))"

text \<open>What a new attempt that runs on the session of the record has done.\<close>

definition attempt_runs :: "string \<Rightarrow> host_state \<Rightarrow> host_state \<Rightarrow> bool" where
  "attempt_runs act s s' \<longleftrightarrow>
     (\<exists>a a'. map_get (hs_objects s) act = Some a \<and> map_get (hs_objects s') act = Some a'
        \<and> sn_attempt (ac_snapshot a') = nextAttemptId (sn_attempt (ac_snapshot a)) \<and> sn_state (ac_snapshot a') = Act_starting
        \<and> fixed_part a' = fixed_part a \<and> ac_session a' = ac_session a \<and> ac_listens a' = Some (ac_session a)
        \<and> hs_tasks s' = hs_tasks s @ [Running act (ac_session a) None] \<and> hs_fleet s' = hs_fleet s \<and> hs_open s' = hs_open s)"

lemma new_attempt_cases:
  assumes "new_attempt e act t a s = (res, s')"
  shows "(\<exists>a1. res = Inr a1) \<longleftrightarrow> (sn_writes (ac_snapshot a) \<longrightarrow> lease_available e (hs_leases s) (sn_workspace (ac_snapshot a)) act)"
    and "res = Inl why \<Longrightarrow> s' = s"
    and "res = Inr a1 \<Longrightarrow> sn_attempt (ac_snapshot a1) = nextAttemptId (sn_attempt (ac_snapshot a)) \<and> sn_state (ac_snapshot a1) = Act_starting
      \<and> fixed_part a1 = fixed_part a \<and> ac_session a1 = ac_session a
      \<and> hs_tasks s' = hs_tasks s \<and> hs_fleet s' = hs_fleet s \<and> hs_open s' = hs_open s"
proof -
  let ?sn = "ac_snapshot a"
  let ?r = "lease_request (sn_workspace ?sn) act (nextAttemptId (sn_attempt ?sn)) (sn_specialist ?sn)"
  obtain x leases where tl: "take_lease e (sn_writes ?sn) ?r (hs_leases s) = (x, leases)" by (rule prod.exhaust)
  note code = assms [unfolded new_attempt_def Let_def tl prod.case]
  show "(\<exists>a1. res = Inr a1) \<longleftrightarrow> (sn_writes ?sn \<longrightarrow> lease_available e (hs_leases s) (sn_workspace ?sn) act)"
    using take_lease_granted [of e "sn_writes ?sn" "sn_workspace ?sn" act "nextAttemptId (sn_attempt ?sn)" "sn_specialist ?sn" "hs_leases s"]
      tl code by (cases x) auto
  show "res = Inl why \<Longrightarrow> s' = s"
    using take_lease_store [OF tl] code by (cases x) auto
  show "res = Inr a1 \<Longrightarrow> sn_attempt (ac_snapshot a1) = nextAttemptId (sn_attempt (ac_snapshot a)) \<and> sn_state (ac_snapshot a1) = Act_starting
      \<and> fixed_part a1 = fixed_part a \<and> ac_session a1 = ac_session a
      \<and> hs_tasks s' = hs_tasks s \<and> hs_fleet s' = hs_fleet s \<and> hs_open s' = hs_open s"
    using code by (cases x) (auto simp: fixed_part_def save_def put_object_def)
qed

lemma run_attempt:
  assumes "new_attempt e act t a s = (Inr a1, s1)" and "map_get (hs_objects s) act = Some a"
  shows "attempt_runs act s (run_on_session act a1 s1)"
  using new_attempt_cases(3) [OF assms(1) refl] assms(2)
  by (auto simp: attempt_runs_def run_on_session_def add_task_def put_object_def map_get_set fixed_part_def)

lemma resume_cases:
  assumes "resume e act s = (res, s')"
  shows "(res = Inr ()) \<longleftrightarrow> attempt_possible e act RESUMABLE_STATES s" and "res = Inl why \<Longrightarrow> s' = s" and "res = Inr () \<Longrightarrow> attempt_runs act s s'"
proof -
  have "((res = Inr ()) \<longleftrightarrow> attempt_possible e act RESUMABLE_STATES s) \<and> (res = Inl why \<longrightarrow> s' = s) \<and> (res = Inr () \<longrightarrow> attempt_runs act s s')"
  proof (cases "\<exists>a. fleet_get s act = Some a \<and> sn_state (ac_snapshot a) \<in> set RESUMABLE_STATES")
    case False
    then show ?thesis using assms by (auto simp: resume_def attempt_possible_def split: option.splits if_splits)
  next
    case True
    then obtain a where a: "fleet_get s act = Some a" "sn_state (ac_snapshot a) \<in> set RESUMABLE_STATES" by blast
    then have o: "map_get (hs_objects s) act = Some a" by (simp add: fleet_get_def split: if_splits)
    obtain x s1 where na: "new_attempt e act None a s = (x, s1)" by (rule prod.exhaust)
    show ?thesis
      using assms a new_attempt_cases(1,2) [OF na] run_attempt [OF _ o, of e None] na
      by (cases x) (auto simp: resume_def attempt_possible_def)
  qed
  then show "(res = Inr ()) \<longleftrightarrow> attempt_possible e act RESUMABLE_STATES s" "res = Inl why \<Longrightarrow> s' = s" "res = Inr () \<Longrightarrow> attempt_runs act s s'"
    by blast+
qed

lemma retry_cases:
  assumes "retry_begin e act None s = (res, s')"
  shows "(res = Inr ()) \<longleftrightarrow> attempt_possible e act RETRYABLE_STATES s" and "res = Inl why \<Longrightarrow> s' = s" and "res = Inr () \<Longrightarrow> attempt_runs act s s'"
proof -
  have "((res = Inr ()) \<longleftrightarrow> attempt_possible e act RETRYABLE_STATES s) \<and> (res = Inl why \<longrightarrow> s' = s) \<and> (res = Inr () \<longrightarrow> attempt_runs act s s')"
  proof (cases "\<exists>a. fleet_get s act = Some a \<and> sn_state (ac_snapshot a) \<in> set RETRYABLE_STATES")
    case False
    then show ?thesis using assms by (auto simp: retry_begin_def attempt_possible_def split: option.splits if_splits)
  next
    case True
    then obtain a where a: "fleet_get s act = Some a" "sn_state (ac_snapshot a) \<in> set RETRYABLE_STATES" by blast
    then have o: "map_get (hs_objects s) act = Some a" by (simp add: fleet_get_def split: if_splits)
    obtain x s1 where na: "new_attempt e act (Some (he_now e)) a s = (x, s1)" by (rule prod.exhaust)
    show ?thesis
      using assms a o new_attempt_cases(1,2) [OF na] run_attempt [OF _ o, of e "Some (he_now e)"] na
      by (cases x) (auto simp: retry_begin_def retry_go_def attempt_possible_def truthy_def)
  qed
  then show "(res = Inr ()) \<longleftrightarrow> attempt_possible e act RETRYABLE_STATES s" "res = Inl why \<Longrightarrow> s' = s" "res = Inr () \<Longrightarrow> attempt_runs act s s'"
    by blast+
qed

section \<open>Leases nobody gives back\<close>

text \<open>A lease is on disk in the name of a dispatched activation that the host has no object for.\<close>

definition stranded :: "string \<Rightarrow> string \<Rightarrow> workspace_lease \<Rightarrow> host_state \<Rightarrow> bool" where
  "stranded act path l s \<longleftrightarrow>
     hs_leases s path = Some (Record l) \<and> activationId l = act \<and> map_get (hs_objects s) act = None
   \<and> map_has (hs_dispatched s) act \<and> (\<forall>plan. Creating_first plan \<in> set (hs_tasks s) \<longrightarrow> sp_activation plan \<noteq> act)"

lemma stranded_keeps: "keeps s s' \<Longrightarrow> stranded act path l s \<Longrightarrow> stranded act path l s'"
  using keeps_no_object [of s s' act] unfolding stranded_def keeps_def by metis

lemma acquire_others_record:
  assumes "s path = Some (Record l)" and "activationId l \<noteq> req_activation r"
  shows "snd (acquire h p now r s) path = Some (Record l)"
proof (cases "path = leasePath h (req_workspace r)")
  case True
  then have "lease (inspect h p s (req_workspace r)) = Some l" "lstate (inspect h p s (req_workspace r)) \<noteq> Free"
    using assms(1) inspect_lease [of s h "req_workspace r" l p] by (simp_all add: inspect_Free_iff)
  then show ?thesis
    using assms by (cases "lstate (inspect h p s (req_workspace r))") (simp_all add: acquire_held acquire_uncertain)
next
  case False
  then show ?thesis
    using assms(1) acquire_Inl_store [of h p now r s] acquire_Inr_post [of h p now r s]
    by (cases "acquire h p now r s"; cases "fst (acquire h p now r s)") auto
qed

lemma take_lease_others_record:
  "take_lease e writes (lease_request w b attempt sp) (hs_leases s) = (x, leases) \<Longrightarrow> stranded act path l s \<Longrightarrow> b \<noteq> act \<Longrightarrow>
     leases path = Some (Record l)"
  using acquire_others_record [of "hs_leases s" path l "lease_request w b attempt sp" "he_host e" "he_probe e" "he_now e"]
  by (cases "acquire (he_host e) (he_probe e) (he_now e) (lease_request w b attempt sp) (hs_leases s)")
     (auto simp: take_lease_def lease_request_def stranded_def split: if_splits)

lemma stranded_attempt:
  assumes st: "stranded act path l s" and "map_get (hs_objects s) b = Some a" and "new_attempt e b t a s = (res, s')"
  shows "stranded act path l s'"
proof -
  let ?sn = "ac_snapshot a"
  let ?r = "lease_request (sn_workspace ?sn) b (nextAttemptId (sn_attempt ?sn)) (sn_specialist ?sn)"
  have b: "b \<noteq> act" using assms(1,2) by (auto simp: stranded_def)
  obtain x leases where tl: "take_lease e (sn_writes ?sn) ?r (hs_leases s) = (x, leases)" by (rule prod.exhaust)
  have "leases path = Some (Record l)" by (rule take_lease_others_record [OF tl st b])
  moreover note assms(3) [unfolded new_attempt_def Let_def tl prod.case]
  ultimately show ?thesis
    using st b by (cases x) (auto simp: stranded_def save_def put_object_def map_get_set)
qed

lemma stranded_retry_go:
  assumes "stranded act path l s" and "retry_go e b override s = (res, s')"
  shows "stranded act path l s'"
proof (cases "map_get (hs_objects s) b")
  case None
  then show ?thesis using assms by (simp add: retry_go_def)
next
  case (Some a)
  obtain x s1 where na: "new_attempt e b (Some (he_now e)) a s = (x, s1)" by (rule prod.exhaust)
  have st: "stranded act path l s1" by (rule stranded_attempt [OF assms(1) Some na])
  have "stranded act path l (run_on_session b a1 s1)" "stranded act path l (add_task (Retry_creating b att nm m) s1)"
    if "b \<noteq> act" for a1 att nm m
    using st that by (auto simp: stranded_def run_on_session_def add_task_def put_object_def map_get_set)
  moreover have "b \<noteq> act" using assms(1) Some by (auto simp: stranded_def)
  ultimately show ?thesis using assms(2) Some na st by (auto simp: retry_go_def split: sum.splits option.splits)
qed

lemma stranded_turn: "own_turn h s s' \<Longrightarrow> stranded act path l s \<Longrightarrow> stranded act path l s'"
proof (induction rule: own_turn.induct)
  case (t_start e b s d q res s')
  show ?case
  proof (cases "start_gates d q b")
    case (Inl why)
    then show ?thesis using t_start by (simp add: start_begin_def)
  next
    case (Inr pt)
    obtain plan tools where pt: "pt = (plan, tools)" by (rule prod.exhaust)
    have b: "b \<noteq> act" using t_start by (auto simp: stranded_def fresh_activation_def)
    obtain x leases where tl: "take_lease e (sp_writes plan)
        (lease_request (sp_workspace plan) b (first_attempt b) (rq_specialist q)) (hs_leases s) = (x, leases)" by (rule prod.exhaust)
    have "leases path = Some (Record l)" by (rule take_lease_others_record [OF tl t_start.prems b])
    moreover have "sp_activation plan = b" using Inr pt gates_activation by blast
    ultimately show ?thesis
      using t_start.hyps(3) t_start.prems b tl Inr pt
      by (cases x) (auto simp: start_begin_def stranded_def add_task_def map_has_def map_get_set Let_def split: if_splits)
  qed
next
  case (t_first_created e plan s n)
  then have "sp_activation plan \<noteq> act" by (auto simp: stranded_def)
  then show ?case
    using t_first_created.prems
    by (auto simp: stranded_def first_created_def add_task_def save_def put_object_def take_task_def map_get_set Let_def
        dest: set_remove1_subset [THEN subsetD])
next
  case (t_first_failed plan s)
  show ?case using stranded_keeps [OF keeps_small(4) t_first_failed.prems] by (simp add: first_failed_def)
next
  case (t_event e b n ev s)
  show ?case by (rule stranded_keeps [OF keeps_event t_event.prems])
next
  case (t_asked esc b s)
  show ?case by (rule stranded_keeps [OF keeps_ask(1) t_asked.prems])
next
  case (t_answered b s)
  show ?case by (rule stranded_keeps [OF keeps_ask(2) t_answered.prems])
next
  case (t_turn_ends e b n walk s out)
  show ?case by (rule stranded_keeps [OF keeps_turn_ends t_turn_ends.prems])
next
  case (t_next_checked b chain i s g)
  show ?case by (rule stranded_keeps [OF keeps_next(1) t_next_checked.prems])
next
  case (t_next_failed b chain i m s)
  show ?case by (rule stranded_keeps [OF keeps_next(2) t_next_failed.prems])
next
  case (t_next_created e b chain i m s n)
  show ?case by (rule stranded_keeps [OF keeps_next_created t_next_created.prems])
next
  case (t_stop_begin b s)
  show ?case by (rule stranded_keeps [OF keeps_stop_begin t_stop_begin.prems])
next
  case (t_stop_end e b s)
  show ?case by (rule stranded_keeps [OF keeps_stop_end t_stop_end.prems])
next
  case (t_resume e b s res2 s')
  show ?case
  proof (cases "fleet_get s b")
    case (Some a)
    then have a: "map_get (hs_objects s) b = Some a" by (simp add: fleet_get_def split: if_splits)
    obtain x s1 where na: "new_attempt e b None a s = (x, s1)" by (rule prod.exhaust)
    note st = stranded_attempt [OF t_resume.prems a na]
    have "b \<noteq> act" using t_resume.prems a by (auto simp: stranded_def)
    then have "stranded act path l (run_on_session b a1 s1)" for a1
      using st by (auto simp: stranded_def run_on_session_def add_task_def put_object_def map_get_set)
    then show ?thesis using t_resume Some na st by (auto simp: resume_def split: sum.splits if_splits)
  qed (use t_resume in \<open>auto simp: resume_def\<close>)
next
  case (t_retry e b override s res2 s')
  have "stranded act path l (add_task (Retry_checking b m) s)" for m
    using t_retry.prems by (auto simp: stranded_def add_task_def)
  then show ?case
    using t_retry stranded_retry_go [of act path l s e b None] by (auto simp: retry_begin_def split: option.splits if_splits)
next
  case (t_retry_checked e b name s g res2 s')
  have "stranded act path l (take_task (Retry_checking b name) s)" by (rule stranded_keeps [OF keeps_small(4) t_retry_checked.prems])
  then show ?case
    using t_retry_checked.hyps(3) stranded_retry_go [of act path l "take_task (Retry_checking b name) s"]
    by (auto simp: retry_checked_def Let_def split: if_splits)
next
  case (t_retry_created b att m s name n)
  show ?case by (rule stranded_keeps [OF keeps_retry_created t_retry_created.prems])
next
  case (t_retry_failed b att name m s)
  show ?case using stranded_keeps [OF keeps_small(4) t_retry_failed.prems] by (simp add: retry_failed_def)
qed

lemma stranded_forever: "(own_turn h)\<^sup>*\<^sup>* s s' \<Longrightarrow> stranded act path l s \<Longrightarrow> stranded act path l s'"
  by (induction rule: rtranclp_induct) (auto intro: stranded_turn)

lemma stranded_blocks: "stranded act (leasePath h w) l s \<Longrightarrow> he_host e = h \<Longrightarrow> b \<noteq> act \<Longrightarrow> \<not> lease_available e (hs_leases s) w b"
  by (auto simp: stranded_def lease_available_def inspect_Free_iff held_by_def inspect_lease)

section \<open>A concrete fleet\<close>

definition demo_description :: string where
  "demo_description = ''SCRUTINY: LOW'' @ concat (map (\<lambda>h. newline # h @ '': x'') REQUIRED_SECTIONS)"

lemma demo_sections: "extractSections demo_description = (''SCRUTINY'', ''LOW'') # map (\<lambda>h. (h, ''x'')) REQUIRED_SECTIONS"
  by code_simp

lemma demo_level: "scrutinyLevel demo_description = Some ''LOW''"
  by code_simp

definition demo_ready_bead :: bead_record where
  "demo_ready_bead = \<lparr>bead_id = ''b-1'', bead_title = ''t'', bead_description = Some demo_description,
     bead_status = Some ''open'', bead_dependencies = None, bead_revision = None\<rparr>"

lemma demo_ready: "evaluateBeadReadiness (\<lambda>_. None) demo_ready_bead = Inr ()"
proof -
  have "filter (\<lambda>sec. \<not> truthy (map_get ((''SCRUTINY'', ''LOW'') # map (\<lambda>h. (h, ''x'')) REQUIRED_SECTIONS) sec)) REQUIRED_SECTIONS = []" by code_simp
  moreover have "to_lower (trim ''open'') \<notin> set NON_DISPATCHABLE_STATUSES" by code_simp
  ultimately show ?thesis
    by (simp add: evaluateBeadReadiness_def demo_ready_bead_def demo_sections demo_level truthy_def Let_def del: map_get.simps)
qed

definition demo_models :: pi_models where
  "demo_models = \<lparr>resolve_scope = (\<lambda>m. Inr \<lparr>sc_models = [\<lparr>md_id = Some m, md_provider = Some ''p''\<rparr>], sc_diagnostics = []\<rparr>),
     has_auth = (\<lambda>_. True)\<rparr>"

definition demo_dispatch :: "string \<Rightarrow> string list \<Rightarrow> dispatch_world" where
  "demo_dispatch tier factories =
     \<lparr>dw_specialist = Inr (Some \<lparr>sd_tier = Some tier, sd_execution = demo_execution\<rparr>), dw_bead = Some demo_ready_bead,
      dw_contract_state = (\<lambda>_. None), dw_tools = (\<lambda>t. Some [''read'', ''edit'']), dw_preflight = None,
      dw_models = demo_models, dw_factories = factories, dw_cwd = ''/r''\<rparr>"

definition demo_start :: start_request where
  "demo_start = \<lparr>rq_specialist = ''coder'', rq_bead = ''b-1'', rq_model = None, rq_thinking = None, rq_workspace = Some demo_ws\<rparr>"

definition demo_env :: host_env where
  "demo_env = \<lparr>he_host = demo_host, he_probe = demo_probe, he_now = 5\<rparr>"

definition demo_plan :: "string \<Rightarrow> bool \<Rightarrow> start_plan" where
  "demo_plan act writes =
     \<lparr>sp_activation = act, sp_specialist = ''coder'', sp_bead = ''b-1'', sp_writes = writes, sp_workspace = demo_ws,
      sp_requested = ''a'', sp_override = False, sp_chain = [''a'', ''b'', ''c''], sp_index = 0, sp_resolved = ''p/a''\<rparr>"

lemma demo_chain: "resolveModelChain demo_execution = [''a'', ''b'', ''c'']"
  by code_simp

lemma demo_gate: "validateModelAvailable demo_models ''a''
  = \<lparr>mg_ok = True, mg_model = Some \<lparr>md_id = Some ''a'', md_provider = Some ''p''\<rparr>, mg_resolved = Some ''p/a'', mg_provider = Some ''p'', mg_reason = None\<rparr>"
  by code_simp

lemma demo_gates: "start_gates (demo_dispatch tier factories) demo_start act = Inr (demo_plan act (tier \<in> set WRITE_TIERS), [''read'', ''edit''])"
  by (simp add: start_gates_def demo_dispatch_def demo_start_def demo_ready demo_chain dispatch_walk.simps [of _ _ 0]
      demo_gate honoured_def  truthy_def tier_of_def demo_plan_def Let_def)

definition demo_lease :: "string \<Rightarrow> workspace_lease" where
  "demo_lease act = \<lparr>lease_key = ''/r/w'', lease_worktree = ''/r/w'', activationId = act, attemptId = first_attempt act,
     specialist = Some ''coder'', holder = \<lparr>pid = 7, startTicks = 100\<rparr>, acquiredAtMs = 5\<rparr>"

lemma demo_take_lease:
  "take_lease demo_env True (lease_request demo_ws act (first_attempt act) ''coder'') Map.empty
    = (Inr (), Map.empty(leasePath demo_host demo_ws \<mapsto> Record (demo_lease act)))"
  by (simp add: take_lease_def lease_request_def acquire_def acquire_check_def acquire_commit_def inspect_def inspect_file_def
      selfHolder_def workspaceKey_def demo_host_def demo_probe_def demo_ws_def demo_env_def demo_lease_def)

lemma demo_unguardable: "gt_unguardable (createGuardedTools factories [''read'', ''edit'']) = (if ''createEditTool'' \<in> set factories then [] else [''edit''])"
proof -
  have "factory_of ''read'' = None" "factory_of ''edit'' = Some ''createEditTool''" by code_simp+
  then show ?thesis by (simp add: Let_def)
qed

text \<open>A writer is dispatched in an empty fleet.\<close>

definition demo_writer :: host_state where
  "demo_writer = (empty_fleet Map.empty)\<lparr>hs_leases := Map.empty(leasePath demo_host demo_ws \<mapsto> Record (demo_lease ''act:1'')),
     hs_dispatched := [(''act:1'', (True, demo_ws))]\<rparr>"

lemma demo_fresh: "fresh_activation act (empty_fleet Map.empty)"
  by (simp add: fresh_activation_def empty_fleet_def map_has_def)

lemma demo_plan_fields: "sp_writes (demo_plan act w) = w" "sp_workspace (demo_plan act w) = demo_ws"
  by (simp_all add: demo_plan_def)

lemma demo_start_specialist: "rq_specialist demo_start = ''coder''"
  by (simp add: demo_start_def)

lemma dw_factories_demo: "dw_factories (demo_dispatch tier factories) = factories"
  by (simp add: demo_dispatch_def)

lemma demo_begin:
  "start_begin demo_env (demo_dispatch ''MEDIUM'' factories) demo_start ''act:1'' (empty_fleet Map.empty)
    = (if ''createEditTool'' \<in> set factories then (Inr (demo_plan ''act:1'' True), add_task (Creating_first (demo_plan ''act:1'' True)) demo_writer)
       else (Inl (Refused_for ''unguardable_mutating_tools''), demo_writer))"
  using demo_take_lease [of "''act:1''"]
  by (simp add: start_begin_def demo_gates demo_unguardable WRITE_TIERS_def demo_writer_def empty_fleet_def
      demo_plan_fields demo_start_specialist dw_factories_demo Let_def del: createGuardedTools.simps)

lemma demo_writer_reached:
  "host_reach demo_host (add_task (Creating_first (demo_plan ''act:1'' True)) demo_writer)" "host_reach demo_host demo_writer"
  by (rule reach_turn [OF reach_start t_own],
      rule t_start [OF _ demo_fresh demo_begin [of "[''createEditTool'']", simplified]], simp add: demo_env_def,
      rule reach_turn [OF reach_start t_own],
      rule t_start [OF _ demo_fresh demo_begin [of "[]", simplified]], simp add: demo_env_def)

definition demo_running :: host_state where
  "demo_running = first_created demo_env (demo_plan ''act:1'' True) 1 (add_task (Creating_first (demo_plan ''act:1'' True)) demo_writer)"

definition demo_settled :: host_state where
  "demo_settled = onSessionEvent demo_env ''act:1'' 1 Agent_settled demo_running"

lemma demo_running_reached: "host_reach demo_host demo_running"
  unfolding demo_running_def
  by (rule reach_turn [OF demo_writer_reached(1)], rule t_own, rule t_first_created) (simp_all add: demo_env_def add_task_def)

lemma demo_settled_reached: "host_reach demo_host demo_settled"
  unfolding demo_settled_def
  by (rule reach_turn [OF demo_running_reached], rule t_own, rule t_event) (simp add: demo_env_def)

lemma demo_settled_state:
  "\<exists>a. fleet_get demo_settled ''act:1'' = Some a \<and> sn_state (ac_snapshot a) = Act_settled \<and> sn_workspace (ac_snapshot a) = demo_ws
     \<and> hs_leases demo_settled (leasePath demo_host demo_ws) = None"
  by (simp add: demo_settled_def demo_running_def first_created_def onSessionEvent_def touch_def move_to_def releaseIfWriter_def
      fleet_get_def put_object_def save_def add_task_def take_task_def demo_writer_def empty_fleet_def demo_plan_def
      release_def release_check_def inspect_def inspect_file_def demo_env_def demo_probe_def demo_lease_def map_get_set Let_def)

section \<open>Properties\<close>

text \<open>C30. Whatever the order of dispatches, turns, fallbacks, stops, resumes, retries and foreign
  changes of the leases, a guarded tool of a dispatched activation only runs when that
  activation was admitted as a writer and in the workspace it was admitted for: a read-only
  Specialist never mutates, no attempt moves a writer to another workspace; and while it is
  admitted no other activation is admitted there. The host's own verdict says the same of
  its registered activations, and refuses every call of the others.\<close>

theorem host_admission:
  assumes "host_reach h s" and "he_host e = h" and "isMutatingTool t" and "isMutatingTool u"
    and "map_get (hs_dispatched s) act = Some (wr, w)"
    and "guarded_execute (\<lambda>name. admitToolCall h (he_probe e) (hs_leases s) name w' act) t x = Ran x
       \<or> allow (host_admits e act t s) \<and> w' = w"
  shows "wr \<and> leasePath h w' = leasePath h w
    \<and> (\<forall>b. b \<noteq> act \<longrightarrow> \<not> allow (admitToolCall h (he_probe e) (hs_leases s) u w b))
    \<and> (\<forall>b. fleet_get s b = None \<longrightarrow> \<not> allow (host_admits e b u s))"
proof -
  have "allow (admitToolCall h (he_probe e) (hs_leases s) t w' act)"
    if "allow (host_admits e act t s)" "w' = w"
  proof -
    from that(1) obtain a where a: "fleet_get s act = Some a"
      "allow (admitToolCall h (he_probe e) (hs_leases s) t (sn_workspace (ac_snapshot a)) act)"
      using assms(2) by (auto simp: host_admits_def split: option.splits)
    then have "map_get (hs_objects s) act = Some a" by (simp add: fleet_get_def split: if_splits)
    then have "sn_workspace (ac_snapshot a) = w"
      using host_inv_object [OF host_reach_inv [OF assms(1)]] assms(5) by (auto simp: fixed_part_def)
    then show ?thesis using a that(2) by simp
  qed
  then have al: "allow (admitToolCall h (he_probe e) (hs_leases s) t w' act)"
    using assms(6) by (auto simp: guarded_execute_def Let_def split: if_splits)
  note w = admitted_holds [OF assms(1-3,5) al]
  then have "allow (admitToolCall h (he_probe e) (hs_leases s) t w act)"
    using al assms(3) by (simp add: admit_iff held_by_def inspect_def)
  then have "\<not> allow (admitToolCall h (he_probe e) (hs_leases s) u w b)" if "b \<noteq> act" for b
    using that assms(3,4) held_by_unique by (auto simp: admit_iff)
  then show ?thesis using w by (simp add: host_admits_def)
qed

theorem host_admission_witness:
  "\<not> allow (admitToolCall demo_host demo_probe (hs_leases demo_writer) ''bash'' demo_ws ''act:2'')
   \<and> \<not> allow (host_admits demo_env ''act:2'' ''bash'' demo_writer)"
proof -
  have t: "isMutatingTool ''edit''" "isMutatingTool ''bash''" by code_simp+
  have "held_by demo_host demo_probe (hs_leases demo_writer) demo_ws ''act:1''"
    by (simp add: held_by_def inspect_def inspect_file_def demo_writer_def demo_probe_def demo_lease_def)
  then have "guarded_execute (\<lambda>name. admitToolCall demo_host (he_probe demo_env) (hs_leases demo_writer) name demo_ws ''act:1'') ''edit'' ()
      = Ran ()" by (simp add: guarded_execute_def admit_iff demo_env_def Let_def)
  moreover have "map_get (hs_dispatched demo_writer) ''act:1'' = Some (True, demo_ws)" by (simp add: demo_writer_def)
  moreover have "he_host demo_env = demo_host" by (simp add: demo_env_def)
  moreover have "fleet_get demo_writer ''act:2'' = None" by (simp add: demo_writer_def fleet_get_def empty_fleet_def)
  ultimately show ?thesis
    using host_admission [OF demo_writer_reached(2) _ t, of demo_env "''act:1''" True demo_ws demo_ws "()"]
    by (simp add: demo_env_def)
qed

text \<open>C31. A dispatch is admitted exactly when every gate passes: the specialist is known, its bead
  is ready, the tier grants tools, the preflight and the thinking level are good, a model asked
  for is honoured, each mutating tool can be guarded, and, for a writer, the lease of the
  workspace can be had. It then runs on the first model honoured, and a writer holds the
  workspace before any session exists; a refusal changes nothing, but for one: unguardable
  tools are found out after the lease is taken.\<close>

theorem start_admits:
  assumes "canVerify (he_probe e)"
  shows "((\<exists>plan s'. start_begin e d q act s = (Inr plan, s')) \<longleftrightarrow>
      (\<exists>sd tools. gates_pass d q sd tools
        \<and> (\<forall>name \<in> set tools. \<forall>f. factory_of name = Some f \<longrightarrow> f \<in> set (dw_factories d))
        \<and> (tier_of sd \<in> set WRITE_TIERS \<longrightarrow> lease_available e (hs_leases s) (workspace_asked d q) act)))
    \<and> (\<forall>plan s'. start_begin e d q act s = (Inr plan, s') \<longrightarrow>
        hs_tasks s' = hs_tasks s @ [Creating_first plan] \<and> hs_fleet s' = hs_fleet s
      \<and> sp_workspace plan = workspace_asked d q
      \<and> honoured (validateModelAvailable (dw_models d) (sp_chain plan ! sp_index plan))
      \<and> (\<forall>j < sp_index plan. \<not> honoured (validateModelAvailable (dw_models d) (sp_chain plan ! j)))
      \<and> (if sp_writes plan then held_by (he_host e) (he_probe e) (hs_leases s') (sp_workspace plan) act
         else hs_leases s' = hs_leases s))
    \<and> (\<forall>why s'. start_begin e d q act s = (Inl why, s') \<and> why \<noteq> Refused_for ''unguardable_mutating_tools'' \<longrightarrow> s' = s)"
proof (cases "start_gates d q act")
  case (Inl why)
  then have "\<not> gates_pass d q sd tools" for sd tools using gates_iff [of d q act _ tools] by auto
  then show ?thesis using Inl by (auto simp: start_begin_def)
next
  case (Inr pt)
  obtain plan tools where pt: "pt = (plan, tools)" by (rule prod.exhaust)
  then obtain sd where sd: "gates_pass d q sd tools" "plan = planned d q act sd" using Inr gates_iff [of d q act plan tools] by auto
  have only: "gates_pass d q sd' tools' \<longleftrightarrow> sd' = sd \<and> tools' = tools" for sd' tools'
    using sd(1) by (auto simp: gates_pass_def)
  obtain x leases where tl: "take_lease e (sp_writes plan) (lease_request (sp_workspace plan) act (first_attempt act) (rq_specialist q)) (hs_leases s) = (x, leases)"
    by (rule prod.exhaust)
  have granted: "x = Inr () \<longleftrightarrow> (tier_of sd \<in> set WRITE_TIERS \<longrightarrow> lease_available e (hs_leases s) (workspace_asked d q) act)"
    using take_lease_granted [of e "sp_writes plan" "sp_workspace plan" act "first_attempt act" "rq_specialist q" "hs_leases s"] tl sd(2) by simp
  show ?thesis
  proof (cases x)
    case err: (Inl err)
    then have "leases = hs_leases s" using take_lease_store [OF tl] by auto
    then show ?thesis using err granted tl Inr pt only by (auto simp: start_begin_def)
  next
    case ok: (Inr u)
    have lease: "if tier_of sd \<in> set WRITE_TIERS then held_by (he_host e) (he_probe e) leases (workspace_asked d q) act else leases = hs_leases s"
    proof (cases "tier_of sd \<in> set WRITE_TIERS")
      case True
      then show ?thesis using take_lease_held [of e "workspace_asked d q" act _ _ "hs_leases s"] tl ok sd(2) assms by simp
    qed (use take_lease_store [OF tl] sd(2) in simp)
    show ?thesis
      using ok granted tl Inr pt only lease sd(2) planned_walk [OF sd(1), of act] unguardable_none [of "dw_factories d" tools]
      by (simp add: start_begin_def Let_def add_task_def)
  qed
qed

theorem start_admits_witness:
  "\<exists>plan s'. start_begin demo_env (demo_dispatch ''MEDIUM'' [''createEditTool'']) demo_start ''act:1'' (empty_fleet Map.empty) = (Inr plan, s')
     \<and> held_by demo_host demo_probe (hs_leases s') (sp_workspace plan) ''act:1''"
proof -
  let ?d = "demo_dispatch ''MEDIUM'' [''createEditTool'']" and ?s = "empty_fleet Map.empty"
  have b: "start_begin demo_env ?d demo_start ''act:1'' ?s
      = (Inr (demo_plan ''act:1'' True), add_task (Creating_first (demo_plan ''act:1'' True)) demo_writer)"
    by (simp add: demo_begin)
  have "canVerify (he_probe demo_env)" by (simp add: demo_env_def demo_probe_def)
  from start_admits [OF this, of ?d demo_start "''act:1''" ?s, THEN conjunct2, THEN conjunct1, rule_format, OF b]
  have "held_by demo_host demo_probe (hs_leases (add_task (Creating_first (demo_plan ''act:1'' True)) demo_writer))
      (sp_workspace (demo_plan ''act:1'' True)) ''act:1''"
    by (simp add: demo_plan_fields demo_env_def)
  then show ?thesis using b by blast
qed



text \<open>C33. A dispatch of a writer that throws after it took the lease (a mutating tool that cannot be
  guarded, a session that cannot be created) strands the lease: no activation of that name is
  ever registered, so whatever the host does later, stops included, the record stays in its
  place and no other writer can have the workspace.\<close>

theorem failed_start_strands:
  assumes "host_reach h s" and h: "he_host e = h" and fresh: "fresh_activation act s"
    and start: "start_begin e d q act s = (res, s1)"
    and failed: "s2 = (case res of Inl why \<Rightarrow> s1 | Inr plan \<Rightarrow> first_failed plan s1)"
    and taken: "hs_leases s2 \<noteq> hs_leases s"
    and later: "(own_turn h)\<^sup>*\<^sup>* s2 s3"
  shows "(\<exists>l. hs_leases s3 (leasePath h (workspace_asked d q)) = Some (Record l) \<and> activationId l = act)
    \<and> fleet_get s3 act = None \<and> stop_begin act s3 = s3
    \<and> (\<forall>e' b. he_host e' = h \<and> b \<noteq> act \<longrightarrow> \<not> lease_available e' (hs_leases s3) (workspace_asked d q) b)"
proof -
  have inv: "host_inv h s" by (rule host_reach_inv [OF assms(1)])
  have none: "map_get (hs_dispatched s) act = None"
    using fresh by (cases "map_get (hs_dispatched s) act") (auto simp: fresh_activation_def map_has_def)
  have no_object: "map_get (hs_objects s) act = None"
    using host_inv_object [OF inv, of act] none by fastforce
  have no_plan: "Creating_first plan \<in> set (hs_tasks s) \<Longrightarrow> sp_activation plan \<noteq> act" for plan
    using host_inv_plan [OF inv] none by fastforce
  obtain plan tools where g: "start_gates d q act = Inr (plan, tools)"
    using start failed taken by (cases "start_gates d q act") (auto simp: start_begin_def)
  then obtain sd where plan: "plan = planned d q act sd" using gates_iff by blast
  obtain x leases where tl: "take_lease e (sp_writes plan)
      (lease_request (sp_workspace plan) act (first_attempt act) (rq_specialist q)) (hs_leases s) = (x, leases)" by (rule prod.exhaust)
  have leases: "hs_leases s2 = leases"
    using start failed g tl
    by (cases x) (auto simp: start_begin_def add_task_def first_failed_def take_task_def Let_def split: if_splits)
  then obtain l where l: "leases (leasePath h (workspace_asked d q)) = Some (Record l)" "activationId l = act" "x = Inr ()"
    using take_lease_store [OF tl] taken plan h by (auto simp: lease_request_def)
  have tasks: "hs_tasks s2 = hs_tasks s \<or> hs_tasks s2 = remove1 (Creating_first plan) (hs_tasks s @ [Creating_first plan])"
    and rest: "hs_objects s2 = hs_objects s" "map_has (hs_dispatched s2) act"
    using start failed g tl l
    by (auto simp: start_begin_def add_task_def first_failed_def take_task_def map_has_def map_get_set Let_def split: if_splits)
  have "Creating_first plan \<notin> set (hs_tasks s)" using no_plan [of plan] plan by fastforce
  then have "hs_tasks s2 = hs_tasks s" using tasks by (auto simp: remove1_append)
  then have "stranded act (leasePath h (workspace_asked d q)) l s2"
    using l rest no_object no_plan leases by (simp add: stranded_def)
  then have st: "stranded act (leasePath h (workspace_asked d q)) l s3" by (rule stranded_forever [OF later])
  then have gone: "fleet_get s3 act = None" by (simp add: stranded_def fleet_get_def)
  show ?thesis
    using st gone stranded_blocks [OF st] by (auto simp: stop_begin_def stranded_def)
qed

theorem failed_start_strands_witness:
  "fst (start_begin demo_env (demo_dispatch ''MEDIUM'' []) demo_start ''act:1'' (empty_fleet Map.empty))
     = Inl (Refused_for ''unguardable_mutating_tools'')
   \<and> \<not> lease_available demo_env (hs_leases demo_writer) demo_ws ''act:2''"
proof -
  let ?d = "demo_dispatch ''MEDIUM'' []"
  have start: "start_begin demo_env ?d demo_start ''act:1'' (empty_fleet Map.empty)
      = (Inl (Refused_for ''unguardable_mutating_tools''), demo_writer)" by (simp add: demo_begin)
  have taken: "hs_leases demo_writer \<noteq> hs_leases (empty_fleet Map.empty)"
    by (auto simp: demo_writer_def empty_fleet_def fun_eq_iff)
  have "workspace_asked ?d demo_start = demo_ws" by (simp add: workspace_asked_def demo_start_def)
  moreover have "he_host demo_env = demo_host" by (simp add: demo_env_def)
  moreover note failed_start_strands [OF reach_start _ demo_fresh start _ taken rtranclp.rtrancl_refl, of demo_host]
  ultimately have "\<not> lease_available demo_env (hs_leases demo_writer) demo_ws ''act:2''" by simp
  then show ?thesis by (simp add: start)
qed

text \<open>C34. Stopping an activation removes it, closes its session, deletes its row and gives its lease
  back. But a stop while the walk over the models is opening its next session is undone by it:
  the activation is in no registry, so nothing can stop it again, and it has an open session
  with a turn running and a row that reports it as starting.\<close>

theorem stopped_walk_resurrects:
  assumes "host_reach h s" and "fleet_get s act = Some a" and "Creating_next act chain i m \<in> set (hs_tasks s)"
    and s1: "s1 = stop_end e act (stop_begin act s)" and "he_host e = h"
    and s2: "s2 = next_created e2 act chain i m n s1"
  shows "fleet_get s1 act = None \<and> map_get (hs_rows s1) act = None \<and> ac_session a \<notin> set (hs_open s1)
    \<and> (sn_writes (ac_snapshot a) \<and> held_by h (he_probe e) (hs_leases s) (sn_workspace (ac_snapshot a)) act
        \<longrightarrow> lstate (inspect h (he_probe e) (hs_leases s1) (sn_workspace (ac_snapshot a))) = Free)
    \<and> fleet_get s2 act = None \<and> stop_begin act s2 = s2
    \<and> n \<in> set (hs_open s2) \<and> Running act n (Some (chain, i + 1)) \<in> set (hs_tasks s2)
    \<and> map_option row_state (map_get (hs_rows s2) act) = Some Act_starting"
proof -
  have o: "map_get (hs_objects s) act = Some a" using assms(2) by (simp add: fleet_get_def split: if_splits)
  have id: "sn_activation (ac_snapshot a) = act"
    using host_inv_object [OF host_reach_inv [OF assms(1)] o] by (auto simp: fixed_part_def)
  have stopped: "fleet_get s1 act = None \<and> map_get (hs_rows s1) act = None \<and> ac_session a \<notin> set (hs_open s1)
    \<and> (\<exists>a1. map_get (hs_objects s1) act = Some a1 \<and> sn_activation (ac_snapshot a1) = act)"
    using assms(2) o id
    by (simp add: s1 stop_end_def stop_begin_def add_task_def take_task_def put_object_def dispose_session_def forget_def
        releaseIfWriter_def fleet_get_def map_get_set map_get_delete Let_def)
  moreover have "lstate (inspect h (he_probe e) (hs_leases s1) (sn_workspace (ac_snapshot a))) = Free"
    if "sn_writes (ac_snapshot a)" "held_by h (he_probe e) (hs_leases s) (sn_workspace (ac_snapshot a)) act"
    using assms(2,5) o that release_held_by [OF that(2)]
    by (simp add: s1 stop_end_def stop_begin_def add_task_def take_task_def put_object_def dispose_session_def forget_def
        releaseIfWriter_def map_get_set inspect_Free_iff Let_def)
  moreover have "fleet_get s2 act = None \<and> n \<in> set (hs_open s2) \<and> Running act n (Some (chain, i + 1)) \<in> set (hs_tasks s2)
    \<and> map_option row_state (map_get (hs_rows s2) act) = Some Act_starting"
    using stopped
    by (auto simp: s2 next_created_def add_task_def take_task_def put_object_def dispose_session_def save_def fleet_get_def map_get_set Let_def
        split: if_splits)
  ultimately show ?thesis by (simp add: stop_begin_def)
qed

definition demo_walking :: host_state where
  "demo_walking = next_checked ''act:1'' [''a'', ''b'', ''c''] 0 (demo_check ''b'')
     (turn_ends demo_env ''act:1'' 1 (Some ([''a'', ''b'', ''c''], 0)) (Failed_turn ''429 too many requests'') demo_running)"

lemma demo_turn_failed:
  "hs_tasks (turn_ends demo_env ''act:1'' 1 (Some ([''a'', ''b'', ''c''], 0)) (Failed_turn ''429 too many requests'') demo_running)
    = [Checking_next ''act:1'' [''a'', ''b'', ''c''] 0]"
  "fleet_get (turn_ends demo_env ''act:1'' 1 (Some ([''a'', ''b'', ''c''], 0)) (Failed_turn ''429 too many requests'') demo_running) ''act:1'' \<noteq> None"
proof -
  have "walk_next [''a'', ''b'', ''c''] 0 True ''429 too many requests'' = Some ''b''" by code_simp
  then show "hs_tasks (turn_ends demo_env ''act:1'' 1 (Some ([''a'', ''b'', ''c''], 0)) (Failed_turn ''429 too many requests'') demo_running)
      = [Checking_next ''act:1'' [''a'', ''b'', ''c''] 0]"
    and "fleet_get (turn_ends demo_env ''act:1'' 1 (Some ([''a'', ''b'', ''c''], 0)) (Failed_turn ''429 too many requests'') demo_running) ''act:1'' \<noteq> None"
    by (simp_all add: turn_ends_def demo_running_def first_created_def move_to_def put_object_def save_def add_task_def take_task_def
        demo_writer_def empty_fleet_def demo_plan_def fleet_get_def map_get_set Let_def)
qed

lemma demo_walking_reached: "host_reach demo_host demo_walking"
proof -
  have "Running ''act:1'' 1 (Some ([''a'', ''b'', ''c''], 0)) \<in> set (hs_tasks demo_running)"
    by (simp add: demo_running_def first_created_def add_task_def save_def put_object_def take_task_def demo_plan_def demo_writer_def empty_fleet_def Let_def)
  then have "own_turn demo_host demo_running
      (turn_ends demo_env ''act:1'' 1 (Some ([''a'', ''b'', ''c''], 0)) (Failed_turn ''429 too many requests'') demo_running)"
    by (rule t_turn_ends [rotated]) (simp add: demo_env_def)
  from reach_turn [OF reach_turn [OF demo_running_reached t_own [OF this]] t_own [OF t_next_checked]] demo_turn_failed(1)
  show ?thesis unfolding demo_walking_def by simp
qed

lemma demo_walking_state: "Creating_next ''act:1'' [''a'', ''b'', ''c''] 0 ''b'' \<in> set (hs_tasks demo_walking)" "fleet_get demo_walking ''act:1'' \<noteq> None"
proof -
  have "honoured (demo_check ''b'')" "mg_resolved (demo_check ''b'') = Some ''b''" by (simp_all add: demo_check_def honoured_def)
  then show "Creating_next ''act:1'' [''a'', ''b'', ''c''] 0 ''b'' \<in> set (hs_tasks demo_walking)"
    by (simp add: demo_walking_def next_checked_def add_task_def Let_def)
  have "fleet_get (next_checked act chain i g s) act' = fleet_get s act'" for act chain i g s act'
    by (simp add: next_checked_def add_task_def take_task_def fleet_get_def Let_def)
  then show "fleet_get demo_walking ''act:1'' \<noteq> None" using demo_turn_failed(2) by (simp add: demo_walking_def)
qed

theorem stopped_walk_resurrects_witness:
  "fleet_get (next_created demo_env ''act:1'' [''a'', ''b'', ''c''] 0 ''b'' 2 (stop_end demo_env ''act:1'' (stop_begin ''act:1'' demo_walking))) ''act:1'' = None
   \<and> 2 \<in> set (hs_open (next_created demo_env ''act:1'' [''a'', ''b'', ''c''] 0 ''b'' 2
       (stop_end demo_env ''act:1'' (stop_begin ''act:1'' demo_walking))))"
proof -
  obtain a where a: "fleet_get demo_walking ''act:1'' = Some a" using demo_walking_state(2) by blast
  have "he_host demo_env = demo_host" by (simp add: demo_env_def)
  from stopped_walk_resurrects [OF demo_walking_reached a demo_walking_state(1) refl this refl, of demo_env 2]
  show ?thesis by blast
qed

end
