(* ===== verification/Output_Contract.thy ===== *)
theory Output_Contract imports Json_Value begin

text \<open>
  The contract on what a specialist answers, in \<open>src/specialist/runner.ts\<close>: the schemas of the
  output types, their merge, the validation of a parsed answer against the merged schema and
  the warnings of a run. A schema is a JSON object. \<open>JSON.parse\<close> of a text is a parameter, the
  text of its error on the left and not empty. The keys of schemas and answers are not names
  every object inherits.
\<close>

type_synonym json_schema = "(string, json) js_map"

section \<open>Language\<close>

fun isRecord :: "json \<Rightarrow> bool" where
  "isRecord (JObj m) = True"
| "isRecord _ = False"

text \<open>\<open>typeof\<close>, \<open>Object.is\<close> on two values with no object in common, and \<open>JSON.stringify\<close>.\<close>

fun json_typeof :: "json \<Rightarrow> string" where
  "json_typeof (JBool b) = ''boolean''"
| "json_typeof (JNum n) = ''number''"
| "json_typeof (JStr s) = ''string''"
| "json_typeof _ = ''object''"

fun same_value :: "json \<Rightarrow> json \<Rightarrow> bool" where
  "same_value (JArr a) v = False"
| "same_value (JObj m) v = False"
| "same_value c v = (c = v)"

definition hex_digit :: "nat \<Rightarrow> char" where
  "hex_digit n = char_of (if n < 10 then 48 + n else 87 + n)"

definition escape_char :: "char \<Rightarrow> string" where
  "escape_char c =
     (if c = CHR 0x22 \<or> c = CHR 0x5C then [CHR 0x5C, c]
      else if char_code c = 8 then [CHR 0x5C, CHR ''b'']
      else if char_code c = 9 then [CHR 0x5C, CHR ''t'']
      else if char_code c = 10 then [CHR 0x5C, CHR ''n'']
      else if char_code c = 12 then [CHR 0x5C, CHR ''f'']
      else if char_code c = 13 then [CHR 0x5C, CHR ''r'']
      else if char_code c < 32 then CHR 0x5C # ''u00'' @ [hex_digit (char_code c div 16), hex_digit (char_code c mod 16)]
      else [c])"

definition stringify_string :: "string \<Rightarrow> string" where
  "stringify_string s = CHR 0x22 # concat (map escape_char s) @ [CHR 0x22]"

fun stringify :: "json \<Rightarrow> string" where
  "stringify JNull = ''null''"
| "stringify (JBool b) = (if b then ''true'' else ''false'')"
| "stringify (JNum n) = show_int n"
| "stringify (JStr s) = stringify_string s"
| "stringify (JArr js) = ''['' @ join '','' (map stringify js) @ '']''"
| "stringify (JObj m) = ''{'' @ join '','' (map (\<lambda>(k, v). stringify_string k @ '':'' @ stringify v) m) @ ''}''"

section \<open>Validation\<close>

definition schema_properties :: "json_schema \<Rightarrow> (string \<times> json) list" where
  "schema_properties schema = (case map_get schema ''properties'' of Some (JObj ps) \<Rightarrow> ps | _ \<Rightarrow> [])"

definition schema_required :: "json_schema \<Rightarrow> string list" where
  "schema_required schema =
     concat (map (\<lambda>j. case j of JStr k \<Rightarrow> [k] | _ \<Rightarrow> []) (array_items (map_get schema ''required'')))"

definition effectiveType :: "json_schema \<Rightarrow> string option" where
  "effectiveType schema =
     (case map_get schema ''type'' of
        Some (JStr t) \<Rightarrow> if t = [] then None else Some t
      | _ \<Rightarrow>
          (case (map_get schema ''properties'', map_get schema ''required'', map_get schema ''items'') of
             (Some (JObj ps), _, _) \<Rightarrow> Some ''object''
           | (_, Some (JArr rs), _) \<Rightarrow> Some ''object''
           | (_, _, Some (JArr is)) \<Rightarrow> Some ''array''
           | _ \<Rightarrow> None))"

definition enum_errors :: "json \<Rightarrow> json_schema \<Rightarrow> string \<Rightarrow> string list" where
  "enum_errors value schema path =
     (let candidates = array_items (map_get schema ''enum'') in
      if candidates \<noteq> [] \<and> \<not> list_ex (\<lambda>c. same_value c value) candidates
      then [path @ '': expected one of ['' @ join '', '' (map stringify candidates) @ ''], got '' @ stringify value]
      else [])"

definition type_error :: "string \<Rightarrow> json \<Rightarrow> string \<Rightarrow> string list" where
  "type_error t value path =
     (if t = ''string'' then (case value of JStr s \<Rightarrow> [] | _ \<Rightarrow> [path @ '': expected string, got '' @ json_typeof value])
      else if t = ''number'' then (case value of JNum n \<Rightarrow> [] | _ \<Rightarrow> [path @ '': expected number, got '' @ json_typeof value])
      else if t = ''integer'' then (case value of JNum n \<Rightarrow> [] | _ \<Rightarrow> [path @ '': expected integer, got '' @ stringify value])
      else if t = ''boolean'' then (case value of JBool b \<Rightarrow> [] | _ \<Rightarrow> [path @ '': expected boolean, got '' @ json_typeof value])
      else [])"

definition missing_errors :: "(string, json) js_map \<Rightarrow> json_schema \<Rightarrow> string \<Rightarrow> string list" where
  "missing_errors m schema path =
     map (\<lambda>key. path @ ''.'' @ key @ '': missing required property'') (filter (\<lambda>key. \<not> map_has m key) (schema_required schema))"

lemma size_map_get: "map_get m k = Some v \<Longrightarrow> size v < Suc (size_list (size_prod (\<lambda>x. 0) size) m)"
  by (induction m k rule: map_get.induct) (auto split: if_splits)

function validateValueAgainstSchema :: "json \<Rightarrow> json_schema \<Rightarrow> string \<Rightarrow> string list" where
  "validateValueAgainstSchema value schema path =
     enum_errors value schema path @
     (case effectiveType schema of
        None \<Rightarrow> []
      | Some t \<Rightarrow>
          if t = ''object'' then
            (case value of
               JObj m \<Rightarrow> missing_errors m schema path
                 @ concat (map (\<lambda>(key, sub).
                     (case (map_get m key, sub) of
                        (Some v, JObj propertySchema) \<Rightarrow> validateValueAgainstSchema v propertySchema (path @ ''.'' @ key)
                      | _ \<Rightarrow> [])) (schema_properties schema))
             | _ \<Rightarrow> [path @ '': expected object, got '' @ (case value of JArr js \<Rightarrow> ''array'' | _ \<Rightarrow> json_typeof value)])
          else if t = ''array'' then
            (case value of
               JArr js \<Rightarrow>
                 (case map_get schema ''items'' of
                    Some (JObj itemSchema) \<Rightarrow>
                      concat (map (\<lambda>i. validateValueAgainstSchema (js ! i) itemSchema (path @ ''['' @ show_nat i @ '']'')) [0..<length js])
                  | _ \<Rightarrow> [])
             | _ \<Rightarrow> [path @ '': expected array, got '' @ json_typeof value])
          else type_error t value path)"
  by pat_completeness auto
termination
proof (relation "measure (\<lambda>(v, s, p). size v)", goal_cases)
  case 1
  then show ?case by simp
next
  case 2
  then show ?case by (auto dest!: size_map_get [OF sym])
next
  case (3 val schema path x2 js j ps i)
  then have "js ! i \<in> set js" by simp
  from size_list_estimation' [OF this order_refl, of size] show ?case using 3 by simp
qed

declare validateValueAgainstSchema.simps [simp del]

section \<open>What a schema asks of a value\<close>

text \<open>The parts of a value a schema speaks of, each with the schema it is held to.\<close>

inductive asked :: "json \<Rightarrow> json_schema \<Rightarrow> json \<Rightarrow> json_schema \<Rightarrow> bool" where
  asked_here: "asked v s v s"
| asked_property: "effectiveType s = Some ''object'' \<Longrightarrow> (k, JObj s1) \<in> set (schema_properties s) \<Longrightarrow> map_get m k = Some v1 \<Longrightarrow>
    asked v1 s1 w t \<Longrightarrow> asked (JObj m) s w t"
| asked_item: "effectiveType s = Some ''array'' \<Longrightarrow> map_get s ''items'' = Some (JObj s1) \<Longrightarrow> v1 \<in> set js \<Longrightarrow>
    asked v1 s1 w t \<Longrightarrow> asked (JArr js) s w t"

fun of_type :: "string \<Rightarrow> json \<Rightarrow> bool" where
  "of_type t (JObj m) = (t \<notin> {''array'', ''string'', ''number'', ''integer'', ''boolean''})"
| "of_type t (JArr js) = (t \<notin> {''object'', ''string'', ''number'', ''integer'', ''boolean''})"
| "of_type t (JStr s) = (t \<notin> {''object'', ''array'', ''number'', ''integer'', ''boolean''})"
| "of_type t (JNum n) = (t \<notin> {''object'', ''array'', ''string'', ''boolean''})"
| "of_type t (JBool b) = (t \<notin> {''object'', ''array'', ''string'', ''number'', ''integer''})"
| "of_type t JNull = (t \<notin> {''object'', ''array'', ''string'', ''number'', ''integer'', ''boolean''})"

definition locally_ok :: "json \<Rightarrow> json_schema \<Rightarrow> bool" where
  "locally_ok v s \<longleftrightarrow>
     (array_items (map_get s ''enum'') = [] \<or> (\<exists>c \<in> set (array_items (map_get s ''enum'')). same_value c v))
   \<and> (\<forall>t. effectiveType s = Some t \<longrightarrow> of_type t v)
   \<and> (effectiveType s = Some ''object'' \<longrightarrow> (\<forall>k \<in> set (schema_required s). field v k \<noteq> None))"

lemma enum_errors_iff:
  "enum_errors v s p = [] \<longleftrightarrow> array_items (map_get s ''enum'') = [] \<or> (\<exists>c \<in> set (array_items (map_get s ''enum'')). same_value c v)"
  by (auto simp: enum_errors_def Let_def list_ex_iff)

lemma type_error_iff: "t \<noteq> ''object'' \<Longrightarrow> t \<noteq> ''array'' \<Longrightarrow> type_error t v p = [] \<longleftrightarrow> of_type t v"
  by (cases v) (auto simp: type_error_def)

lemma missing_errors_iff: "missing_errors m s p = [] \<longleftrightarrow> (\<forall>k \<in> set (schema_required s). field (JObj m) k \<noteq> None)"
  by (auto simp: missing_errors_def filter_empty_conv map_has_def)

text \<open>The parts one step below.\<close>

definition below :: "json \<Rightarrow> json_schema \<Rightarrow> (json \<times> json_schema) set" where
  "below v s = {(v1, s1).
     (\<exists>m k. v = JObj m \<and> effectiveType s = Some ''object'' \<and> (k, JObj s1) \<in> set (schema_properties s) \<and> map_get m k = Some v1)
   \<or> (\<exists>js. v = JArr js \<and> effectiveType s = Some ''array'' \<and> map_get s ''items'' = Some (JObj s1) \<and> v1 \<in> set js)}"

lemma asked_iff: "asked v s w t \<longleftrightarrow> (w, t) = (v, s) \<or> (\<exists>(v1, s1) \<in> below v s. asked v1 s1 w t)"
  by (subst asked.simps) (auto simp: below_def)

lemma below_size: "(v1, s1) \<in> below v s \<Longrightarrow> size v1 < size v"
  by (auto simp: below_def dest!: size_map_get intro: size_list_estimation' [THEN le_imp_less_Suc])

lemma below_object:
  "effectiveType s = Some ''object'' \<Longrightarrow> (v1, s1) \<in> below (JObj m) s \<longleftrightarrow> (\<exists>k. (k, JObj s1) \<in> set (schema_properties s) \<and> map_get m k = Some v1)"
  "effectiveType s = Some ''array'' \<Longrightarrow> (v1, s1) \<in> below (JArr js) s \<longleftrightarrow> map_get s ''items'' = Some (JObj s1) \<and> v1 \<in> set js"
  by (auto simp: below_def)

lemma below_none:
  "effectiveType s \<noteq> Some ''object'' \<Longrightarrow> effectiveType s \<noteq> Some ''array'' \<Longrightarrow> below v s = {}"
  "\<not> isRecord v \<Longrightarrow> effectiveType s = Some ''object'' \<Longrightarrow> below v s = {}"
  "effectiveType s = Some ''array'' \<Longrightarrow> \<nexists>js. v = JArr js \<Longrightarrow> below v s = {}"
  by (auto simp: below_def)

lemma validate_step:
  assumes below: "\<And>v1 s1 q. (v1, s1) \<in> below v s \<Longrightarrow> validateValueAgainstSchema v1 s1 q = [] \<longleftrightarrow> P v1 s1"
  shows "validateValueAgainstSchema v s p = [] \<longleftrightarrow> locally_ok v s \<and> (\<forall>(v1, s1) \<in> below v s. P v1 s1)"
proof (cases "effectiveType s")
  case None
  then show ?thesis
    using below_none(1) [of s v] by (simp add: validateValueAgainstSchema.simps [of v s p] locally_ok_def enum_errors_iff)
next
  case (Some t)
  consider "t = ''object''" | "t = ''array''" | "t \<noteq> ''object''" "t \<noteq> ''array''" by blast
  then show ?thesis
  proof cases
    case 1
    show ?thesis
    proof (cases "isRecord v")
      case True
      then obtain m where v: "v = JObj m" by (cases v) auto
      have "(case (map_get m k, sub) of (Some v, JObj propertySchema) \<Rightarrow> validateValueAgainstSchema v propertySchema (p @ ''.'' @ k) | _ \<Rightarrow> []) = []
          \<longleftrightarrow> (\<forall>v1 s1. sub = JObj s1 \<and> map_get m k = Some v1 \<longrightarrow> P v1 s1)" if "(k, sub) \<in> set (schema_properties s)" for k sub
        using that below Some 1 unfolding v by (auto simp: below_object split: option.split json.split)
      then show ?thesis
        using Some 1 unfolding v
        by (simp add: validateValueAgainstSchema.simps [of "JObj m" s p] locally_ok_def enum_errors_iff missing_errors_iff below_object)
           (fastforce simp: below_object)
    next
      case False
      then show ?thesis
        using Some 1 by (cases v) (simp_all add: validateValueAgainstSchema.simps [of _ s p] locally_ok_def)
    qed
  next
    case 2
    show ?thesis
    proof (cases "\<exists>js. v = JArr js")
      case True
      then obtain js where v: "v = JArr js" by blast
      show ?thesis
      proof (cases "\<exists>s1. map_get s ''items'' = Some (JObj s1)")
        case True
        then obtain s1 where item: "map_get s ''items'' = Some (JObj s1)" by blast
        have "validateValueAgainstSchema (js ! i) s1 q = [] \<longleftrightarrow> P (js ! i) s1" if "i < length js" for i q
          using below [of "js ! i" s1] Some 2 item that unfolding v by (simp add: below_object)
        moreover have "(\<forall>(v1, s2) \<in> below (JArr js) s. P v1 s2) \<longleftrightarrow> (\<forall>i < length js. P (js ! i) s1)"
          using Some 2 item by (auto simp: below_def in_set_conv_nth)
        ultimately show ?thesis
          using Some 2 item unfolding v
          by (auto simp: validateValueAgainstSchema.simps [of "JArr js" s p] locally_ok_def enum_errors_iff)
      next
        case False
        then have "below v s = {}" using Some 2 by (auto simp: below_def)
        then show ?thesis
          using Some 2 False unfolding v
          by (auto simp: validateValueAgainstSchema.simps [of "JArr js" s p] locally_ok_def enum_errors_iff split: option.split json.split)
      qed
    next
      case False
      then show ?thesis
        using Some 2 by (cases v) (simp_all add: validateValueAgainstSchema.simps [of _ s p] locally_ok_def)
    qed
  next
    case 3
    then show ?thesis
      using Some below_none(1) [of s v]
      by (simp add: validateValueAgainstSchema.simps [of v s p] locally_ok_def enum_errors_iff type_error_iff)
  qed
qed

lemma schema_iff: "validateValueAgainstSchema v s p = [] \<longleftrightarrow> (\<forall>w t. asked v s w t \<longrightarrow> locally_ok w t)"
proof (induction "size v" arbitrary: v s p rule: less_induct)
  case less
  have "validateValueAgainstSchema v s p = [] \<longleftrightarrow>
      locally_ok v s \<and> (\<forall>(v1, s1) \<in> below v s. \<forall>w t. asked v1 s1 w t \<longrightarrow> locally_ok w t)"
    by (rule validate_step) (rule less [OF below_size])
  then show ?case by (subst asked_iff) blast
qed

section \<open>The schemas\<close>

definition str_s :: json where
  "str_s = JObj [(''type'', JStr ''string'')]"

definition strs_s :: json where
  "strs_s = JObj [(''type'', JStr ''array''), (''items'', str_s)]"

definition of_s :: "string \<Rightarrow> json" where
  "of_s t = JObj [(''type'', JStr t)]"

definition enum_s :: "string list \<Rightarrow> json" where
  "enum_s vs = JObj [(''enum'', JArr (map JStr vs))]"

definition object_s :: "(string \<times> json) list \<Rightarrow> json_schema" where
  "object_s ps = [(''type'', JStr ''object''), (''properties'', JObj ps)]"

definition object_req_s :: "(string \<times> json) list \<Rightarrow> string list \<Rightarrow> json" where
  "object_req_s ps req = JObj [(''type'', JStr ''object''), (''properties'', JObj ps), (''required'', JArr (map JStr req))]"

definition array_s :: "json \<Rightarrow> json" where
  "array_s item = JObj [(''type'', JStr ''array''), (''items'', item)]"

definition BASE_OUTPUT_SCHEMA :: json_schema where
  "BASE_OUTPUT_SCHEMA =
     [(''type'', JStr ''object''),
      (''properties'', JObj
        [(''summary'', str_s), (''status'', enum_s [''success'', ''partial'', ''failed'', ''waiting'']),
         (''issues_closed'', strs_s), (''issues_created'', strs_s), (''follow_ups'', strs_s), (''risks'', strs_s),
         (''verification'', strs_s)]),
      (''required'', JArr (map JStr
        [''summary'', ''status'', ''issues_closed'', ''issues_created'', ''follow_ups'', ''risks'', ''verification'']))]"

definition IMPACT_REPORT_SCHEMA :: json where
  "IMPACT_REPORT_SCHEMA = JObj (object_s
     [(''files_touched'', strs_s), (''symbols_analyzed'', strs_s), (''highest_risk'', enum_s [''LOW'', ''MEDIUM'', ''HIGH'', ''CRITICAL'']),
      (''tool_invocations'', of_s ''number'')])"

datatype response_format = Text_format | Json_format | Markdown_format

datatype output_type = Codegen | Analysis | Review | Synthesis | Orchestration | Workflow | Research | Custom

definition action_schemas :: "json list" where
  "action_schemas =
     [object_req_s [(''type'', enum_s [''resume'']), (''memberId'', str_s), (''task'', str_s)] [''type'', ''memberId'', ''task''],
      object_req_s [(''type'', enum_s [''steer'']), (''memberId'', str_s), (''message'', str_s)] [''type'', ''memberId'', ''message''],
      object_req_s [(''type'', enum_s [''stop'']), (''memberId'', str_s)] [''type'', ''memberId'']]"

fun OUTPUT_TYPE_SCHEMA_EXTENSIONS :: "output_type \<Rightarrow> json_schema" where
  "OUTPUT_TYPE_SCHEMA_EXTENSIONS Codegen = object_s
     [(''files_changed'', strs_s), (''symbols_modified'', strs_s), (''lint_pass'', of_s ''boolean''), (''tests_pass'', of_s ''boolean''),
      (''impact_report'', IMPACT_REPORT_SCHEMA)]"
| "OUTPUT_TYPE_SCHEMA_EXTENSIONS Analysis = object_s
     [(''key_files'', strs_s), (''architecture_notes'', str_s), (''recommendations'', strs_s), (''impact_report'', IMPACT_REPORT_SCHEMA)]"
| "OUTPUT_TYPE_SCHEMA_EXTENSIONS Review = object_s
     [(''verdict'', enum_s [''pass'', ''partial'', ''fail'']), (''findings'', strs_s), (''recommendation'', str_s)]"
| "OUTPUT_TYPE_SCHEMA_EXTENSIONS Synthesis = object_s
     [(''decisions'', strs_s), (''rationale'', str_s), (''next_steps'', strs_s)]"
| "OUTPUT_TYPE_SCHEMA_EXTENSIONS Orchestration = object_s
     [(''actions'', array_s (JObj [(''oneOf'', JArr action_schemas)])),
      (''blocking_on'', object_req_s
        [(''kind'', enum_s [''human_input'', ''member_output'', ''external_dependency'']), (''target'', str_s), (''details'', str_s)] [''kind'']),
      (''memory_patch'', array_s (object_req_s
        [(''entry_type'', enum_s [''fact'', ''question'', ''decision'']), (''entry_id'', str_s), (''summary'', str_s),
         (''source_member_id'', str_s), (''confidence'', of_s ''number''), (''provenance'', of_s ''object'')] [''entry_type'', ''summary''])),
      (''coordination_state'', JObj (object_s
        [(''current_goal'', str_s), (''active_members'', strs_s), (''waiting_on_members'', strs_s), (''pending_decisions'', strs_s),
         (''blockers'', strs_s)])),
      (''routing_rationale'', str_s),
      (''next_trigger'', object_req_s
        [(''event'', enum_s [''on_member_update'', ''on_human_input'', ''on_external_update'', ''on_timeout'', ''manual_resume'']),
         (''target'', str_s), (''details'', str_s)] [''event''])]"
| "OUTPUT_TYPE_SCHEMA_EXTENSIONS Workflow = object_s
     [(''steps_completed'', strs_s), (''first_task'', str_s), (''children'', strs_s), (''test_issues'', strs_s)]"
| "OUTPUT_TYPE_SCHEMA_EXTENSIONS Research = object_s
     [(''sources_checked'', strs_s), (''confidence'', enum_s [''low'', ''medium'', ''high'']), (''recommendations'', strs_s)]"
| "OUTPUT_TYPE_SCHEMA_EXTENSIONS Custom = []"

function deepMergeSchemas :: "json_schema \<Rightarrow> json_schema \<Rightarrow> json_schema" where
  "deepMergeSchemas merged [] = merged"
| "deepMergeSchemas merged ((key, overrideValue) # entries) =
     (let v = (case (map_get merged key, overrideValue) of
                 (Some (JObj b), JObj override) \<Rightarrow> JObj (deepMergeSchemas b override)
               | _ \<Rightarrow> overrideValue) in
      deepMergeSchemas (map_set merged key v) entries)"
  by pat_completeness auto
termination
  by (relation "measure (\<lambda>(m, es). size_list (size_prod (\<lambda>x. 0) size) es)") auto

definition resolveOutputContractSchema :: "response_format \<Rightarrow> output_type \<Rightarrow> json_schema option \<Rightarrow> json_schema option" where
  "resolveOutputContractSchema responseFormat outputType outputSchema =
     (if responseFormat = Text_format then None
      else if responseFormat = Markdown_format \<and> outputSchema = None then None
      else
        let merged1 = (if outputType \<noteq> Custom
              then deepMergeSchemas BASE_OUTPUT_SCHEMA (OUTPUT_TYPE_SCHEMA_EXTENSIONS outputType) else BASE_OUTPUT_SCHEMA) in
        Some (case outputSchema of Some s \<Rightarrow> deepMergeSchemas merged1 s | None \<Rightarrow> merged1))"

section \<open>The warnings on an answer\<close>

text \<open>\<open>stripJsonFences\<close> of \<open>src/specialist/json-output.ts\<close>.\<close>

definition fence :: string where
  "fence = replicate 3 (CHR 0x60)"

definition drop_open_fence :: "string \<Rightarrow> string" where
  "drop_open_fence s =
     (if starts_with fence s
      then
        let rest = drop 3 s in
        dropWhile is_space (if starts_with ''json'' (to_lower (take 4 rest)) then drop 4 rest else rest)
      else s)"

definition drop_close_fence :: "string \<Rightarrow> string" where
  "drop_close_fence s =
     (if ends_with fence s then rev (dropWhile is_space (rev (take (length s - 3) s))) else s)"

definition stripJsonFences :: "string \<Rightarrow> string" where
  "stripJsonFences s = trim (drop_close_fence (drop_open_fence s))"

text \<open>The regular expression of the machine-readable block: its header, and what follows it.\<close>

definition block_header_at :: "string \<Rightarrow> string option" where
  "block_header_at s =
     (let rest = dropWhile is_space (drop 2 s) in
      if starts_with ''##'' s \<and> starts_with ''machine-readable block'' (to_lower rest) then Some (drop 22 rest) else None)"

fun after_block_header :: "string \<Rightarrow> string option" where
  "after_block_header [] = None"
| "after_block_header (c # cs) = (case block_header_at (c # cs) of Some rest \<Rightarrow> Some rest | None \<Rightarrow> after_block_header cs)"

definition machine_block :: "string \<Rightarrow> string option" where
  "machine_block out =
     (case after_block_header out of
        None \<Rightarrow> None
      | Some rest \<Rightarrow>
          (case index_of (fence @ ''json'') (to_lower rest) of
             None \<Rightarrow> None
           | Some i \<Rightarrow>
               let body = dropWhile is_space (drop (i + 7) rest) in
               (case index_of fence body of None \<Rightarrow> None | Some j \<Rightarrow> Some (take j body))))"

definition extractJsonFromMachineReadableBlock :: "(string \<Rightarrow> string + json) \<Rightarrow> string \<Rightarrow> string + json" where
  "extractJsonFromMachineReadableBlock parse out =
     (if truthy (machine_block out) then parse (trim (the (machine_block out)))
      else Inl (''missing '' @ [CHR 0x60] @ ''## Machine-readable block'' @ [CHR 0x60] @ '' JSON fenced block''))"

definition schema_warnings :: "string list \<Rightarrow> string list" where
  "schema_warnings issues =
     (if issues = [] then []
      else (''Output contract warning: schema mismatch ('' @ show_nat (length issues) @ '' issue''
             @ (if length issues = 1 then [] else ''s'') @ '').'')
        # map (\<lambda>issue. ''  - '' @ issue) issues)"

definition validateOutputContract :: "(string \<Rightarrow> string + json) \<Rightarrow> string \<Rightarrow> response_format \<Rightarrow> json_schema option \<Rightarrow> string list" where
  "validateOutputContract parse out responseFormat outputSchema =
     (case (responseFormat, outputSchema) of
        (Json_format, Some schema) \<Rightarrow>
          (case parse (trim out) of
             Inl e \<Rightarrow> [''Strong warning: response_format=json but output is not valid JSON ('' @ e @ '').'']
           | Inr value \<Rightarrow> schema_warnings (validateValueAgainstSchema value schema [CHR 0x24]))
      | (Markdown_format, Some schema) \<Rightarrow>
          (case extractJsonFromMachineReadableBlock parse out of
             Inl e \<Rightarrow> [''Output contract warning: '' @ e @ ''.'']
           | Inr value \<Rightarrow> schema_warnings (validateValueAgainstSchema value schema [CHR 0x24]))
      | _ \<Rightarrow> [])"

section \<open>The merge of two schemas\<close>

text \<open>What a schema holds at a path of keys.\<close>

fun at_path :: "json \<Rightarrow> string list \<Rightarrow> json option" where
  "at_path v [] = Some v"
| "at_path (JObj m) (k # ks) = (case map_get m k of Some v \<Rightarrow> at_path v ks | None \<Rightarrow> None)"
| "at_path v (k # ks) = None"

fun wf_json :: "json \<Rightarrow> bool" where
  "wf_json (JObj m) = (map_ok m \<and> (\<forall>(k, v) \<in> set m. wf_json v))"
| "wf_json (JArr js) = (\<forall>v \<in> set js. wf_json v)"
| "wf_json v = True"

text \<open>The override decides about a path when it has something there, or something on the way
  that is no record.\<close>

definition decides :: "json \<Rightarrow> string list \<Rightarrow> bool" where
  "decides v ks \<longleftrightarrow> at_path v ks \<noteq> None \<or> (\<exists>qs ls w. ks = qs @ ls \<and> at_path v qs = Some w \<and> \<not> isRecord w)"

definition merged_value :: "json option \<Rightarrow> json \<Rightarrow> json" where
  "merged_value old v = (case (old, v) of (Some (JObj b), JObj ov) \<Rightarrow> JObj (deepMergeSchemas b ov) | _ \<Rightarrow> v)"

lemma merge_get:
  "map_ok es \<Longrightarrow> map_get (deepMergeSchemas m es) k =
     (case map_get es k of None \<Rightarrow> map_get m k | Some v \<Rightarrow> Some (merged_value (map_get m k) v))"
proof (induction es arbitrary: m)
  case (Cons e es)
  obtain k1 v1 where e: "e = (k1, v1)" by (cases e)
  have ok: "map_ok es" "map_get es k1 = None" using Cons.prems e by (auto simp: map_ok_def map_get_None_iff image_iff)
  have "deepMergeSchemas m ((k1, v1) # es) = deepMergeSchemas (map_set m k1 (merged_value (map_get m k1) v1)) es"
    by (simp add: merged_value_def Let_def)
  then show ?case unfolding e using Cons.IH [OF ok(1)] ok(2) by (simp only:) (auto simp: map_get_set split: option.split)
qed simp

lemma decides_Cons:
  "decides (JObj m) (k # ks) \<longleftrightarrow> (case map_get m k of None \<Rightarrow> False | Some v \<Rightarrow> decides v ks)"
proof -
  have "\<exists>qs ls w. k # ks = qs @ ls \<and> at_path (JObj m) qs = Some w \<and> \<not> isRecord w"
    if "ks = qs @ ls" "at_path (JObj m) (k # qs) = Some w" "\<not> isRecord w" for qs ls w
    using that by (intro exI [of _ "k # qs"] exI [of _ ls] exI [of _ w]) simp
  then have "(\<exists>qs ls w. k # ks = qs @ ls \<and> at_path (JObj m) qs = Some w \<and> \<not> isRecord w) \<longleftrightarrow>
    (\<exists>qs ls w. ks = qs @ ls \<and> at_path (JObj m) (k # qs) = Some w \<and> \<not> isRecord w)"
    by (fastforce simp: Cons_eq_append_conv)
  then show ?thesis by (auto simp: decides_def split: option.split)
qed

lemma decides_leaf: "\<not> isRecord v \<Longrightarrow> decides v ks"
  unfolding decides_def by (metis append_Nil at_path.simps(1))

lemma decides_Nil [simp]: "decides v []"
  by (simp add: decides_def)

lemma merge_leaves:
  assumes "wf_json (JObj ov)" and "\<not> isRecord v"
  shows "at_path (JObj (deepMergeSchemas m ov)) ks = Some v \<longleftrightarrow>
    at_path (JObj ov) ks = Some v \<or> \<not> decides (JObj ov) ks \<and> at_path (JObj m) ks = Some v"
  using assms
proof (induction ks arbitrary: m ov)
  case Nil
  then show ?case by auto
next
  case (Cons k ks)
  then have ok: "map_ok ov" by simp
  show ?case
  proof (cases "map_get ov k")
    case None
    then show ?thesis by (simp add: merge_get [OF ok] decides_Cons)
  next
    case (Some w)
    show ?thesis
    proof (cases "\<exists>b o1. map_get m k = Some (JObj b) \<and> w = JObj o1")
      case True
      then obtain b o1 where o: "map_get m k = Some (JObj b)" "w = JObj o1" by blast
      have "wf_json w" using Cons.prems(1) map_get_SomeD [OF Some] by auto
      then show ?thesis using Cons.IH [of o1 b] Cons.prems(2) Some o by (simp add: merge_get [OF ok] merged_value_def decides_Cons)
    next
      case False
      have "at_path x ks = None" if "map_get m k = Some x" "\<not> decides w ks" for x
        using that False decides_leaf [of w ks] by (cases w; cases x; cases ks) auto
      then have "\<not> (\<not> decides w ks \<and> at_path (JObj m) (k # ks) = Some v)" by (auto split: option.split_asm)
      moreover have "merged_value (map_get m k) w = w"
        using False by (auto simp: merged_value_def split: option.split json.split)
      ultimately show ?thesis using Some by (auto simp: merge_get [OF ok] decides_Cons)
    qed
  qed
qed

section \<open>The base contract\<close>

definition accepts :: "json_schema \<Rightarrow> json \<Rightarrow> bool" where
  "accepts s v \<longleftrightarrow> (\<forall>w t. asked v s w t \<longrightarrow> locally_ok w t)"

lemma accepts_step: "accepts s v \<longleftrightarrow> locally_ok v s \<and> (\<forall>(v1, s1) \<in> below v s. accepts s1 v1)"
  unfolding accepts_def by (subst asked_iff) blast

lemma accepts_object:
  assumes "effectiveType s = Some ''object''" and "map_get s ''enum'' = None"
  shows "accepts s v \<longleftrightarrow> (\<exists>m. v = JObj m \<and> (\<forall>k \<in> set (schema_required s). map_get m k \<noteq> None)
    \<and> (\<forall>k s1 v1. (k, JObj s1) \<in> set (schema_properties s) \<and> map_get m k = Some v1 \<longrightarrow> accepts s1 v1))"
  using assms by (subst accepts_step, cases v) (auto simp: locally_ok_def below_def)

definition is_strings :: "json \<Rightarrow> bool" where
  "is_strings v \<longleftrightarrow> (\<exists>js. v = JArr js \<and> (\<forall>j \<in> set js. \<exists>s. j = JStr s))"

lemma accepts_str [simp]: "accepts [(''type'', JStr ''string'')] v \<longleftrightarrow> (\<exists>s. v = JStr s)"
  by (subst accepts_step, cases v) (auto simp: locally_ok_def below_def effectiveType_def)

lemma accepts_enum [simp]: "accepts [(''enum'', JArr (map JStr vs))] v \<longleftrightarrow> vs = [] \<or> (\<exists>s \<in> set vs. v = JStr s)"
  by (subst accepts_step, cases v) (auto simp: locally_ok_def below_def effectiveType_def)

lemma accepts_strs [simp]: "accepts [(''type'', JStr ''array''), (''items'', JObj [(''type'', JStr ''string'')])] v \<longleftrightarrow> is_strings v"
  by (subst accepts_step, cases v) (auto simp: locally_ok_def below_def effectiveType_def is_strings_def)

definition base_lists :: "string list" where
  "base_lists = [''issues_closed'', ''issues_created'', ''follow_ups'', ''risks'', ''verification'']"

text \<open>An answer with the fields every output type shares.\<close>

definition base_answer :: "json \<Rightarrow> bool" where
  "base_answer v \<longleftrightarrow> (\<exists>m s st. v = JObj m \<and> map_get m ''summary'' = Some (JStr s) \<and> map_get m ''status'' = Some (JStr st)
     \<and> st \<in> {''success'', ''partial'', ''failed'', ''waiting''}
     \<and> (\<forall>k \<in> set base_lists. \<exists>js. map_get m k = Some js \<and> is_strings js))"

definition field_accepted :: "(string, json) js_map \<Rightarrow> string \<times> json \<Rightarrow> bool" where
  "field_accepted m f = (case (snd f, map_get m (fst f)) of (JObj s1, Some v1) \<Rightarrow> accepts s1 v1 | _ \<Rightarrow> True)"

lemma field_accepted_iff:
  "field_accepted m (k, sub) \<longleftrightarrow> (\<forall>s1 v1. sub = JObj s1 \<and> map_get m k = Some v1 \<longrightarrow> accepts s1 v1)"
  by (auto simp: field_accepted_def split: json.split option.split)

lemma accepts_fields:
  assumes "effectiveType s = Some ''object''" and "map_get s ''enum'' = None"
  shows "accepts s v \<longleftrightarrow> (\<exists>m. v = JObj m \<and> list_all (map_has m) (schema_required s) \<and> list_all (field_accepted m) (schema_properties s))"
proof -
  have "(\<forall>k s1 v1. (k, JObj s1) \<in> set ps \<and> map_get m k = Some v1 \<longrightarrow> accepts s1 v1) \<longleftrightarrow> list_all (field_accepted m) ps" for m ps
    unfolding list_all_iff by (fastforce simp: field_accepted_iff)
  then show ?thesis unfolding accepts_object [OF assms] by (auto simp: list_all_iff map_has_def)
qed

lemma field_accepted_present:
  "map_has m k \<and> field_accepted m (k, JObj s1) \<longleftrightarrow> (\<exists>v1. map_get m k = Some v1 \<and> accepts s1 v1)"
  by (auto simp: map_has_def field_accepted_def split: option.split)

lemma field_present [simp]:
  "map_has m k \<and> field_accepted m (k, str_s) \<longleftrightarrow> (\<exists>s. map_get m k = Some (JStr s))"
  "map_has m k \<and> field_accepted m (k, strs_s) \<longleftrightarrow> (\<exists>js. map_get m k = Some js \<and> is_strings js)"
  "vs \<noteq> [] \<Longrightarrow> map_has m k \<and> field_accepted m (k, enum_s vs) \<longleftrightarrow> (\<exists>s \<in> set vs. map_get m k = Some (JStr s))"
  unfolding str_s_def strs_s_def enum_s_def field_accepted_present by auto

lemma base_required:
  "schema_required BASE_OUTPUT_SCHEMA = map fst (schema_properties BASE_OUTPUT_SCHEMA)"
  by (simp add: BASE_OUTPUT_SCHEMA_def schema_required_def schema_properties_def)

lemma base_fields:
  "list_all (\<lambda>f. map_has m (fst f) \<and> field_accepted m f) (schema_properties BASE_OUTPUT_SCHEMA) \<longleftrightarrow> base_answer (JObj m)"
proof -
  have "schema_properties BASE_OUTPUT_SCHEMA =
      [(''summary'', str_s), (''status'', enum_s [''success'', ''partial'', ''failed'', ''waiting''])] @ map (\<lambda>k. (k, strs_s)) base_lists"
    by (simp add: BASE_OUTPUT_SCHEMA_def schema_properties_def base_lists_def)
  then show ?thesis by (auto simp: base_answer_def list_all_iff)
qed

lemma base_schema_accepts: "accepts BASE_OUTPUT_SCHEMA v \<longleftrightarrow> base_answer v"
proof -
  have base: "effectiveType BASE_OUTPUT_SCHEMA = Some ''object''" "map_get BASE_OUTPUT_SCHEMA ''enum'' = None"
    by (simp_all add: BASE_OUTPUT_SCHEMA_def effectiveType_def)
  have "accepts BASE_OUTPUT_SCHEMA v \<longleftrightarrow> (\<exists>m. v = JObj m \<and> base_answer (JObj m))"
    unfolding accepts_fields [OF base] base_required base_fields [symmetric] by (auto simp: list_all_iff)
  then show ?thesis by (auto simp: base_answer_def)
qed

text \<open>An output type adds fields of its own to it.\<close>

lemma extension_form:
  assumes "t \<noteq> Custom"
  obtains ps where "OUTPUT_TYPE_SCHEMA_EXTENSIONS t = object_s ps" and "map_ok ps"
    and "\<forall>f \<in> set (schema_properties BASE_OUTPUT_SCHEMA). map_get ps (fst f) = None"
  using assms by (cases t) (simp_all add: map_ok_def BASE_OUTPUT_SCHEMA_def schema_properties_def)

lemma base_shape:
  "map_get BASE_OUTPUT_SCHEMA ''type'' = Some (JStr ''object'')" "map_get BASE_OUTPUT_SCHEMA ''enum'' = None"
  "map_get BASE_OUTPUT_SCHEMA ''properties'' = Some (JObj (schema_properties BASE_OUTPUT_SCHEMA))"
  "map_ok (schema_properties BASE_OUTPUT_SCHEMA)"
  by (simp_all add: BASE_OUTPUT_SCHEMA_def schema_properties_def map_ok_def)

definition typed_schema :: "output_type \<Rightarrow> json_schema" where
  "typed_schema t = (if t \<noteq> Custom then deepMergeSchemas BASE_OUTPUT_SCHEMA (OUTPUT_TYPE_SCHEMA_EXTENSIONS t) else BASE_OUTPUT_SCHEMA)"

lemma typed_schema_shape:
  "map_get (typed_schema t) ''type'' = Some (JStr ''object'') \<and> map_get (typed_schema t) ''enum'' = None
   \<and> map_get (typed_schema t) ''required'' = map_get BASE_OUTPUT_SCHEMA ''required''
   \<and> set (schema_properties BASE_OUTPUT_SCHEMA) \<subseteq> set (schema_properties (typed_schema t))"
proof (cases "t = Custom")
  case False
  then obtain ps where e: "OUTPUT_TYPE_SCHEMA_EXTENSIONS t = object_s ps" and ps: "map_ok ps"
      "\<forall>f \<in> set (schema_properties BASE_OUTPUT_SCHEMA). map_get ps (fst f) = None"
    by (rule extension_form)
  have ok: "map_ok (object_s ps)" by (simp add: object_s_def map_ok_def)
  have get: "map_get (typed_schema t) k = (case map_get (object_s ps) k of None \<Rightarrow> map_get BASE_OUTPUT_SCHEMA k
      | Some v \<Rightarrow> Some (merged_value (map_get BASE_OUTPUT_SCHEMA k) v))" for k
    using False by (simp add: typed_schema_def e merge_get [OF ok])
  have props: "schema_properties (typed_schema t) = deepMergeSchemas (schema_properties BASE_OUTPUT_SCHEMA) ps"
    unfolding schema_properties_def [of "typed_schema t"] get by (simp add: object_s_def base_shape merged_value_def)
  have "f \<in> set (schema_properties (typed_schema t))" if f: "f \<in> set (schema_properties BASE_OUTPUT_SCHEMA)" for f
  proof -
    have "map_get (schema_properties BASE_OUTPUT_SCHEMA) (fst f) = Some (snd f)" using f base_shape(4) by (simp add: map_get_iff)
    then have "map_get (schema_properties (typed_schema t)) (fst f) = Some (snd f)"
      unfolding props using ps f by (simp add: merge_get)
    then show ?thesis by (auto dest: map_get_SomeD)
  qed
  then show "map_get (typed_schema t) ''type'' = Some (JStr ''object'') \<and> map_get (typed_schema t) ''enum'' = None
      \<and> map_get (typed_schema t) ''required'' = map_get BASE_OUTPUT_SCHEMA ''required''
      \<and> set (schema_properties BASE_OUTPUT_SCHEMA) \<subseteq> set (schema_properties (typed_schema t))"
    unfolding get by (auto simp: object_s_def base_shape merged_value_def)
qed (simp add: typed_schema_def base_shape)

lemma typed_schema_accepts:
  assumes "accepts (typed_schema t) v"
  shows "base_answer v"
proof -
  have s: "effectiveType (typed_schema t) = Some ''object''" "map_get (typed_schema t) ''enum'' = None"
    by (simp_all add: effectiveType_def typed_schema_shape)
  obtain m where m: "v = JObj m" "list_all (map_has m) (schema_required (typed_schema t))"
      "list_all (field_accepted m) (schema_properties (typed_schema t))"
    using assms unfolding accepts_fields [OF s] by blast
  have "schema_required (typed_schema t) = map fst (schema_properties BASE_OUTPUT_SCHEMA)"
    unfolding base_required [symmetric] by (simp add: schema_required_def typed_schema_shape)
  then have "base_answer (JObj m)"
    unfolding base_fields [symmetric] using m(2,3) typed_schema_shape [of t] by (auto simp: list_all_iff)
  then show ?thesis using m(1) by simp
qed

lemma resolve_default: "resolveOutputContractSchema Json_format t None = Some (typed_schema t)"
  by (simp add: resolveOutputContractSchema_def typed_schema_def)

lemma no_warnings: "schema_warnings issues = [] \<longleftrightarrow> issues = []"
  by (simp add: schema_warnings_def)

section \<open>Properties\<close>

text \<open>C27. The validator against what a schema asks: it reports nothing exactly when every part of the
  value the schema speaks of, down the properties present and the items, is one of the values
  listed for it, has the type named, and has the fields required. Which path it starts from
  does not matter.\<close>

theorem schema_validated:
  "validateValueAgainstSchema value schema path = [] \<longleftrightarrow> (\<forall>v s. asked value schema v s \<longrightarrow> locally_ok v s)"
  by (rule schema_iff)

text \<open>The merge of two schemas: at every path where there is no record, the merged schema has
  what the override has there, and else what the base has, unless the override has a record
  there or something that is no record on the way.\<close>

theorem schema_merge:
  assumes "wf_json (JObj override)" and "\<not> isRecord v"
  shows "at_path (JObj (deepMergeSchemas base override)) ks = Some v \<longleftrightarrow>
    at_path (JObj override) ks = Some v \<or> \<not> decides (JObj override) ks \<and> at_path (JObj base) ks = Some v"
  by (rule merge_leaves [OF assms])

text \<open>C28. The contract of a specialist that answers in JSON and has no schema of its own: an answer
  without warnings parses to an object with a summary, one of the four statuses and the five
  lists of strings, whatever the output type; and for a custom type these are all the contract
  asks. A text that does not parse always gives a warning.\<close>

theorem json_contract:
  "(validateOutputContract parse out Json_format (resolveOutputContractSchema Json_format t None) = [] \<longrightarrow>
      (\<exists>v. parse (trim out) = Inr v \<and> base_answer v))
   \<and> (validateOutputContract parse out Json_format (resolveOutputContractSchema Json_format Custom None) = [] \<longleftrightarrow>
      (\<exists>v. parse (trim out) = Inr v \<and> base_answer v))"
proof -
  have checked: "validateOutputContract parse out Json_format (resolveOutputContractSchema Json_format t None) = [] \<longleftrightarrow>
      (\<exists>v. parse (trim out) = Inr v \<and> accepts (typed_schema t) v)" for t
    by (simp add: resolve_default validateOutputContract_def no_warnings schema_iff accepts_def split: sum.split)
  have "typed_schema Custom = BASE_OUTPUT_SCHEMA" by (simp add: typed_schema_def)
  then show ?thesis unfolding checked using typed_schema_accepts base_schema_accepts by auto
qed

text \<open>What the schema of an orchestration lists under \<open>oneOf\<close> is not looked at: actions of any shape pass.\<close>

lemma actions_unchecked:
  "map_get (schema_properties (OUTPUT_TYPE_SCHEMA_EXTENSIONS Orchestration)) ''actions''
    = Some (JObj [(''type'', JStr ''array''), (''items'', JObj [(''oneOf'', JArr action_schemas)])])
   \<and> validateValueAgainstSchema (JArr js) [(''type'', JStr ''array''), (''items'', JObj [(''oneOf'', JArr action_schemas)])] path = []"
proof -
  have "accepts [(''oneOf'', JArr action_schemas)] v" for v
    by (subst accepts_step) (simp add: locally_ok_def below_def effectiveType_def)
  then have "accepts [(''type'', JStr ''array''), (''items'', JObj [(''oneOf'', JArr action_schemas)])] (JArr js)"
    by (subst accepts_step) (simp add: locally_ok_def below_def effectiveType_def)
  then show ?thesis by (simp add: schema_iff accepts_def array_s_def object_s_def schema_properties_def)
qed

section \<open>Answers\<close>

definition good_answer :: json where
  "good_answer = JObj ([(''summary'', JStr ''s''), (''status'', JStr ''success'')] @ map (\<lambda>k. (k, JArr [])) base_lists)"

theorem schema_validated_witness:
  "\<exists>v s. asked (JObj [(''a'', JNum 1)]) (object_s [(''a'', str_s)]) v s \<and> \<not> locally_ok v s"
proof -
  have "validateValueAgainstSchema (JObj [(''a'', JNum 1)]) (object_s [(''a'', str_s)]) ''x'' \<noteq> []"
    by (simp add: validateValueAgainstSchema.simps object_s_def str_s_def effectiveType_def schema_properties_def type_error_def)
  then show ?thesis unfolding schema_validated by blast
qed

theorem schema_merge_witness:
  "at_path (JObj (deepMergeSchemas BASE_OUTPUT_SCHEMA (object_s [(''status'', enum_s [''ok''])]))) [''properties'', ''status'', ''enum'']
    = Some (JArr [JStr ''ok''])"
  using schema_merge [of "object_s [(''status'', enum_s [''ok''])]" "JArr [JStr ''ok'']" BASE_OUTPUT_SCHEMA "[''properties'', ''status'', ''enum'']"]
  by (simp add: object_s_def enum_s_def map_ok_def)

theorem json_contract_witness:
  "validateOutputContract (\<lambda>s. Inr good_answer) ''x'' Json_format (resolveOutputContractSchema Json_format Custom None) = []
   \<and> validateOutputContract (\<lambda>s. Inr (JObj [])) ''x'' Json_format (resolveOutputContractSchema Json_format Review None) \<noteq> []"
  using json_contract [of "\<lambda>s. Inr good_answer" "''x''" Custom] json_contract [of "\<lambda>s. Inr (JObj [])" "''x''" Review]
  by (auto simp: base_answer_def good_answer_def base_lists_def is_strings_def)

end
