(* ===== verification/Runner_Loop.thy ===== *)
theory Runner_Loop imports Complex_Main Model_Gate Output_Contract begin

text \<open>
  \<open>SpecialistRunner.run\<close> of \<open>src/specialist/runner.ts\<close> from the choice of the model on: the walk
  over the chain with its circuit breaker, the attempts on one model, the life of the sessions,
  and what is told to the breaker and to the bead at the end.

  Parameters: what the factory and the start of a session do, how each prompt ends, whether the
  close fails, the clock at each call of the breaker, the bead the store creates. What comes
  before (prompts, scripts, the tool contract) and the hooks are left out and do not throw; the
  scripts after a run cannot fail it. A session is known by the place of its model in the
  chain. Of an error that is no \<open>Error\<close> and no string, \<open>String\<close> gives \<open>[object Object]\<close>.
\<close>

section \<open>Errors\<close>

text \<open>\<open>Killed\<close> is \<open>SessionKilledError\<close>.\<close>

datatype run_error = Killed | Raised thrown

fun transient_failure :: "run_error \<Rightarrow> bool" where
  "transient_failure Killed = False"
| "transient_failure (Raised t) = (\<not> isAuthError t \<and> isTransientError t)"

fun rate_limited :: "run_error \<Rightarrow> bool" where
  "rate_limited Killed = False"
| "rate_limited (Raised t) = isRateLimitError t"

text \<open>What is held against a backend at the end of a run: all but a cancellation and bad credentials.\<close>

fun backend_failure :: "run_error \<Rightarrow> bool" where
  "backend_failure Killed = False"
| "backend_failure (Raised t) = (\<not> isAuthError t)"

fun thrown_text :: "thrown \<Rightarrow> string" where
  "thrown_text Falsy = []"
| "thrown_text (ThrownString s) = s"
| "thrown_text (ThrownError name message st sc) = message"
| "thrown_text (ThrownOther text st sc) = ''[object Object]''"

definition fallback_class :: "thrown \<Rightarrow> string" where
  "fallback_class e =
     (if isAuthError e then ''auth''
      else if isRateLimitError e then ''rate_limit''
      else if list_ex (\<lambda>p. str_includes p (to_lower (thrown_text e))) [''timeout'', ''timed out'', ''etimedout'', ''deadline''] then ''timeout''
      else if isTransientError e then ''transient''
      else ''unknown'')"

section \<open>The pauses between attempts\<close>

definition RETRY_BASE_DELAY_MS :: rat where
  "RETRY_BASE_DELAY_MS = 1000"

definition RETRY_MAX_JITTER :: rat where
  "RETRY_MAX_JITTER = 1 / 5"

text \<open>\<open>random\<close> is what \<open>Math.random\<close> gives; \<open>Math.round\<close> rounds a half up.\<close>

definition getRetryDelayMs :: "rat \<Rightarrow> nat \<Rightarrow> int" where
  "getRetryDelayMs random attempt =
     (let baseDelay = RETRY_BASE_DELAY_MS * 2 ^ (attempt - 1);
          jitterMultiplier = 1 + (random * 2 - 1) * RETRY_MAX_JITTER in
      max 0 \<lfloor>baseDelay * jitterMultiplier + 1 / 2\<rfloor>)"

section \<open>The run\<close>

datatype bead_source = No_bead | Input_bead string | Own_bead string

definition shouldCreateBead :: "string \<Rightarrow> string \<Rightarrow> bool" where
  "shouldCreateBead integration permission =
     (if integration = ''never'' then False
      else if integration = ''always'' then True
      else permission \<noteq> ''READ_ONLY'')"

text \<open>\<open>created\<close>: what \<open>createBead\<close> gives. Without a client no bead is ever told anything.\<close>

definition bead_of_run :: "string option \<Rightarrow> string option option \<Rightarrow> string \<Rightarrow> string \<Rightarrow> bead_source" where
  "bead_of_run inputBeadId client integration permission =
     (case client of
        None \<Rightarrow> No_bead
      | Some created \<Rightarrow>
          if truthy inputBeadId then Input_bead (the inputBeadId)
          else if \<not> shouldCreateBead integration permission then No_bead
          else if truthy created then Own_bead (the created)
          else No_bead)"

record run_world =
  rw_factory :: "nat \<Rightarrow> run_error option"
  rw_start :: "nat \<Rightarrow> run_error option"
  rw_turn :: "nat \<Rightarrow> nat \<Rightarrow> run_error + string"
  rw_close :: "run_error option"
  rw_select_at :: int
  rw_probe_at :: "nat \<Rightarrow> int"
  rw_failed_at :: "nat \<Rightarrow> int"
  rw_end_at :: int

record run_options =
  ro_chain :: "string list"
  ro_maxAttempts :: nat
  ro_json :: bool
  ro_keepAlive :: bool
  ro_bead :: bead_source

datatype run_event =
    Created nat
  | Asked nat nat
  | Waits nat nat
  | Fallback_step nat string string bool
  | Breaker string call
  | Kill nat
  | Close nat
  | Handed_over nat
  | Bead_closed string string
  | Bead_audited string int

text \<open>The attempts on one model, from the given one on.\<close>

function try_model :: "(nat \<Rightarrow> run_error + string) \<Rightarrow> nat \<Rightarrow> nat \<Rightarrow> nat \<Rightarrow> run_event list \<times> (run_error + string)" where
  "try_model turn i maxAttempts a =
     (case turn a of
        Inr out \<Rightarrow> ([Asked i a], Inr out)
      | Inl err \<Rightarrow>
          if a < maxAttempts \<and> transient_failure err \<and> \<not> rate_limited err
          then (case try_model turn i maxAttempts (a + 1) of (evs, r) \<Rightarrow> (Asked i a # Waits i a # evs, r))
          else ([Asked i a], Inl err))"
  by pat_completeness auto
termination
  by (relation "measure (\<lambda>(turn, i, maxAttempts, a). maxAttempts - a)") auto

declare try_model.simps [simp del]

record walked =
  wk_events :: "run_event list"
  wk_end :: "run_error + string"
  wk_recorded :: bool
  wk_model :: nat
  wk_session :: "nat option"
  wk_breaker :: breaker

definition no_output :: run_error where
  "no_output = Raised (ThrownError ''Error'' ''Specialist run finished without output'' None None)"

fun class_of :: "run_error \<Rightarrow> string" where
  "class_of Killed = ''unknown''"
| "class_of (Raised t) = fallback_class t"

definition before :: "run_event list \<Rightarrow> walked \<Rightarrow> walked" where
  "before evs k = k\<lparr>wk_events := evs @ wk_events k\<rparr>"

text \<open>The loop over the models, from model \<open>i\<close> on. The session variable is empty at its head.\<close>

function run_models :: "run_world \<Rightarrow> string list \<Rightarrow> nat \<Rightarrow> breaker \<Rightarrow> nat \<Rightarrow> walked" where
  "run_models w chain maxAttempts b i =
     (if length chain \<le> i
      then \<lparr>wk_events = [], wk_end = Inl no_output, wk_recorded = False, wk_model = i - 1, wk_session = None, wk_breaker = b\<rparr>
      else
        let m = chain ! i; terminal = (i = length chain - 1);
            (available, b1) = isAvailable (rw_probe_at w i) m b;
            probe = Breaker m (Probe (rw_probe_at w i));
            ends = (\<lambda>evs r recorded session b'.
              \<lparr>wk_events = evs, wk_end = r, wk_recorded = recorded, wk_model = i, wk_session = session, wk_breaker = b'\<rparr>) in
        if \<not> available \<and> \<not> terminal
        then before [probe, Fallback_step (i + 2) (chain ! (i + 1)) ''transient'' False] (run_models w chain maxAttempts b1 (i + 1))
        else
          (case rw_factory w i of
             Some err \<Rightarrow> ends [probe] (Inl err) False None b1
           | None \<Rightarrow>
               (case rw_start w i of
                  Some err \<Rightarrow> ends [probe, Created i] (Inl err) False (Some i) b1
                | None \<Rightarrow>
                    let (asked, r) = try_model (rw_turn w i) i maxAttempts 1; evs = probe # Created i # asked in
                    (case r of
                       Inr out \<Rightarrow> ends evs (Inr out) False (Some i) b1
                     | Inl err \<Rightarrow>
                         if \<not> transient_failure err then ends evs (Inl err) False (Some i) b1
                         else
                           let b2 = recordFailure (rw_failed_at w i) m b1;
                               evs2 = evs @ [Breaker m (Failure (rw_failed_at w i))] in
                           if terminal
                           then ends (evs2 @ [Fallback_step (i + 1) m (class_of err) True]) (Inl err) True (Some i) b2
                           else before (evs2 @ [Fallback_step (i + 2) (chain ! (i + 1)) (class_of err) False, Kill i])
                                  (run_models w chain maxAttempts b2 (i + 1))))))"
  by pat_completeness auto
termination
  by (relation "measure (\<lambda>(w, chain, maxAttempts, b, i). length chain - i)") auto

declare run_models.simps [simp del]

record run_outcome =
  rr_events :: "run_event list"
  rr_out :: "run_error + string"
  rr_breaker :: breaker

definition bead_audit :: "bead_source \<Rightarrow> int \<Rightarrow> run_event list" where
  "bead_audit src code =
     (case src of No_bead \<Rightarrow> [] | Input_bead b \<Rightarrow> [Bead_audited b code] | Own_bead b \<Rightarrow> [Bead_audited b code])"

definition bead_close :: "bead_source \<Rightarrow> run_error \<Rightarrow> run_event list" where
  "bead_close src err =
     (case src of Own_bead b \<Rightarrow> [Bead_closed b (if err = Killed then ''CANCELLED'' else ''ERROR'')] | _ \<Rightarrow> [])"

text \<open>The \<open>catch\<close> and the \<open>finally\<close> of a run that throws.\<close>

definition run_fails :: "run_world \<Rightarrow> run_options \<Rightarrow> string \<Rightarrow> run_event list \<Rightarrow> run_error \<Rightarrow> bool \<Rightarrow> nat option \<Rightarrow> breaker \<Rightarrow> run_outcome" where
  "run_fails w opts m evs err recorded session b =
     (let held = backend_failure err \<and> \<not> recorded in
      \<lparr>rr_events = evs @ (if held then [Breaker m (Failure (rw_end_at w))] else [])
         @ bead_close (ro_bead opts) err @ bead_audit (ro_bead opts) 1
         @ (case session of Some i \<Rightarrow> [Kill i] | None \<Rightarrow> []),
       rr_out = Inl err,
       rr_breaker = (if held then recordFailure (rw_end_at w) m b else b)\<rparr>)"

definition run_end :: "run_world \<Rightarrow> run_options \<Rightarrow> walked \<Rightarrow> run_outcome" where
  "run_end w opts k =
     (let m = ro_chain opts ! wk_model k in
      case wk_end k of
        Inl err \<Rightarrow> run_fails w opts m (wk_events k) err (wk_recorded k) (wk_session k) (wk_breaker k)
      | Inr out \<Rightarrow>
          let output = (if ro_json opts then stripJsonFences out else out);
              succeeds = (\<lambda>evs. \<lparr>rr_events = wk_events k @ evs @ [Breaker m (Success (rw_end_at w))] @ bead_audit (ro_bead opts) 0,
                 rr_out = Inr output, rr_breaker = recordSuccess m (wk_breaker k)\<rparr>) in
          if ro_keepAlive opts then succeeds [Handed_over (wk_model k)]
          else
            (case rw_close w of
               None \<Rightarrow> succeeds [Close (wk_model k)]
             | Some err \<Rightarrow> run_fails w opts m (wk_events k) err False (wk_session k) (wk_breaker k)))"

text \<open>The model reported before the run; asking may half-open a backend.\<close>

fun selectAvailableModel :: "int \<Rightarrow> string list \<Rightarrow> breaker \<Rightarrow> string option \<times> breaker" where
  "selectAvailableModel now [] b = (None, b)"
| "selectAvailableModel now (m # ms) b =
     (case isAvailable now m b of (available, b1) \<Rightarrow>
        if available \<or> ms = [] then (Some m, b1) else selectAvailableModel now ms b1)"

definition selected :: "run_world \<Rightarrow> run_options \<Rightarrow> breaker \<Rightarrow> string option \<times> breaker_state \<times> breaker" where
  "selected w opts b =
     (case selectAvailableModel (rw_select_at w) (ro_chain opts) b of
        (None, b1) \<Rightarrow> (None, CLOSED, b1)
      | (Some m, b1) \<Rightarrow> (case getState (rw_select_at w) m b1 of (st, b2) \<Rightarrow> (Some m, st, b2)))"

definition run :: "run_world \<Rightarrow> run_options \<Rightarrow> breaker \<Rightarrow> run_outcome" where
  "run w opts b =
     (case selected w opts b of (initial, st, b2) \<Rightarrow>
        run_end w opts (run_models w (ro_chain opts) (ro_maxAttempts opts) b2 0))"

section \<open>One step of the walk\<close>

lemma before_before: "before xs (before ys k) = before (xs @ ys) k"
  by (simp add: before_def)

definition asks :: "run_world \<Rightarrow> nat \<Rightarrow> nat \<Rightarrow> run_event list \<times> (run_error + string)" where
  "asks w maxAttempts i = try_model (rw_turn w i) i maxAttempts 1"

text \<open>What model \<open>i\<close> gives when it is asked.\<close>

definition model_gives :: "run_world \<Rightarrow> nat \<Rightarrow> nat \<Rightarrow> run_error + string" where
  "model_gives w maxAttempts i =
     (case rw_factory w i of Some err \<Rightarrow> Inl err
      | None \<Rightarrow> (case rw_start w i of Some err \<Rightarrow> Inl err | None \<Rightarrow> snd (asks w maxAttempts i)))"

definition model_available :: "run_world \<Rightarrow> string list \<Rightarrow> breaker \<Rightarrow> nat \<Rightarrow> bool" where
  "model_available w chain b i = fst (isAvailable (rw_probe_at w i) (chain ! i) b)"

text \<open>The model was prompted and every attempt it was given failed for a reason that passes.\<close>

definition model_fails :: "run_world \<Rightarrow> nat \<Rightarrow> nat \<Rightarrow> bool" where
  "model_fails w maxAttempts i \<longleftrightarrow>
     rw_factory w i = None \<and> rw_start w i = None \<and> (\<exists>err. snd (asks w maxAttempts i) = Inl err \<and> transient_failure err)"

definition passed_over :: "run_world \<Rightarrow> string list \<Rightarrow> nat \<Rightarrow> breaker \<Rightarrow> nat \<Rightarrow> bool" where
  "passed_over w chain maxAttempts b i \<longleftrightarrow>
     i + 1 < length chain \<and> (\<not> model_available w chain b i \<or> model_fails w maxAttempts i)"

definition probe_event :: "run_world \<Rightarrow> string list \<Rightarrow> nat \<Rightarrow> run_event" where
  "probe_event w chain i = Breaker (chain ! i) (Probe (rw_probe_at w i))"

definition failure_event :: "run_world \<Rightarrow> string list \<Rightarrow> nat \<Rightarrow> run_event" where
  "failure_event w chain i = Breaker (chain ! i) (Failure (rw_failed_at w i))"

definition after_probe :: "run_world \<Rightarrow> string list \<Rightarrow> nat \<Rightarrow> breaker \<Rightarrow> breaker" where
  "after_probe w chain i b = do_call (chain ! i) (Probe (rw_probe_at w i)) b"

definition after_failure :: "run_world \<Rightarrow> string list \<Rightarrow> nat \<Rightarrow> breaker \<Rightarrow> breaker" where
  "after_failure w chain i b = do_call (chain ! i) (Failure (rw_failed_at w i)) (after_probe w chain i b)"

lemmas step_defs = probe_event_def failure_event_def after_probe_def after_failure_def asks_def

text \<open>A model that is passed over.\<close>

lemma run_unavailable:
  assumes "i + 1 < length chain" and "\<not> model_available w chain b i"
  shows "run_models w chain maxAttempts b i =
    before [probe_event w chain i, Fallback_step (i + 2) (chain ! (i + 1)) ''transient'' False]
      (run_models w chain maxAttempts (after_probe w chain i b) (i + 1))"
proof -
  obtain av b1 where av: "isAvailable (rw_probe_at w i) (chain ! i) b = (av, b1)" by (rule prod.exhaust)
  then show ?thesis
    using assms by (subst run_models.simps) (simp add: step_defs model_available_def Let_def)
qed

lemma run_failing:
  assumes "i + 1 < length chain" and "model_available w chain b i" and "model_fails w maxAttempts i"
  shows "\<exists>err. transient_failure err \<and> snd (asks w maxAttempts i) = Inl err \<and> run_models w chain maxAttempts b i =
    before (probe_event w chain i # Created i # fst (asks w maxAttempts i)
        @ [failure_event w chain i, Fallback_step (i + 2) (chain ! (i + 1)) (class_of err) False, Kill i])
      (run_models w chain maxAttempts (after_failure w chain i b) (i + 1))"
proof -
  obtain av b1 where av: "isAvailable (rw_probe_at w i) (chain ! i) b = (av, b1)" by (rule prod.exhaust)
  obtain evs r where t: "try_model (rw_turn w i) i maxAttempts 1 = (evs, r)" by (rule prod.exhaust)
  from assms(3) t obtain err where err: "r = Inl err" "transient_failure err" by (auto simp: model_fails_def asks_def)
  have "run_models w chain maxAttempts b i =
    before (probe_event w chain i # Created i # fst (asks w maxAttempts i)
        @ [failure_event w chain i, Fallback_step (i + 2) (chain ! (i + 1)) (class_of err) False, Kill i])
      (run_models w chain maxAttempts (after_failure w chain i b) (i + 1))"
    using assms av t err by (subst run_models.simps) (simp add: step_defs model_available_def model_fails_def Let_def)
  then show ?thesis using err t by (auto simp: asks_def)
qed

text \<open>The model the walk stops on.\<close>

definition stops_with :: "run_world \<Rightarrow> string list \<Rightarrow> nat \<Rightarrow> breaker \<Rightarrow> nat \<Rightarrow> walked" where
  "stops_with w chain maxAttempts b i =
     (let failed = model_fails w maxAttempts i in
      \<lparr>wk_events = probe_event w chain i
         # (if rw_factory w i \<noteq> None then []
            else Created i # (if rw_start w i \<noteq> None then []
              else fst (asks w maxAttempts i)
                @ (if failed then [failure_event w chain i,
                     Fallback_step (i + 1) (chain ! i) (class_of (projl (snd (asks w maxAttempts i)))) True] else []))),
       wk_end = model_gives w maxAttempts i, wk_recorded = failed, wk_model = i,
       wk_session = (if rw_factory w i \<noteq> None then None else Some i),
       wk_breaker = (if failed then after_failure w chain i b else after_probe w chain i b)\<rparr>)"

lemma run_stops:
  assumes "i < length chain" and "\<not> passed_over w chain maxAttempts b i"
  shows "run_models w chain maxAttempts b i = stops_with w chain maxAttempts b i"
proof -
  obtain av b1 where av: "isAvailable (rw_probe_at w i) (chain ! i) b = (av, b1)" by (rule prod.exhaust)
  obtain evs r where t: "try_model (rw_turn w i) i maxAttempts 1 = (evs, r)" by (rule prod.exhaust)
  have here: "\<not> length chain \<le> i" "\<not> (\<not> av \<and> i \<noteq> length chain - 1)"
    using assms av by (auto simp: passed_over_def model_available_def)
  note unfold_run = run_models.simps [of w chain maxAttempts b i, unfolded Let_def av prod.case, simplified here if_False]
  note spec = stops_with_def step_defs model_fails_def model_gives_def Let_def
  show ?thesis
  proof (cases "rw_factory w i")
    case (Some err)
    then show ?thesis using av by (simp add: unfold_run spec)
  next
    case factory: None
    show ?thesis
    proof (cases "rw_start w i")
      case (Some err)
      then show ?thesis using av factory by (simp add: unfold_run spec)
    next
      case start: None
      show ?thesis
      proof (cases r)
        case (Inr out)
        then show ?thesis using av factory start t by (simp add: unfold_run spec)
      next
        case (Inl err)
        show ?thesis
        proof (cases "transient_failure err")
          case False
          then show ?thesis using av factory start t Inl by (simp add: unfold_run spec)
        next
          case True
          then have "i = length chain - 1"
            using assms factory start t Inl by (auto simp: passed_over_def model_fails_def asks_def)
          with av factory start t Inl True show ?thesis by (subst unfold_run) (simp add: spec)
        qed
      qed
    qed
  qed
qed

section \<open>The walk\<close>

lemma other_models:
  "chain ! j \<noteq> chain ! i \<Longrightarrow> model_available w chain (after_probe w chain i b) j = model_available w chain b j"
  "chain ! j \<noteq> chain ! i \<Longrightarrow> model_available w chain (after_failure w chain i b) j = model_available w chain b j"
  by (simp_all add: model_available_def after_probe_def after_failure_def isAvailable_entry do_call_frame del: do_call.simps split: option.split)

lemma passed_step:
  assumes "passed_over w chain maxAttempts b i"
  obtains b1 evs1 where "run_models w chain maxAttempts b i = before evs1 (run_models w chain maxAttempts b1 (i + 1))"
    and "\<And>j. chain ! j \<noteq> chain ! i \<Longrightarrow> model_available w chain b1 j = model_available w chain b j"
proof (cases "model_available w chain b i")
  case False
  then show ?thesis using that run_unavailable [of i chain w b maxAttempts] other_models(1) assms by (auto simp: passed_over_def)
next
  case True
  then show ?thesis using that run_failing [of i chain w b maxAttempts] other_models(2) assms by (auto simp: passed_over_def)
qed

text \<open>Where the walk stops, and what comes before: \<open>b'\<close> is the breaker when it gets there.\<close>

lemma run_models_spec:
  assumes "distinct chain" and "i < length chain"
  shows "\<exists>n b' evs. i \<le> n \<and> n < length chain \<and> (\<forall>j. i \<le> j \<and> j < n \<longrightarrow> passed_over w chain maxAttempts b j)
    \<and> \<not> passed_over w chain maxAttempts b n \<and> model_available w chain b' n = model_available w chain b n
    \<and> run_models w chain maxAttempts b i = before evs (stops_with w chain maxAttempts b' n)"
  using assms(2)
proof (induction "length chain - i" arbitrary: i b)
  case (Suc d)
  show ?case
  proof (cases "passed_over w chain maxAttempts b i")
    case False
    then show ?thesis
      using run_stops [OF Suc.prems False] Suc.prems
      by (intro exI [of _ i] exI [of _ b] exI [of _ "[]"]) (auto simp: before_def)
  next
    case True
    then have i: "i + 1 < length chain" by (simp add: passed_over_def)
    have other: "chain ! j \<noteq> chain ! i" if "i + 1 \<le> j" "j < length chain" for j
      using assms(1) that by (simp add: nth_eq_iff_index_eq)
    obtain b1 evs1 where step: "run_models w chain maxAttempts b i = before evs1 (run_models w chain maxAttempts b1 (i + 1))"
      and same: "\<And>j. chain ! j \<noteq> chain ! i \<Longrightarrow> model_available w chain b1 j = model_available w chain b j"
      using passed_step [OF True] by metis
    have pass: "passed_over w chain maxAttempts b1 j = passed_over w chain maxAttempts b j" if "i + 1 \<le> j" "j < length chain" for j
      using same [OF other [OF that]] by (simp add: passed_over_def)
    have d: "d = length chain - (i + 1)" using Suc.hyps(2) i by simp
    obtain n b' evs where ih: "i + 1 \<le> n" "n < length chain" "\<forall>j. i + 1 \<le> j \<and> j < n \<longrightarrow> passed_over w chain maxAttempts b1 j"
        "\<not> passed_over w chain maxAttempts b1 n" "model_available w chain b' n = model_available w chain b1 n"
        "run_models w chain maxAttempts b1 (i + 1) = before evs (stops_with w chain maxAttempts b' n)"
      using Suc.hyps(1) [OF d i, of b1] by blast
    have "passed_over w chain maxAttempts b j" if "i \<le> j" "j < n" for j
      using that True ih(2,3) pass by (cases "j = i") auto
    moreover have "run_models w chain maxAttempts b i = before (evs1 @ evs) (stops_with w chain maxAttempts b' n)"
      unfolding step ih(6) before_before ..
    ultimately show ?thesis using ih pass same other by (intro exI [of _ n] exI [of _ b'] exI [of _ "evs1 @ evs"]) auto
  qed
qed simp

text \<open>The attempts on one model: the first that does not ask for another is the last.\<close>

definition goes_again :: "nat \<Rightarrow> nat \<Rightarrow> run_error + string \<Rightarrow> bool" where
  "goes_again maxAttempts a r \<longleftrightarrow> a < maxAttempts \<and> (\<exists>err. r = Inl err \<and> transient_failure err \<and> \<not> rate_limited err)"

lemma try_model_spec:
  "\<exists>n. a \<le> n \<and> (\<forall>j. a \<le> j \<and> j < n \<longrightarrow> goes_again maxAttempts j (turn j)) \<and> \<not> goes_again maxAttempts n (turn n)
     \<and> snd (try_model turn i maxAttempts a) = turn n
     \<and> fst (try_model turn i maxAttempts a) = concat (map (\<lambda>j. [Asked i j, Waits i j]) [a..<n]) @ [Asked i n]"
proof (induction turn i maxAttempts a rule: try_model.induct)
  case (1 turn i maxAttempts a)
  show ?case
  proof (cases "goes_again maxAttempts a (turn a)")
    case False
    then have "try_model turn i maxAttempts a = ([Asked i a], turn a)"
      by (auto simp: try_model.simps [of turn i maxAttempts a] goes_again_def split: sum.split)
    then show ?thesis using False by (intro exI [of _ a]) auto
  next
    case True
    then obtain err where err: "turn a = Inl err" "a < maxAttempts \<and> transient_failure err \<and> \<not> rate_limited err"
      by (auto simp: goes_again_def)
    obtain n where n: "a + 1 \<le> n" "\<forall>j. a + 1 \<le> j \<and> j < n \<longrightarrow> goes_again maxAttempts j (turn j)" "\<not> goes_again maxAttempts n (turn n)"
        "snd (try_model turn i maxAttempts (a + 1)) = turn n"
        "fst (try_model turn i maxAttempts (a + 1)) = concat (map (\<lambda>j. [Asked i j, Waits i j]) [a + 1..<n]) @ [Asked i n]"
      using "1.IH" [OF err] by blast
    have "try_model turn i maxAttempts a
        = (Asked i a # Waits i a # fst (try_model turn i maxAttempts (a + 1)), snd (try_model turn i maxAttempts (a + 1)))"
      using err by (simp add: try_model.simps [of turn i maxAttempts a] split: prod.split)
    moreover have "[a..<n] = a # [a + 1..<n]" using n(1) by (simp add: upt_conv_Cons)
    moreover have "goes_again maxAttempts j (turn j)" if "a \<le> j" "j < n" for j using that n(2) True by (cases "j = a") auto
    ultimately show ?thesis using n by (intro exI [of _ n]) auto
  qed
qed

lemma walk_induct [consumes 1, case_names unavailable failing stops]:
  assumes "i < length chain"
    and un: "\<And>i b k. i + 1 < length chain \<Longrightarrow> \<not> model_available w chain b i \<Longrightarrow> P (after_probe w chain i b) (i + 1) k \<Longrightarrow>
      P b i (before [probe_event w chain i, Fallback_step (i + 2) (chain ! (i + 1)) ''transient'' False] k)"
    and fa: "\<And>i b k err. i + 1 < length chain \<Longrightarrow> model_available w chain b i \<Longrightarrow> model_fails w maxAttempts i \<Longrightarrow>
      P (after_failure w chain i b) (i + 1) k \<Longrightarrow>
      P b i (before (probe_event w chain i # Created i # fst (asks w maxAttempts i)
        @ [failure_event w chain i, Fallback_step (i + 2) (chain ! (i + 1)) (class_of err) False, Kill i]) k)"
    and st: "\<And>i b. i < length chain \<Longrightarrow> \<not> passed_over w chain maxAttempts b i \<Longrightarrow> P b i (stops_with w chain maxAttempts b i)"
  shows "P b i (run_models w chain maxAttempts b i)"
  using assms(1)
proof (induction "length chain - i" arbitrary: i b)
  case (Suc d)
  show ?case
  proof (cases "passed_over w chain maxAttempts b i")
    case False
    then show ?thesis using st [OF Suc.prems False] run_stops [OF Suc.prems False] by simp
  next
    case True
    then have i: "i + 1 < length chain" by (simp add: passed_over_def)
    have ih: "P b1 (i + 1) (run_models w chain maxAttempts b1 (i + 1))" for b1
      using Suc.hyps(1) [OF _ i, of b1] Suc.hyps(2) by simp
    show ?thesis
    proof (cases "model_available w chain b i")
      case False
      then show ?thesis using un [OF i False ih] run_unavailable [OF i False, of maxAttempts] by simp
    next
      case av: True
      then have f: "model_fails w maxAttempts i" using True by (simp add: passed_over_def)
      obtain err where "run_models w chain maxAttempts b i =
        before (probe_event w chain i # Created i # fst (asks w maxAttempts i)
            @ [failure_event w chain i, Fallback_step (i + 2) (chain ! (i + 1)) (class_of err) False, Kill i])
          (run_models w chain maxAttempts (after_failure w chain i b) (i + 1))"
        using run_failing [OF i av f] by blast
      then show ?thesis using fa [OF i av f ih, of err] by simp
    qed
  qed
qed simp

section \<open>What the trace says\<close>

fun breaker_calls :: "run_event list \<Rightarrow> (string \<times> call) list" where
  "breaker_calls [] = []"
| "breaker_calls (Breaker m c # es) = (m, c) # breaker_calls es"
| "breaker_calls (_ # es) = breaker_calls es"

fun failed_on :: "run_event list \<Rightarrow> string list" where
  "failed_on [] = []"
| "failed_on (Breaker m (Failure t) # es) = m # failed_on es"
| "failed_on (_ # es) = failed_on es"

fun succeeded_on :: "run_event list \<Rightarrow> string list" where
  "succeeded_on [] = []"
| "succeeded_on (Breaker m (Success t) # es) = m # succeeded_on es"
| "succeeded_on (_ # es) = succeeded_on es"

text \<open>One session at a time, prompted only while it is open; what is open at the end.\<close>

fun watch :: "nat option \<Rightarrow> run_event list \<Rightarrow> nat option option" where
  "watch cur [] = Some cur"
| "watch cur (Created i # es) = (if cur = None then watch (Some i) es else None)"
| "watch cur (Asked i a # es) = (if cur = Some i then watch cur es else None)"
| "watch cur (Kill i # es) = (if cur = Some i then watch None es else None)"
| "watch cur (Close i # es) = (if cur = Some i then watch None es else None)"
| "watch cur (Handed_over i # es) = (if cur = Some i then watch cur es else None)"
| "watch cur (_ # es) = watch cur es"

fun bead_events :: "run_event list \<Rightarrow> run_event list" where
  "bead_events [] = []"
| "bead_events (Bead_closed b t # es) = Bead_closed b t # bead_events es"
| "bead_events (Bead_audited b c # es) = Bead_audited b c # bead_events es"
| "bead_events (_ # es) = bead_events es"

fun prompts :: "run_event list \<Rightarrow> nat" where
  "prompts [] = 0"
| "prompts (Asked i a # es) = prompts es + 1"
| "prompts (_ # es) = prompts es"

lemma breaker_calls_append [simp]: "breaker_calls (xs @ ys) = breaker_calls xs @ breaker_calls ys"
  by (induction xs rule: breaker_calls.induct) auto

lemma failed_on_append [simp]: "failed_on (xs @ ys) = failed_on xs @ failed_on ys"
  by (induction xs rule: failed_on.induct) auto

lemma succeeded_on_append [simp]: "succeeded_on (xs @ ys) = succeeded_on xs @ succeeded_on ys"
  by (induction xs rule: succeeded_on.induct) auto

lemma prompts_append [simp]: "prompts (xs @ ys) = prompts xs + prompts ys"
  by (induction xs rule: prompts.induct) auto

lemma bead_events_append [simp]: "bead_events (xs @ ys) = bead_events xs @ bead_events ys"
  by (induction xs rule: bead_events.induct) auto

lemma watch_append [simp]: "watch cur (xs @ ys) = (case watch cur xs of None \<Rightarrow> None | Some c \<Rightarrow> watch c ys)"
  by (induction cur xs rule: watch.induct) auto

lemma asks_trace [simp]:
  "breaker_calls (fst (asks w maxAttempts i)) = []" "failed_on (fst (asks w maxAttempts i)) = []" "succeeded_on (fst (asks w maxAttempts i)) = []"
  "watch (Some i) (fst (asks w maxAttempts i)) = Some (Some i)" "bead_events (fst (asks w maxAttempts i)) = []"
proof -
  obtain n where e: "fst (asks w maxAttempts i) = concat (map (\<lambda>j. [Asked i j, Waits i j]) [1..<n]) @ [Asked i n]"
    using try_model_spec [of 1 maxAttempts "rw_turn w i" i] by (auto simp: asks_def)
  have "breaker_calls (concat (map (\<lambda>j. [Asked i j, Waits i j]) js)) = []" "failed_on (concat (map (\<lambda>j. [Asked i j, Waits i j]) js)) = []"
    "succeeded_on (concat (map (\<lambda>j. [Asked i j, Waits i j]) js)) = []" "watch (Some i) (concat (map (\<lambda>j. [Asked i j, Waits i j]) js)) = Some (Some i)"
    "bead_events (concat (map (\<lambda>j. [Asked i j, Waits i j]) js)) = []" for js
    by (induction js) auto
  then show "breaker_calls (fst (asks w maxAttempts i)) = []" "failed_on (fst (asks w maxAttempts i)) = []"
    "succeeded_on (fst (asks w maxAttempts i)) = []" "watch (Some i) (fst (asks w maxAttempts i)) = Some (Some i)"
    "bead_events (fst (asks w maxAttempts i)) = []"
    unfolding e by simp_all
qed

lemma asks_prompts: "1 \<le> maxAttempts \<Longrightarrow> prompts (fst (asks w maxAttempts i)) \<le> maxAttempts"
proof -
  obtain n where n: "1 \<le> n" "\<forall>j. 1 \<le> j \<and> j < n \<longrightarrow> goes_again maxAttempts j (rw_turn w i j)"
    and e: "fst (asks w maxAttempts i) = concat (map (\<lambda>j. [Asked i j, Waits i j]) [1..<n]) @ [Asked i n]"
    using try_model_spec [of 1 maxAttempts "rw_turn w i" i] by (auto simp: asks_def)
  have "prompts (concat (map (\<lambda>j. [Asked i j, Waits i j]) js)) = length js" for js
    by (induction js) auto
  then have "prompts (fst (asks w maxAttempts i)) = n" using n(1) by (simp add: e)
  moreover have "n = 1 \<or> n - 1 < maxAttempts" using n(1) n(2) [rule_format, of "n - 1"] by (cases "n = 1") (auto simp: goes_again_def)
  moreover assume "1 \<le> maxAttempts"
  ultimately show ?thesis using n(1) by auto
qed

lemma event_kinds [simp]:
  "breaker_calls (probe_event w chain i # es) = (chain ! i, Probe (rw_probe_at w i)) # breaker_calls es"
  "breaker_calls (failure_event w chain i # es) = (chain ! i, Failure (rw_failed_at w i)) # breaker_calls es"
  "failed_on (probe_event w chain i # es) = failed_on es" "failed_on (failure_event w chain i # es) = chain ! i # failed_on es"
  "succeeded_on (probe_event w chain i # es) = succeeded_on es" "succeeded_on (failure_event w chain i # es) = succeeded_on es"
  "watch cur (probe_event w chain i # es) = watch cur es" "watch cur (failure_event w chain i # es) = watch cur es"
  "prompts (probe_event w chain i # es) = prompts es" "prompts (failure_event w chain i # es) = prompts es"
  "bead_events (probe_event w chain i # es) = bead_events es" "bead_events (failure_event w chain i # es) = bead_events es"
  by (simp_all add: probe_event_def failure_event_def)

lemma before_fields [simp]:
  "wk_events (before evs k) = evs @ wk_events k" "wk_end (before evs k) = wk_end k" "wk_recorded (before evs k) = wk_recorded k"
  "wk_model (before evs k) = wk_model k" "wk_session (before evs k) = wk_session k" "wk_breaker (before evs k) = wk_breaker k"
  by (simp_all add: before_def)

lemma walk_breaker:
  "i < length chain \<Longrightarrow> wk_breaker (run_models w chain maxAttempts b i) = do_calls (breaker_calls (wk_events (run_models w chain maxAttempts b i))) b"
  by (rule walk_induct [where P = "\<lambda>b i k. wk_breaker k = do_calls (breaker_calls (wk_events k)) b"])
     (auto simp: do_calls_def stops_with_def after_probe_def after_failure_def Let_def model_fails_def simp del: do_call.simps)

lemma walk_session:
  "i < length chain \<Longrightarrow> watch None (wk_events (run_models w chain maxAttempts b i)) = Some (wk_session (run_models w chain maxAttempts b i))"
  by (rule walk_induct [where P = "\<lambda>b i k. watch None (wk_events k) = Some (wk_session k)"])
     (auto simp: stops_with_def Let_def model_fails_def)

lemma walk_beads: "i < length chain \<Longrightarrow> bead_events (wk_events (run_models w chain maxAttempts b i)) = []"
  by (rule walk_induct [where P = "\<lambda>b i k. bead_events (wk_events k) = []"]) (auto simp: stops_with_def Let_def)

lemma walk_prompts:
  "1 \<le> maxAttempts \<Longrightarrow> i < length chain \<Longrightarrow> prompts (wk_events (run_models w chain maxAttempts b i)) \<le> maxAttempts * (length chain - i)"
proof (rotate_tac, induction rule: walk_induct)
  case (unavailable i b k)
  then have "maxAttempts * (length chain - (i + 1)) \<le> maxAttempts * (length chain - i)" by simp
  from le_trans [OF unavailable(3) [OF unavailable(4)] this] show ?case by simp
next
  case (failing i b k err)
  then have "maxAttempts * (length chain - i) = maxAttempts + maxAttempts * (length chain - (i + 1))"
    by (metis Suc_diff_Suc Suc_eq_plus1 add_lessD1 mult_Suc_right)
  then show ?case using failing asks_prompts [of maxAttempts w i] by simp
next
  case (stops i b)
  then have "maxAttempts * 1 \<le> maxAttempts * (length chain - i)" by (intro mult_le_mono) auto
  then have "maxAttempts \<le> maxAttempts * (length chain - i)" by (simp only: mult_1_right)
  from le_trans [OF asks_prompts [OF stops(3)] this] show ?case by (simp add: stops_with_def Let_def)
qed

text \<open>The models a failure is held against during the walk.\<close>

definition held_against :: "run_world \<Rightarrow> string list \<Rightarrow> nat \<Rightarrow> breaker \<Rightarrow> nat \<Rightarrow> bool" where
  "held_against w chain maxAttempts b j \<longleftrightarrow> (model_available w chain b j \<or> j = length chain - 1) \<and> model_fails w maxAttempts j"

lemma held_later:
  assumes "distinct chain" and "i < length chain" and "n < length chain"
    and "\<And>j. chain ! j \<noteq> chain ! i \<Longrightarrow> model_available w chain b1 j = model_available w chain b j"
  shows "filter (held_against w chain maxAttempts b1) [i + 1..<n + 1] = filter (held_against w chain maxAttempts b) [i + 1..<n + 1]"
proof (rule filter_cong [OF refl])
  fix j assume "j \<in> set [i + 1..<n + 1]"
  then have "chain ! j \<noteq> chain ! i" using assms(1-3) by (auto simp: nth_eq_iff_index_eq)
  then show "held_against w chain maxAttempts b1 j = held_against w chain maxAttempts b j"
    using assms(4) by (simp add: held_against_def)
qed

definition walked_ok :: "run_world \<Rightarrow> string list \<Rightarrow> nat \<Rightarrow> breaker \<Rightarrow> nat \<Rightarrow> walked \<Rightarrow> bool" where
  "walked_ok w chain maxAttempts b i k \<longleftrightarrow>
     i \<le> wk_model k \<and> wk_model k < length chain \<and> wk_end k = model_gives w maxAttempts (wk_model k)
   \<and> wk_recorded k = model_fails w maxAttempts (wk_model k) \<and> succeeded_on (wk_events k) = []
   \<and> wk_session k = (if rw_factory w (wk_model k) \<noteq> None then None else Some (wk_model k))
   \<and> failed_on (wk_events k) = map ((!) chain) (filter (held_against w chain maxAttempts b) [i..<wk_model k + 1])"

lemma walked_ok_before:
  assumes "distinct chain" and "i + 1 < length chain" and k: "walked_ok w chain maxAttempts b' (i + 1) k"
    and "\<And>j. chain ! j \<noteq> chain ! i \<Longrightarrow> model_available w chain b' j = model_available w chain b j"
    and "failed_on evs = (if held_against w chain maxAttempts b i then [chain ! i] else [])" and "succeeded_on evs = []"
  shows "walked_ok w chain maxAttempts b i (before evs k)"
proof -
  have "filter (held_against w chain maxAttempts b') [i + 1..<wk_model k + 1] = filter (held_against w chain maxAttempts b) [i + 1..<wk_model k + 1]"
    using k assms(2,4) by (intro held_later [OF assms(1)]) (auto simp: walked_ok_def)
  moreover have "[i..<wk_model k + 1] = i # [i + 1..<wk_model k + 1]" using k by (simp add: walked_ok_def upt_conv_Cons)
  ultimately show ?thesis using k assms(5,6) by (simp add: walked_ok_def)
qed

lemma walk_ok:
  assumes "distinct chain" and "i < length chain"
  shows "walked_ok w chain maxAttempts b i (run_models w chain maxAttempts b i)"
  using assms(2)
proof (induction rule: walk_induct)
  case (unavailable i b k)
  then show ?case
    using other_models(1) by (intro walked_ok_before [OF assms(1), where b' = "after_probe w chain i b"]) (auto simp: held_against_def)
next
  case (failing i b k err)
  then show ?case
    using other_models(2) by (intro walked_ok_before [OF assms(1), where b' = "after_failure w chain i b"]) (auto simp: held_against_def)
next
  case (stops i b)
  then show ?case
    by (auto simp: walked_ok_def stops_with_def Let_def held_against_def passed_over_def model_fails_def)
qed

section \<open>The whole run\<close>

lemma run_unfold:
  "run w opts b = run_end w opts (run_models w (ro_chain opts) (ro_maxAttempts opts) (snd (snd (selected w opts b))) 0)"
  by (simp add: run_def split: prod.split)

text \<open>What the end of a run gives, and its mark on each reading of the trace.\<close>

definition run_gives :: "run_world \<Rightarrow> run_options \<Rightarrow> nat \<Rightarrow> run_error + string" where
  "run_gives w opts n =
     (case model_gives w (ro_maxAttempts opts) n of
        Inl err \<Rightarrow> Inl err
      | Inr out \<Rightarrow>
          if \<not> ro_keepAlive opts \<and> rw_close w \<noteq> None then Inl (the (rw_close w))
          else Inr (if ro_json opts then stripJsonFences out else out))"

lemma bead_trace [simp]:
  "breaker_calls (bead_audit src c) = []" "breaker_calls (bead_close src e) = []" "failed_on (bead_audit src c) = []" "failed_on (bead_close src e) = []"
  "succeeded_on (bead_audit src c) = []" "succeeded_on (bead_close src e) = []" "watch cur (bead_audit src c) = Some cur" "watch cur (bead_close src e) = Some cur"
  "prompts (bead_audit src c) = 0" "prompts (bead_close src e) = 0"
  "bead_events (bead_audit src c) = bead_audit src c" "bead_events (bead_close src e) = bead_close src e"
  by (simp_all add: bead_audit_def bead_close_def split: bead_source.split)

lemma run_end_out: "walked_ok w (ro_chain opts) (ro_maxAttempts opts) b i k \<Longrightarrow> rr_out (run_end w opts k) = run_gives w opts (wk_model k)"
  by (auto simp: run_end_def run_fails_def run_gives_def walked_ok_def Let_def split: sum.split option.split)

lemma end_breaker:
  assumes "wk_breaker k = do_calls (breaker_calls (wk_events k)) b"
  shows "rr_breaker (run_end w opts k) = do_calls (breaker_calls (rr_events (run_end w opts k))) b"
  using assms by (auto simp: run_end_def run_fails_def do_calls_def Let_def split: sum.split option.split)

lemma end_failed:
  assumes "walked_ok w (ro_chain opts) (ro_maxAttempts opts) b i k"
  shows "failed_on (rr_events (run_end w opts k)) = failed_on (wk_events k)
      @ (case run_gives w opts (wk_model k) of
           Inl err \<Rightarrow> if backend_failure err \<and> \<not> model_fails w (ro_maxAttempts opts) (wk_model k) then [ro_chain opts ! wk_model k] else []
         | Inr out \<Rightarrow> [])"
    and "succeeded_on (rr_events (run_end w opts k)) = (case run_gives w opts (wk_model k) of Inl err \<Rightarrow> [] | Inr out \<Rightarrow> [ro_chain opts ! wk_model k])"
proof -
  have "\<not> model_fails w (ro_maxAttempts opts) n" if "model_gives w (ro_maxAttempts opts) n = Inr out" for n out
    using that by (auto simp: model_fails_def model_gives_def)
  then show "failed_on (rr_events (run_end w opts k)) = failed_on (wk_events k)
      @ (case run_gives w opts (wk_model k) of
           Inl err \<Rightarrow> if backend_failure err \<and> \<not> model_fails w (ro_maxAttempts opts) (wk_model k) then [ro_chain opts ! wk_model k] else []
         | Inr out \<Rightarrow> [])"
    and "succeeded_on (rr_events (run_end w opts k)) = (case run_gives w opts (wk_model k) of Inl err \<Rightarrow> [] | Inr out \<Rightarrow> [ro_chain opts ! wk_model k])"
    using assms
    by (auto simp: run_end_def run_fails_def run_gives_def walked_ok_def Let_def split: sum.split option.split)
qed

lemma end_session:
  assumes "walked_ok w (ro_chain opts) (ro_maxAttempts opts) b i k" and "watch None (wk_events k) = Some (wk_session k)"
  shows "watch None (rr_events (run_end w opts k))
    = Some (if ro_keepAlive opts \<and> (\<exists>out. run_gives w opts (wk_model k) = Inr out) then Some (wk_model k) else None)"
proof -
  have "rw_factory w n = None" if "model_gives w (ro_maxAttempts opts) n = Inr out" for n out
    using that by (cases "rw_factory w n") (auto simp: model_gives_def)
  then show ?thesis
    using assms
    by (auto simp: run_end_def run_fails_def run_gives_def walked_ok_def Let_def split: sum.split option.split)
qed

lemma end_beads:
  assumes "walked_ok w (ro_chain opts) (ro_maxAttempts opts) b i k" and "bead_events (wk_events k) = []"
  shows "bead_events (rr_events (run_end w opts k))
    = (case run_gives w opts (wk_model k) of
         Inl err \<Rightarrow> bead_close (ro_bead opts) err @ bead_audit (ro_bead opts) 1 | Inr out \<Rightarrow> bead_audit (ro_bead opts) 0)"
  using assms
  by (auto simp: run_end_def run_fails_def run_gives_def walked_ok_def Let_def split: sum.split option.split)

lemma end_prompts: "prompts (rr_events (run_end w opts k)) = prompts (wk_events k)"
  by (auto simp: run_end_def run_fails_def Let_def split: sum.split option.split)

text \<open>Where the run stops, for every reading of it.\<close>

lemma run_stop:
  assumes "distinct (ro_chain opts)" and "ro_chain opts \<noteq> []"
    and "b2 = snd (snd (selected w opts b))"
  obtains n where "n < length (ro_chain opts)" and "\<forall>j < n. passed_over w (ro_chain opts) (ro_maxAttempts opts) b2 j"
    and "\<not> passed_over w (ro_chain opts) (ro_maxAttempts opts) b2 n"
    and "wk_model (run_models w (ro_chain opts) (ro_maxAttempts opts) b2 0) = n"
    and "walked_ok w (ro_chain opts) (ro_maxAttempts opts) b2 0 (run_models w (ro_chain opts) (ro_maxAttempts opts) b2 0)"
    and "run w opts b = run_end w opts (run_models w (ro_chain opts) (ro_maxAttempts opts) b2 0)"
proof -
  have len: "0 < length (ro_chain opts)" using assms(2) by simp
  obtain n b' evs where n: "n < length (ro_chain opts)" "\<forall>j. 0 \<le> j \<and> j < n \<longrightarrow> passed_over w (ro_chain opts) (ro_maxAttempts opts) b2 j"
      "\<not> passed_over w (ro_chain opts) (ro_maxAttempts opts) b2 n"
      "run_models w (ro_chain opts) (ro_maxAttempts opts) b2 0 = before evs (stops_with w (ro_chain opts) (ro_maxAttempts opts) b' n)"
    using run_models_spec [OF assms(1) len, of w "ro_maxAttempts opts" b2] by blast
  then have "wk_model (run_models w (ro_chain opts) (ro_maxAttempts opts) b2 0) = n" by (simp add: stops_with_def Let_def)
  then show ?thesis using that n walk_ok [OF assms(1) len] run_unfold [of w opts b] assms(3) by simp
qed

lemma nth_in_filter:
  assumes "distinct xs" and "j < length xs" and "n \<le> length xs"
  shows "xs ! j \<in> set (map ((!) xs) (filter P [0..<n])) \<longleftrightarrow> j < n \<and> P j"
proof -
  have "xs ! i = xs ! j \<longleftrightarrow> i = j" if "i < n" for i
    using assms that by (simp add: nth_eq_iff_index_eq)
  then show ?thesis by (fastforce simp: image_iff)
qed

lemma distinct_nth_filter:
  assumes "distinct xs" and "n \<le> length xs"
  shows "distinct (map ((!) xs) (filter P [0..<n]))"
  using assms by (auto simp: distinct_map inj_on_def nth_eq_iff_index_eq)

lemma distinct_last: "distinct ys \<Longrightarrow> (zs \<noteq> [] \<Longrightarrow> z \<notin> set ys) \<Longrightarrow> zs = [] \<or> zs = [z] \<Longrightarrow> distinct (ys @ zs)"
  by auto

section \<open>Properties\<close>

text \<open>C24. The walk over the models: a run passes over a model exactly when there is a next one and
  its breaker is open or every attempt on it failed for a reason that passes, and gives what
  the first other model gives: its output (whose session must close, unless it is kept), or
  the error. A model is asked again only while it fails for such a reason that is no limit and
  attempts are left. A session that cannot be created or started ends the run, whatever models
  are left.\<close>

theorem run_walks_chain:
  assumes "distinct (ro_chain opts)" and "ro_chain opts \<noteq> []" and "b2 = snd (snd (selected w opts b))"
  shows "(\<exists>n < length (ro_chain opts).
        (\<forall>j < n. passed_over w (ro_chain opts) (ro_maxAttempts opts) b2 j) \<and> \<not> passed_over w (ro_chain opts) (ro_maxAttempts opts) b2 n
      \<and> rr_out (run w opts b) = run_gives w opts n)
    \<and> (\<forall>i. \<exists>a \<ge> 1. snd (asks w (ro_maxAttempts opts) i) = rw_turn w i a
        \<and> (\<forall>j. 1 \<le> j \<and> j < a \<longrightarrow> goes_again (ro_maxAttempts opts) j (rw_turn w i j)) \<and> \<not> goes_again (ro_maxAttempts opts) a (rw_turn w i a))"
proof -
  obtain n where n: "n < length (ro_chain opts)" "\<forall>j < n. passed_over w (ro_chain opts) (ro_maxAttempts opts) b2 j"
      "\<not> passed_over w (ro_chain opts) (ro_maxAttempts opts) b2 n"
      "wk_model (run_models w (ro_chain opts) (ro_maxAttempts opts) b2 0) = n"
      "walked_ok w (ro_chain opts) (ro_maxAttempts opts) b2 0 (run_models w (ro_chain opts) (ro_maxAttempts opts) b2 0)"
      "run w opts b = run_end w opts (run_models w (ro_chain opts) (ro_maxAttempts opts) b2 0)"
    by (rule run_stop [OF assms])
  have "rr_out (run w opts b) = run_gives w opts n" using run_end_out [OF n(5)] n(4,6) by simp
  moreover have "\<exists>a \<ge> 1. snd (asks w (ro_maxAttempts opts) i) = rw_turn w i a
      \<and> (\<forall>j. 1 \<le> j \<and> j < a \<longrightarrow> goes_again (ro_maxAttempts opts) j (rw_turn w i j)) \<and> \<not> goes_again (ro_maxAttempts opts) a (rw_turn w i a)" for i
    unfolding asks_def using try_model_spec [of 1 "ro_maxAttempts opts" "rw_turn w i" i] by blast
  ultimately show ?thesis using n by blast
qed

text \<open>C25. What a run tells the breaker: the breaker at its end is the one after the selection with
  exactly the calls of its trace; a failure is held once against each available model it
  passed over after asking it, and against the model it ended on when the error is neither a
  cancellation nor an authentication error; a success is recorded exactly when the run gives an
  output, for the model that gave it.\<close>

theorem run_accounts:
  assumes "distinct (ro_chain opts)" and "ro_chain opts \<noteq> []" and "b2 = snd (snd (selected w opts b))" and "r = run w opts b"
  shows "\<exists>n < length (ro_chain opts). (\<forall>j < n. passed_over w (ro_chain opts) (ro_maxAttempts opts) b2 j)
    \<and> rr_breaker r = do_calls (breaker_calls (rr_events r)) b2 \<and> distinct (failed_on (rr_events r))
    \<and> (\<forall>j < length (ro_chain opts). ro_chain opts ! j \<in> set (failed_on (rr_events r)) \<longleftrightarrow>
         j < n \<and> model_available w (ro_chain opts) b2 j \<and> model_fails w (ro_maxAttempts opts) j
       \<or> j = n \<and> (\<exists>err. rr_out r = Inl err \<and> backend_failure err))
    \<and> succeeded_on (rr_events r) = (case rr_out r of Inl err \<Rightarrow> [] | Inr out \<Rightarrow> [ro_chain opts ! n])"
proof -
  let ?chain = "ro_chain opts" and ?max = "ro_maxAttempts opts"
  let ?k = "run_models w ?chain ?max b2 0"
  obtain n where n: "n < length ?chain" "\<forall>j < n. passed_over w ?chain ?max b2 j" "\<not> passed_over w ?chain ?max b2 n"
      "wk_model ?k = n" "walked_ok w ?chain ?max b2 0 ?k" "run w opts b = run_end w opts ?k"
    by (rule run_stop [OF assms(1-3)])
  have out: "rr_out r = run_gives w opts n" using run_end_out [OF n(5)] n(4,6) assms(4) by simp
  have brk: "rr_breaker r = do_calls (breaker_calls (rr_events r)) b2"
    unfolding assms(4) n(6) using assms(2) by (intro end_breaker walk_breaker) simp
  have walk_failed: "failed_on (wk_events ?k) = map ((!) ?chain) (filter (held_against w ?chain ?max b2) [0..<n + 1])"
    using n(5) unfolding walked_ok_def n(4) by blast
  define extra where "extra = (case run_gives w opts n of
      Inl err \<Rightarrow> if backend_failure err \<and> \<not> model_fails w ?max n then [?chain ! n] else [] | Inr out \<Rightarrow> [])"
  have failed: "failed_on (rr_events r) = map ((!) ?chain) (filter (held_against w ?chain ?max b2) [0..<n + 1]) @ extra"
    using walk_failed unfolding assms(4) n(6) extra_def end_failed(1) [OF n(5)] n(4) by simp
  have last_failed: "model_fails w ?max n \<Longrightarrow> \<exists>err. rr_out r = Inl err \<and> backend_failure err"
    unfolding out by (auto simp: model_fails_def run_gives_def model_gives_def elim: transient_failure.elims)
  have extra_n: "extra \<noteq> [] \<longleftrightarrow> (\<exists>err. rr_out r = Inl err \<and> backend_failure err) \<and> \<not> model_fails w ?max n"
    unfolding extra_def out by (auto split: sum.split)
  have extra_form: "extra = [] \<or> extra = [?chain ! n]" by (auto simp: extra_def split: sum.split)
  have held_n: "held_against w ?chain ?max b2 n \<longleftrightarrow> model_fails w ?max n"
    using n(1,3) by (auto simp: held_against_def passed_over_def)
  have idx: "?chain ! j = ?chain ! i \<longleftrightarrow> j = i" if "j < length ?chain" "i < length ?chain" for i j
    using assms(1) that by (simp add: nth_eq_iff_index_eq)
  have mem: "?chain ! j \<in> set (failed_on (rr_events r)) \<longleftrightarrow>
      j < n \<and> model_available w ?chain b2 j \<and> model_fails w ?max j \<or> j = n \<and> (\<exists>err. rr_out r = Inl err \<and> backend_failure err)"
    if j: "j < length ?chain" for j
  proof -
    have "?chain ! j \<in> set (map ((!) ?chain) (filter (held_against w ?chain ?max b2) [0..<n + 1])) \<longleftrightarrow>
        j \<le> n \<and> held_against w ?chain ?max b2 j"
      using nth_in_filter [OF assms(1) j, of "n + 1"] n(1) by auto
    moreover have "?chain ! j \<in> set extra \<longleftrightarrow> j = n \<and> extra \<noteq> []" using extra_form idx [OF j n(1)] by auto
    moreover have "j < n \<Longrightarrow> held_against w ?chain ?max b2 j \<longleftrightarrow> model_available w ?chain b2 j \<and> model_fails w ?max j"
      using n(1) by (auto simp: held_against_def)
    ultimately show ?thesis
      unfolding failed using held_n extra_n last_failed by (cases "j = n") auto
  qed
  have "distinct (map ((!) ?chain) (filter (held_against w ?chain ?max b2) [0..<n + 1]))"
    using n(1) by (intro distinct_nth_filter [OF assms(1)]) simp
  moreover have "extra \<noteq> [] \<Longrightarrow> ?chain ! n \<notin> set (map ((!) ?chain) (filter (held_against w ?chain ?max b2) [0..<n + 1]))"
    using held_n extra_n nth_in_filter [OF assms(1) n(1), of "n + 1"] n(1) last_failed by auto
  ultimately have "distinct (failed_on (rr_events r))" unfolding failed using extra_form by (rule distinct_last)
  moreover have "succeeded_on (rr_events r) = (case rr_out r of Inl err \<Rightarrow> [] | Inr out \<Rightarrow> [?chain ! n])"
    unfolding out unfolding assms(4) n(6) end_failed(2) [OF n(5)] n(4) ..
  ultimately show ?thesis using n(1,2) brk mem by blast
qed


text \<open>A run is bounded: it prompts at most \<open>maxAttempts\<close> times for each model of its chain, and
  each pause before another attempt is within a fifth of a second doubled per attempt.\<close>

theorem run_bounded:
  assumes "ro_chain opts \<noteq> []" and "1 \<le> ro_maxAttempts opts" and "0 \<le> random" and "random < 1" and "1 \<le> attempt"
  shows "prompts (rr_events (run w opts b)) \<le> ro_maxAttempts opts * length (ro_chain opts)
    \<and> 800 * 2 ^ (attempt - 1) \<le> getRetryDelayMs random attempt \<and> getRetryDelayMs random attempt \<le> 1200 * 2 ^ (attempt - 1)"
proof -
  define P :: rat where "P = 2 ^ (attempt - 1)"
  have P: "0 < P" by (simp add: P_def)
  let ?x = "1000 * P * (1 + (random * 2 - 1) * (1 / 5))"
  have d: "getRetryDelayMs random attempt = max 0 \<lfloor>?x + 1 / 2\<rfloor>"
    by (simp add: getRetryDelayMs_def RETRY_BASE_DELAY_MS_def RETRY_MAX_JITTER_def P_def Let_def)
  have x: "?x = 800 * P + 400 * P * random" by (simp add: algebra_simps)
  have "0 \<le> P * random" "P * random < P" using P assms(3,4) by simp_all
  then have lo: "800 * P \<le> ?x" and hi: "?x < 1200 * P" unfolding x by simp_all
  have i: "800 * P = of_int (800 * 2 ^ (attempt - 1))" "1200 * P = of_int (1200 * 2 ^ (attempt - 1))" by (simp_all add: P_def)
  have "800 * 2 ^ (attempt - 1) \<le> \<lfloor>?x + 1 / 2\<rfloor>" using lo unfolding i le_floor_iff by simp
  moreover have "\<lfloor>?x + 1 / 2\<rfloor> < 1200 * 2 ^ (attempt - 1) + 1" using hi unfolding i floor_less_iff by simp
  moreover have "prompts (rr_events (run w opts b)) \<le> ro_maxAttempts opts * length (ro_chain opts)"
    using walk_prompts [OF assms(2), of 0 "ro_chain opts"] assms(1) by (simp add: run_unfold end_prompts)
  ultimately show ?thesis using d by simp
qed

section \<open>Runs\<close>

text \<open>Model \<open>a\<close> fails with a 503 and then runs into its limit; \<open>b\<close> answers.\<close>

definition busy :: run_error where
  "busy = Raised (ThrownError ''Error'' ''x'' (Some (NumCode 503)) None)"

definition limited :: run_error where
  "limited = Raised (ThrownError ''Error'' ''x'' (Some (NumCode 429)) None)"

definition flaky_world :: run_world where
  "flaky_world = \<lparr>rw_factory = (\<lambda>i. None), rw_start = (\<lambda>i. None),
     rw_turn = (\<lambda>i a. if i = 0 then Inl (if a = 1 then busy else limited) else Inr ''done''), rw_close = None,
     rw_select_at = 0, rw_probe_at = (\<lambda>i. 1), rw_failed_at = (\<lambda>i. 2), rw_end_at = 3\<rparr>"

definition two_models :: "bead_source \<Rightarrow> run_options" where
  "two_models bead = \<lparr>ro_chain = [''a'', ''b''], ro_maxAttempts = 3, ro_json = False, ro_keepAlive = False, ro_bead = bead\<rparr>"

lemma flaky_errors [simp]:
  "transient_failure busy" "\<not> rate_limited busy" "transient_failure limited" "rate_limited limited" "class_of limited = ''rate_limit''"
  by code_simp+

lemma flaky_run:
  "rr_events (run flaky_world (two_models (Own_bead ''x-1'')) (new_breaker None None)) =
     [Breaker ''a'' (Probe 1), Created 0, Asked 0 1, Waits 0 1, Asked 0 2, Breaker ''a'' (Failure 2),
      Fallback_step 2 ''b'' ''rate_limit'' False, Kill 0,
      Breaker ''b'' (Probe 1), Created 1, Asked 1 1, Close 1, Breaker ''b'' (Success 3), Bead_audited ''x-1'' 0]"
  "rr_out (run flaky_world (two_models (Own_bead ''x-1'')) (new_breaker None None)) = Inr ''done''"
  by (simp_all add: run_def selected_def two_models_def flaky_world_def run_models.simps try_model.simps run_end_def new_breaker_def
    isAvailable_def getState_def recordFailure_def recordSuccess_def bead_audit_def before_def Let_def)

lemma two_models_fields [simp]:
  "ro_chain (two_models bead) = [''a'', ''b'']" "ro_maxAttempts (two_models bead) = 3" "ro_keepAlive (two_models bead) = False"
  "ro_bead (two_models bead) = bead"
  by (simp_all add: two_models_def)

lemma fallback_setting:
  "distinct (ro_chain (two_models bead))" "ro_chain (two_models bead) \<noteq> []" "1 \<le> ro_maxAttempts (two_models bead)"
  by simp_all

theorem run_walks_chain_witness:
  "\<exists>n < length [''a'', ''b''].
      (\<forall>j < n. passed_over flaky_world [''a'', ''b''] 3 (snd (snd (selected flaky_world (two_models No_bead) (new_breaker None None)))) j)
    \<and> rr_out (run flaky_world (two_models No_bead) (new_breaker None None)) = run_gives flaky_world (two_models No_bead) n"
  using run_walks_chain [OF fallback_setting(1,2) refl, of No_bead flaky_world "new_breaker None None"]
  unfolding two_models_fields by blast

theorem run_accounts_witness:
  "''a'' \<in> set (failed_on (rr_events (run flaky_world (two_models (Own_bead ''x-1'')) (new_breaker None None))))
    \<and> succeeded_on (rr_events (run flaky_world (two_models (Own_bead ''x-1'')) (new_breaker None None))) = [''b'']"
  using run_accounts [OF fallback_setting(1,2) refl refl, of "Own_bead ''x-1''" flaky_world "new_breaker None None"] by (auto simp: flaky_run)


theorem run_bounded_witness:
  "prompts (rr_events (run flaky_world (two_models No_bead) (new_breaker None None))) \<le> 3 * length [''a'', ''b'']
    \<and> 1600 \<le> getRetryDelayMs (1 / 2) 2"
  using run_bounded [OF fallback_setting(2,3), where random = "1 / 2" and attempt = 2 and w = flaky_world and b = "new_breaker None None"]
  by simp

end
