(* ===== verification/Reviewer_Diff.thy ===== *)
theory Reviewer_Diff imports Prelude begin

text \<open>
  The patch a reviewer is given with its task, in \<open>src/specialist/runner.ts\<close>: where it is taken
  from, how the commands that read it are quoted, and the text it becomes. What a command
  prints is a parameter, \<^term>\<open>None\<close> when it fails; the answers do not change meanwhile.
\<close>

definition sq :: char where
  "sq = CHR 0x27"

text \<open>The replacement text \<open>`'\''`\<close> is a template: its escaped quote is a quote.\<close>

definition shellQuote :: "string \<Rightarrow> string" where
  "shellQuote v = sq # concat (map (\<lambda>c. if c = sq then [sq, sq, sq] else [c]) v) @ [sq]"

text \<open>The function of the same name of \<open>src/cli/run.ts\<close>, whose backslash is escaped.\<close>

definition bs :: char where
  "bs = CHR 0x5C"

definition cli_shellQuote :: "string \<Rightarrow> string" where
  "cli_shellQuote v = sq # concat (map (\<lambda>c. if c = sq then [sq, bs, sq, sq] else [c]) v) @ [sq]"

type_synonym commands = "string \<Rightarrow> string option"

definition readCommandOutput :: "commands \<Rightarrow> string \<Rightarrow> string" where
  "readCommandOutput cmd c = (case cmd c of Some out \<Rightarrow> trim out | None \<Rightarrow> [])"

text \<open>\<open>/HEAD branch:\s*(.+)/\<close> on a text without spaces at its end.\<close>

definition head_branch :: "string \<Rightarrow> string option" where
  "head_branch s =
     (case index_of ''HEAD branch:'' s of
        None \<Rightarrow> None
      | Some i \<Rightarrow>
          let rest = dropWhile is_space (drop (i + 12) s) in
          if rest = [] then None else Some (takeWhile (\<lambda>c. char_code c \<noteq> 10 \<and> char_code c \<noteq> 13) rest))"

definition resolveDefaultBranch :: "commands \<Rightarrow> string" where
  "resolveDefaultBranch cmd =
     (let headRef = readCommandOutput cmd ''git symbolic-ref refs/remotes/origin/HEAD'' in
      if headRef \<noteq> [] then last (split_on (CHR ''/'') headRef)
      else
        (case head_branch (readCommandOutput cmd ''git remote show origin'') of
           None \<Rightarrow> ''main''
         | Some b \<Rightarrow> if trim b = [] then ''main'' else trim b))"

definition readMergeBase :: "commands \<Rightarrow> string" where
  "readMergeBase cmd = readCommandOutput cmd (''git merge-base '' @ shellQuote (resolveDefaultBranch cmd) @ '' HEAD'')"

definition file_marker :: "string \<Rightarrow> string" where
  "file_marker f = ''### '' @ f @ [newline]"

definition extractInjectedFileDiff :: "string \<Rightarrow> string \<Rightarrow> string" where
  "extractInjectedFileDiff hunks f =
     (case index_of (file_marker f) hunks of
        None \<Rightarrow> []
      | Some start \<Rightarrow>
          let rest = drop (start + length (file_marker f)) hunks in
          trim (case index_of ([newline, newline] @ ''### '') rest of Some n \<Rightarrow> take n rest | None \<Rightarrow> rest))"

record reviewer_context =
  rc_source :: string
  rc_stat :: string
  rc_files :: "string list"
  rc_hunks :: string

record patch_source =
  ps_source :: string
  ps_stat :: string
  ps_files :: "string list"
  ps_diff :: "string \<Rightarrow> string"

text \<open>The lines of a text that are not blank.\<close>

definition text_lines :: "string \<Rightarrow> string list" where
  "text_lines s = filter (\<lambda>l. l \<noteq> []) (map trim (split_on newline s))"

definition parseInjectedReviewerDiffContext :: "(string, string) js_map \<Rightarrow> reviewer_context option" where
  "parseInjectedReviewerDiffContext vars =
     (let get = (\<lambda>k. map_option trim (map_get vars k));
          src = get ''reviewer_diff_source''; stat = get ''reviewer_diff_stat'';
          filesRaw = get ''reviewer_diff_files''; hunks = get ''reviewer_diff_hunks'' in
      if \<not> truthy src \<or> \<not> truthy filesRaw \<or> \<not> truthy hunks then None
      else if text_lines (the filesRaw) = [] then None
      else Some \<lparr>rc_source = the src, rc_stat = (if truthy stat then the stat else ''(no stat)''),
             rc_files = text_lines (the filesRaw), rc_hunks = the hunks\<rparr>)"

definition getPatchSources :: "commands \<Rightarrow> (string, string) js_map \<Rightarrow> patch_source list" where
  "getPatchSources cmd vars =
     (let mergeBase = readMergeBase cmd; out = readCommandOutput cmd; range = shellQuote mergeBase @ ''..HEAD'' in
      (case parseInjectedReviewerDiffContext vars of
         None \<Rightarrow> []
       | Some c \<Rightarrow> [\<lparr>ps_source = rc_source c, ps_stat = rc_stat c, ps_files = rc_files c, ps_diff = extractInjectedFileDiff (rc_hunks c)\<rparr>])
      @ [\<lparr>ps_source = ''unstaged diff'', ps_stat = out ''git diff --stat'', ps_files = text_lines (out ''git diff --name-only''),
           ps_diff = (\<lambda>f. out (''git diff -- '' @ shellQuote f))\<rparr>,
         \<lparr>ps_source = ''staged diff'', ps_stat = out ''git diff --cached --stat'', ps_files = text_lines (out ''git diff --cached --name-only''),
           ps_diff = (\<lambda>f. out (''git diff --cached -- '' @ shellQuote f))\<rparr>,
         \<lparr>ps_source = ''branch-vs-base diff'',
           ps_stat = (if mergeBase \<noteq> [] then out (''git diff --stat '' @ range) else []),
           ps_files = (if mergeBase \<noteq> [] then text_lines (out (''git diff --name-only '' @ range)) else []),
           ps_diff = (\<lambda>f. if mergeBase \<noteq> [] then out (''git diff '' @ range @ '' -- '' @ shellQuote f) else [])\<rparr>])"

definition source_hunks :: "patch_source \<Rightarrow> string list \<Rightarrow> string" where
  "source_hunks p fs =
     join [newline, newline] (map (\<lambda>f. let diff = ps_diff p f in
       ''### '' @ f @ [newline] @ (if diff \<noteq> [] then diff else ''(no hunks)'')) fs)"

fun first_patch :: "nat \<Rightarrow> patch_source list \<Rightarrow> reviewer_context option" where
  "first_patch maxFiles [] = None"
| "first_patch maxFiles (p # ps) =
     (let fs = take maxFiles (ps_files p); hunks = source_hunks p fs in
      if fs = [] then first_patch maxFiles ps
      else if trim hunks \<noteq> [] then Some \<lparr>rc_source = ps_source p, rc_stat = ps_stat p, rc_files = fs, rc_hunks = hunks\<rparr>
      else first_patch maxFiles ps)"

definition buildReviewerDiffContext :: "commands \<Rightarrow> (string, string) js_map \<Rightarrow> nat \<Rightarrow> string + reviewer_context" where
  "buildReviewerDiffContext cmd vars maxFiles =
     (case first_patch maxFiles (getPatchSources cmd vars) of
        Some c \<Rightarrow> Inr c
      | None \<Rightarrow> Inl ''Reviewer startup blocked: no patch context found in injected diff, unstaged diff, staged diff, or branch-vs-base diff.'')"

definition buildReviewerDiffInstruction :: "reviewer_context \<Rightarrow> string" where
  "buildReviewerDiffInstruction c =
     (let nl = [newline] in
      nl @ nl @ ''---'' @ nl @ ''## Reviewer Diff Context'' @ nl
      @ ''Review only patch below. Ignore unrelated files, repo-wide exploration, and filesystem hunting.'' @ nl
      @ ''If patch context is empty, stop and fail fast.'' @ nl @ nl
      @ ''Patch source:'' @ nl @ rc_source c @ nl @ nl
      @ ''Diff stat:'' @ nl @ (if rc_stat c \<noteq> [] then rc_stat c else ''(no stat)'') @ nl @ nl
      @ ''Changed files:'' @ nl @ join nl (map (\<lambda>f. ''- '' @ f) (rc_files c)) @ nl @ nl
      @ ''Diff hunks:'' @ nl @ rc_hunks c @ nl @ ''---'' @ nl)"

text \<open>What a specialist's task becomes in a run; an error of the patch is only a warning.\<close>

definition appendExecutionContext :: "commands \<Rightarrow> (string, string) js_map \<Rightarrow> string \<Rightarrow> string \<Rightarrow> string" where
  "appendExecutionContext cmd vars specialist task =
     (if specialist = ''reviewer''
      then (case buildReviewerDiffContext cmd vars 20 of Inl e \<Rightarrow> task | Inr c \<Rightarrow> task @ buildReviewerDiffInstruction c)
      else task)"

section \<open>The quotes a shell reads\<close>

text \<open>Single quotes and backslashes of a shell: each character with whether it is quoted,
  \<^term>\<open>None\<close> when a quote is left open.\<close>

fun sh_read :: "bool \<Rightarrow> string \<Rightarrow> (char \<times> bool) list option" where
  "sh_read inside [] = (if inside then None else Some [])"
| "sh_read inside (c # cs) =
     (if c = sq then sh_read (\<not> inside) cs
      else if c = bs \<and> \<not> inside
      then (case cs of [] \<Rightarrow> Some [(bs, False)] | d # ds \<Rightarrow> map_option (\<lambda>r. (d, True) # r) (sh_read False ds))
      else map_option (\<lambda>r. (c, inside) # r) (sh_read inside cs))"

definition all_quoted :: "string \<Rightarrow> (char \<times> bool) list" where
  "all_quoted v = map (\<lambda>c. (c, True)) v"

definition none_quoted :: "string \<Rightarrow> (char \<times> bool) list" where
  "none_quoted v = map (\<lambda>c. (c, False)) v"

lemma sq_bs [simp]: "sq \<noteq> bs" "bs \<noteq> sq"
  by (simp_all add: sq_def bs_def)

lemma read_cli_body:
  "sh_read True (concat (map (\<lambda>c. if c = sq then [sq, bs, sq, sq] else [c]) v) @ [sq]) = Some (all_quoted v)"
  by (induction v) (auto simp: all_quoted_def)

fun alternate :: "bool \<Rightarrow> string list \<Rightarrow> (char \<times> bool) list" where
  "alternate inside [] = []"
| "alternate inside (p # ps) = map (\<lambda>c. (c, inside)) p @ alternate (\<not> inside) ps"

lemma read_body:
  "bs \<notin> set v \<Longrightarrow> sh_read inside (concat (map (\<lambda>c. if c = sq then [sq, sq, sq] else [c]) v) @ [sq])
    = (if odd (length (split_on sq v)) = inside then Some (alternate inside (split_on sq v)) else None)"
  by (induction v arbitrary: inside) (auto split: list.split)

lemma alternate_no_quote: "(sq, q) \<notin> set (alternate inside (split_on sq v))"
proof -
  have "\<forall>p \<in> set (split_on sq v). sq \<notin> set p"
    by (induction v) (auto split: list.split)
  moreover have "(sq, q) \<in> set (alternate inside ps) \<Longrightarrow> \<exists>p \<in> set ps. sq \<in> set p" for ps
    by (induction inside ps rule: alternate.induct) auto
  ultimately show ?thesis by blast
qed

section \<open>The first patch\<close>

lemma trim_nonblank: "c \<in> set s \<Longrightarrow> \<not> is_space c \<Longrightarrow> trim s \<noteq> []"
proof -
  assume c: "c \<in> set s" "\<not> is_space c"
  then have "c \<in> set (dropWhile is_space s)"
    using set_takeWhileD [of c is_space s] takeWhile_dropWhile_id [of is_space s] by (metis Un_iff set_append)
  then show ?thesis using c(2) by (auto simp: trim_def dropWhile_eq_Nil_conv)
qed

lemma source_hunks_nonblank: "fs \<noteq> [] \<Longrightarrow> trim (source_hunks p fs) \<noteq> []"
proof (cases fs)
  case (Cons f fs')
  then obtain r where "source_hunks p fs = CHR ''#'' # r" by (cases fs') (simp_all add: source_hunks_def Let_def)
  then show ?thesis by (intro trim_nonblank [of "CHR ''#''"]) (simp_all add: is_space_def)
qed simp

definition context_of :: "patch_source \<Rightarrow> nat \<Rightarrow> reviewer_context" where
  "context_of p maxFiles = \<lparr>rc_source = ps_source p, rc_stat = ps_stat p, rc_files = take maxFiles (ps_files p),
     rc_hunks = source_hunks p (take maxFiles (ps_files p))\<rparr>"

lemma first_patch_find:
  "first_patch maxFiles ps = map_option (\<lambda>p. context_of p maxFiles) (find (\<lambda>p. take maxFiles (ps_files p) \<noteq> []) ps)"
  by (induction ps) (simp_all add: Let_def context_of_def source_hunks_nonblank)

lemma find_split:
  "find P xs = Some x \<longleftrightarrow> (\<exists>ys zs. xs = ys @ x # zs \<and> (\<forall>y \<in> set ys. \<not> P y) \<and> P x)"
proof (induction xs)
  case (Cons a xs)
  show ?case
  proof (cases "P a")
    case True
    then show ?thesis by (auto simp: Cons_eq_append_conv)
  next
    case False
    have "(\<exists>ys zs. a # xs = ys @ x # zs \<and> (\<forall>y \<in> set ys. \<not> P y) \<and> P x)
        \<longleftrightarrow> (\<exists>ys zs. xs = ys @ x # zs \<and> (\<forall>y \<in> set ys. \<not> P y) \<and> P x)" (is "?l \<longleftrightarrow> ?r")
    proof
      assume ?l
      then show ?r using False by (auto simp: Cons_eq_append_conv)
    next
      assume ?r
      then obtain ys zs where "xs = ys @ x # zs" "\<forall>y \<in> set ys. \<not> P y" "P x" by blast
      then show ?l using False by (intro exI [of _ "a # ys"] exI [of _ zs]) simp
    qed
    then show ?thesis using Cons.IH False by simp
  qed
qed simp

lemma read_quoted:
  "bs \<notin> set v \<Longrightarrow> sh_read False (shellQuote v) =
    (if odd (length (split_on sq v)) then Some (alternate True (split_on sq v)) else None)"
  by (simp add: shellQuote_def read_body)

lemma quoted_exactly:
  assumes "bs \<notin> set v"
  shows "sh_read False (shellQuote v) = Some (all_quoted v) \<longleftrightarrow> sq \<notin> set v"
proof
  assume "sh_read False (shellQuote v) = Some (all_quoted v)"
  then have "alternate True (split_on sq v) = all_quoted v"
    using read_quoted [OF assms] by (simp split: if_split_asm)
  then have "(sq, True) \<notin> set (all_quoted v)" using alternate_no_quote by metis
  then show "sq \<notin> set v" by (auto simp: all_quoted_def)
next
  assume "sq \<notin> set v"
  then show "sh_read False (shellQuote v) = Some (all_quoted v)"
    unfolding read_quoted [OF assms] by (simp add: split_on_no_sep all_quoted_def)
qed

section \<open>Properties\<close>

text \<open>C29. What a shell reads of a quoted name. The command line quotes every text so that a shell
  reads it back as it is, all of it quoted. The runner does so exactly for the names without a
  quote of their own (where no backslash comes in): between two quotes of the name what it
  writes is outside quotes, and with one quote the command does not parse.\<close>

theorem quoting:
  "sh_read False (cli_shellQuote v) = Some (all_quoted v)
   \<and> (bs \<notin> set v \<longrightarrow> (sh_read False (shellQuote v) = Some (all_quoted v) \<longleftrightarrow> sq \<notin> set v))
   \<and> (bs \<notin> set (a @ b @ c) \<and> sq \<notin> set (a @ b @ c) \<longrightarrow>
        sh_read False (shellQuote (a @ sq # b)) = None
      \<and> sh_read False (shellQuote (a @ sq # b @ sq # c)) = Some (all_quoted a @ none_quoted b @ all_quoted c))"
proof (intro conjI impI)
  show "sh_read False (cli_shellQuote v) = Some (all_quoted v)"
    using read_cli_body [of v] by (simp add: cli_shellQuote_def)
next
  assume c: "bs \<notin> set (a @ b @ c) \<and> sq \<notin> set (a @ b @ c)"
  have "sh_read False (shellQuote (a @ sq # b)) = None"
    using c by (subst read_quoted) (simp_all add: split_on_sep split_on_no_sep)
  moreover have "sh_read False (shellQuote (a @ sq # b @ sq # c)) = Some (all_quoted a @ none_quoted b @ all_quoted c)"
    using c by (subst read_quoted) (simp_all add: split_on_sep split_on_no_sep all_quoted_def none_quoted_def)
  ultimately show "sh_read False (shellQuote (a @ sq # b)) = None"
    and "sh_read False (shellQuote (a @ sq # b @ sq # c)) = Some (all_quoted a @ none_quoted b @ all_quoted c)" .
qed (rule quoted_exactly)

text \<open>The patch of a reviewer is that of the first source that names a file, cut to the limit;
  whether there are any hunks makes no difference. There is none exactly when no source
  names a file, and a reviewer then gets its task as it is: the error is not passed on.\<close>

theorem first_source_wins:
  assumes "0 < maxFiles"
  shows "(buildReviewerDiffContext cmd vars maxFiles = Inr ctx \<longleftrightarrow>
      (\<exists>ps p qs. getPatchSources cmd vars = ps @ p # qs \<and> (\<forall>q \<in> set ps. ps_files q = []) \<and> ps_files p \<noteq> [] \<and> ctx = context_of p maxFiles))
    \<and> ((\<exists>e. buildReviewerDiffContext cmd vars maxFiles = Inl e) \<longleftrightarrow> (\<forall>q \<in> set (getPatchSources cmd vars). ps_files q = []))
    \<and> ((\<forall>q \<in> set (getPatchSources cmd vars). ps_files q = []) \<longrightarrow> appendExecutionContext cmd vars ''reviewer'' task = task)"
proof -
  let ?found = "find (\<lambda>p. take maxFiles (ps_files p) \<noteq> []) (getPatchSources cmd vars)"
  have built: "buildReviewerDiffContext cmd vars n = Inr c \<longleftrightarrow>
      (\<exists>p. find (\<lambda>p. take n (ps_files p) \<noteq> []) (getPatchSources cmd vars) = Some p \<and> c = context_of p n)" for n c
    by (auto simp: buildReviewerDiffContext_def first_patch_find split: option.split)
  have none: "(\<exists>e. buildReviewerDiffContext cmd vars maxFiles = Inl e) \<longleftrightarrow> ?found = None"
    by (auto simp: buildReviewerDiffContext_def first_patch_find split: option.split)
  have "buildReviewerDiffContext cmd vars maxFiles = Inr ctx \<longleftrightarrow>
      (\<exists>ps p qs. getPatchSources cmd vars = ps @ p # qs \<and> (\<forall>q \<in> set ps. ps_files q = []) \<and> ps_files p \<noteq> [] \<and> ctx = context_of p maxFiles)"
    unfolding built find_split using assms by (auto simp: take_eq_Nil)
  moreover have "appendExecutionContext cmd vars ''reviewer'' task = task" if "\<forall>q \<in> set (getPatchSources cmd vars). ps_files q = []"
    using that by (auto simp: appendExecutionContext_def built find_Some_iff dest!: nth_mem split: sum.split)
  ultimately show ?thesis unfolding none find_None_iff using assms by auto
qed

section \<open>Names\<close>

text \<open>A file whose name runs a command.\<close>

theorem quoting_witness:
  "sh_read False (shellQuote (''a'' @ sq # '';reboot;'' @ sq # ''b'')) = Some (all_quoted ''a'' @ none_quoted '';reboot;'' @ all_quoted ''b'')
   \<and> sh_read False (shellQuote ''a b'') = Some (all_quoted ''a b'')"
  using quoting [of "''a b''" "''a''" "'';reboot;''" "''b''"] by (simp add: sq_def bs_def)

definition injected :: "(string, string) js_map" where
  "injected = [(''reviewer_diff_source'', ''s''), (''reviewer_diff_files'', ''f''), (''reviewer_diff_hunks'', ''h'')]"

lemma silent_sources:
  "\<forall>q \<in> set (getPatchSources (\<lambda>c. None) []). ps_files q = []"
  "\<exists>p qs. getPatchSources (\<lambda>c. None) injected = [] @ p # qs \<and> ps_source p = ''s'' \<and> ps_files p = [''f''] \<and> ps_diff p ''f'' = []"
proof -
  have [simp]: "readCommandOutput (\<lambda>c. None) x = []" "readMergeBase (\<lambda>c. None) = []" for x
    by (simp_all add: readCommandOutput_def readMergeBase_def)
  have [simp]: "text_lines [] = []" "parseInjectedReviewerDiffContext [] = None" "extractInjectedFileDiff ''h'' ''f'' = []"
    "parseInjectedReviewerDiffContext injected = Some \<lparr>rc_source = ''s'', rc_stat = ''(no stat)'', rc_files = [''f''], rc_hunks = ''h''\<rparr>"
    by (code_simp)+
  show "\<forall>q \<in> set (getPatchSources (\<lambda>c. None) []). ps_files q = []"
    and "\<exists>p qs. getPatchSources (\<lambda>c. None) injected = [] @ p # qs \<and> ps_source p = ''s'' \<and> ps_files p = [''f''] \<and> ps_diff p ''f'' = []"
    by (simp_all add: getPatchSources_def Let_def)
qed

theorem first_source_wins_witness:
  "(\<exists>ctx. buildReviewerDiffContext (\<lambda>c. None) injected 20 = Inr ctx \<and> rc_source ctx = ''s''
      \<and> rc_hunks ctx = ''### f'' @ [newline] @ ''(no hunks)'')
   \<and> appendExecutionContext (\<lambda>c. None) [] ''reviewer'' ''t'' = ''t''"
proof -
  obtain p qs where p: "getPatchSources (\<lambda>c. None) injected = [] @ p # qs" "ps_source p = ''s''" "ps_files p = [''f'']" "ps_diff p ''f'' = []"
    using silent_sources(2) by blast
  have "buildReviewerDiffContext (\<lambda>c. None) injected 20 = Inr (context_of p 20)"
    using first_source_wins [of 20 "\<lambda>c. None" injected "context_of p 20"] p by fastforce
  then show ?thesis
    using first_source_wins [of 20 "\<lambda>c. None" "[]"] silent_sources(1) p by (simp add: context_of_def source_hunks_def Let_def)
qed

end
