(* ===== verification/Spec2Isabelle.thy ===== *)
theory Spec2Isabelle imports Circuit_Breaker Lease_Race Epic_Reconciler Pending_Store Job_Registry Job_Control Bead_Gate Launch_Outcome Node_Recovery
  Merge_Plan Peer_Delivery Host_Dispatch Runner_Loop Reviewer_Diff begin

text \<open>
  The coordination core of the specialists runtime, a TypeScript program under
  \<open>src/src/\<close> of the repository (paths below are relative to \<open>src/\<close>, so \<open>src/activation\<close> is
  the directory of that name).

  \<^bold>\<open>The program.\<close> A coordinator, a Claude session or a person at a terminal, gives work items
  (beads) to specialists: agents that run as activations in this process or as supervised
  jobs of their own. Before an activation starts, its bead passes a gate (\<open>bead-gate.ts\<close>,
  \<open>step-contract.ts\<close>) and it takes the writer lease of its workspace
  (\<open>workspace-lease.ts\<close>; \<open>workspace-reconcile.ts\<close> resolves a lease whose holder is gone). The
  host (\<open>native-host.ts\<close>) dispatches it on the first model of its chain that is available
  (\<open>model-chain.ts\<close>, \<open>model-gate.ts\<close>), guards its tools (\<open>guarded-tools.ts\<close>), and stops, resumes and
  retries it. A supervised job is one run of a specialist (\<open>runner.ts\<close>), which retries and falls back along its
  own chain behind a circuit breaker (\<open>circuitBreaker.ts\<close>) and holds the answer to a contract. An activation is listed in
  a registry of jobs (\<open>jobRegistry.ts\<close>), talks to its coordinator by messages
  (\<open>interaction.ts\<close>), which are kept in a durable store (\<open>pending-store.ts\<close>), pushed over
  sockets found in a roster of sessions (\<open>roster.ts\<close>, \<open>peer-registration.ts\<close>,
  \<open>peer-transport.ts\<close>, \<open>peer-adapter.ts\<close>) and polled (\<open>polling.ts\<close>), joined by
  \<open>peer-bridge.ts\<close>, and ends with a launch outcome (\<open>launch-outcome.ts\<close>). Supervised jobs
  are grouped in chains, chains in epics: the store says what is ready
  (\<open>epic-lifecycle.ts\<close>, \<open>epic-readiness.ts\<close>), repairs what drifted (\<open>epic-reconciler.ts\<close>) and
  \<open>cli/merge.ts\<close> merges what has passed. A node (\<open>node-supervisor.ts\<close>) drives several jobs
  through a queue of actions and survives a restart by replaying its events.

  \<^bold>\<open>The theories.\<close> \<open>Prelude\<close> holds the string operations of JavaScript, the insertion-ordered
  \<open>Map\<close>, and two interfaces: a store read and updated by key (\<open>keyed_store\<close>) and a component
  of one state machine per key (\<open>keyed_machine\<close>), whose runs project to each key.
  \<open>Js_Regex\<close> is the fragment of regular expressions the code tests with, \<open>Json_Value\<close> its
  JSON values, with a stored text known by what it parses to. Then one theory per
  component, in the order of their dependence:

  \<^item> \<open>Workspace_Lease\<close>: \<open>src/activation/workspace-lease.ts\<close>. \<open>inspect\<close>, \<open>acquire\<close> (its check
    and its atomic publication), \<open>release\<close>, \<open>admitToolCall\<close>; the store maps the path of a
    lease to its contents. When a lease can be acquired, released, and that no two
    activations are admitted.
  \<^item> \<open>Workspace_Reconcile\<close>: \<open>src/activation/workspace-reconcile.ts\<close>. The decision on an
    uncertain lease and its log; what is freed, what never is, and that a crash is recoverable.
  \<^item> \<open>Lease_Race\<close>: the file-system steps of the two as a transition system over any number of
    activations and processes: mutual exclusion as an invariant of every interleaving, and
    the interleaving of two reconciliations that breaks it.
  \<^item> \<open>Circuit_Breaker\<close>: \<open>src/utils/circuitBreaker.ts\<close>. The breaker as a machine per backend, read
    off the history of calls; the classification of errors.
  \<^item> \<open>Job_Status\<close>, \<open>Epic_Lifecycle\<close>, \<open>Observability_Store\<close>, \<open>Epic_Readiness\<close>,
    \<open>Epic_Reconciler\<close>: \<open>process-liveness.ts\<close>, \<open>isJobDead\<close> of \<open>supervisor.ts\<close>,
    \<open>epic-lifecycle.ts\<close>, \<open>chain-identity.ts\<close>, the states of \<open>node-contract.ts\<close>, the upserts and
    queries of \<open>observability-sqlite.ts\<close> that epics use, \<open>epic-readiness.ts\<close> and
    \<open>epic-reconciler.ts\<close>, all of \<open>src/specialist/\<close>. Both tables of states are instances of one
    interface (\<open>transition_table\<close>). The verdict of a review, a chain and an epic; that a
    repair converges to what the live jobs say and touches nothing else, and the marker that
    makes it undo itself.
  \<^item> \<open>Interaction\<close>: \<open>src/activation/interaction.ts\<close>. Sends and requests cut at their awaits, and
    any interleaving of them (\<open>turn\<close>): every call gets the reply that names its question.
  \<^item> \<open>Pending_Store\<close>: \<open>src/activation/transport/pending-store.ts\<close>. A record is a machine per
    message (\<open>record_step\<close>); delivered is read only on evidence.
  \<^item> \<open>Peer_Roster\<close>: \<open>src/activation/transport/roster.ts\<close> and \<open>peer-registration.ts\<close>. The choice
    of a route, the row of this process, the cleanup of dead rows: a route names a process
    that runs and started when the row says; a cleanup removes exactly its own dead.
  \<^item> \<open>Peer_Wire\<close>: \<open>src/activation/transport/peer-transport.ts\<close>. The envelope, which no text
    leaves; the stream of receipts, whose chunks do not matter.
  \<^item> \<open>Peer_Delivery\<close>: \<open>peer-adapter.ts\<close>, \<open>polling.ts\<close> and \<open>src/activation/peer-bridge.ts\<close>. A push
    cut at its awaits, the wait for an answer, the hook and its watch: composed of the four
    theories before it. No push loses its message, every wait ends, a stored answer
    resumes the call that waits.
  \<^item> \<open>Model_Gate\<close>: \<open>src/specialist/model-chain.ts\<close>, \<open>src/activation/model-gate.ts\<close> and the two walks over
    the chain of \<open>native-host.ts\<close>: which model a run starts on, which it falls back to, and when
    it stops.
  \<^item> \<open>Activation_Host\<close>, \<open>Host_Invariant\<close>, \<open>Host_Dispatch\<close>: \<open>src/activation/native-host.ts\<close> with
    \<open>registry.ts\<close>, \<open>guarded-tools.ts\<close> and \<open>authority-store.ts\<close>: \<open>start\<close>, the events and the end of a
    turn, \<open>runWithFallback\<close>, \<open>resume\<close>, \<open>retry\<close> and \<open>stop\<close> cut at their awaits, and any order of
    them (\<open>own_turn\<close>, and \<open>host_turn\<close> with others at the leases). Composed of the lease, the bead
    gate and the model gate: only a writer mutates, in the workspace it was admitted for, and
    alone; when a dispatch or a new attempt is admitted; what a failed dispatch and a stop in
    the middle of a fallback leave behind.
  \<^item> \<open>Output_Contract\<close>, \<open>Runner_Loop\<close>, \<open>Reviewer_Diff\<close>: \<open>src/specialist/runner.ts\<close>. The schemas of an answer,
    their merge and the validator, against what a schema asks. \<open>run\<close> from the choice of the model
    on, as a trace of sessions, prompts, calls of the breaker and the bead: where the walk stops,
    what the breaker is told, that nothing is left open. The patch of a reviewer and the
    quoting of its commands, read back as a shell reads them.
  \<^item> \<open>Job_Registry\<close>, \<open>Job_Control\<close>: \<open>src/specialist/jobRegistry.ts\<close> and \<open>job-control.ts\<close>. The
    registry as a machine per job, for any order of events; the wait for a job's result with
    its growing pauses.
  \<^item> \<open>Bead_Gate\<close>: \<open>src/activation/bead-gate.ts\<close> and \<open>step-contract.ts\<close>. The parser of sections
    and its round trip, admission, the compiled contract.
  \<^item> \<open>Launch_Outcome\<close>: \<open>src/specialist/launch-outcome.ts\<close>. The validator against its contract,
    what it hides, and what reading its projection again gives.
  \<^item> \<open>Node_Dispatch\<close>, \<open>Node_Queue\<close>, \<open>Node_Recovery\<close>: the queue and action lifecycle of
    \<open>src/specialist/node-supervisor.ts\<close>; its runs as a transition system (\<open>node_step\<close>) with
    the invariants of what is queued, sent and pending; the replay after a restart as a
    refinement, and the acknowledgement cut in two that blocks a member.
  \<^item> \<open>Merge_Order\<close>, \<open>Merge_Plan\<close>: \<open>src/cli/merge.ts\<close>. The choice of the branches and Kahn's
    algorithm on their dependencies; the plan as a program of commands with a trace of what it
    ran: shelving, rebase before merge, restoring, publication by pull request.

  \<^bold>\<open>Conventions.\<close> An interface or object type is a record, a union a datatype; \<open>undefined\<close> and
  \<open>null\<close> are \<^term>\<open>None\<close> where the code does not tell them apart. What throws gives a sum, with
  the error on the left. State is passed explicitly. An asynchronous function is cut at its
  awaits into steps, with an arbitrary change of the shared state between them. Loops are
  recursions that terminate (the drain of a node by the length of the queue, Kahn's loop by
  the queue and the counts that are still positive, the line loop by the buffer); a wait is a
  \<open>partial_function\<close>, whose end is a theorem. No fuel is used, and every bound (five
  queued actions of a member, 1 MiB of an unfinished line, the cooldown, the pauses of a wait)
  is the code's.

  \<^bold>\<open>What is assumed.\<close> Characters are code units below 256, and letter case is that of ASCII.
  Numbers are exact integers, and rationals in the pauses between attempts: the code adds,
  subtracts, scales and compares them. Within one
  operation the clock is read once. Ids made by \<open>randomUUID\<close> are fresh. SQL statements
  have the effect of their text, and the store accepts what is sent to it except where a
  failure is modelled. Outside of \<open>src/\<close>, and so parameters of the definitions: the probes
  of processes, hashes, \<open>Date.parse\<close>, \<open>JSON.parse\<close> of a text and the text of its error, the answers
  of \<open>bd\<close>, \<open>git\<close> and every other command (one function from the state of the world to a
  result and the next world), what a socket did, the clock of a wait.

  \<^bold>\<open>Not modelled.\<close> The sqlite engine with its schema, migrations, metrics and pruning
  (\<open>observability-db.ts\<close>, the rest of \<open>observability-sqlite.ts\<close>); the run loop of a supervised
  process, its pipes and event files (\<open>supervisor.ts\<close>); what \<open>runner.ts\<close> does before it chooses a model; the spawning and replacing of a
  node's members, its coordinator loop and its completion; the session of the Pi SDK (\<open>src/pi/\<close>), the prompts, token
  counts and forensic events of its host; the MCP server and the command line other than the merge;
  the loading of specialist definitions (zod schemas) and the texts of prompts;
  renderings of events; the bundles under \<open>dist/\<close>. They are input and output around the
  components above, or code of libraries. Of what is left the next in order are the
  completion of a node, \<open>process-health.ts\<close>, \<open>worktree-gc.ts\<close>, \<open>source-queue.ts\<close> and the line
  protocol of \<open>src/pi/rpc\<close>.
\<close>

end
